(* ===== verification/Rrjj_Prelude.thy ===== *)
theory Rrjj_Prelude
  imports Main "HOL-Library.Word" "HOL-Library.Char_ord" "HOL-Library.List_Lexorder"
    "HOL-Library.Sublist"
begin

text \<open>
  Shared vocabulary of the development: the machine integers, byte strings and fallible
  stateful operations of the Rust sources, the sorted associative containers
  (BTreeMap and BTreeSet), and the generic lemmas the components share.

  \<^item> A Rust \<open>u8\<close>, \<open>u32\<close>, \<open>u64\<close> is a word of that width: \<open>+\<close> wraps, as it does in the
    release profile of the workspace (overflow checks are off there). A \<open>usize\<close> that counts
    the elements of an in-memory collection is a \<open>nat\<close>.
  \<^item> A Rust \<open>String\<close>, \<open>[u8]\<close> or path text is a list of bytes (Isabelle's \<open>char\<close> is a byte);
    the list order of \<open>HOL-Library.List_Lexorder\<close> is the byte order \<open>Ord for str\<close> uses.
  \<^item> An \<open>async fn f(&mut self) -> Result<A, E>\<close> is a function from the state to the result
    and the new state; what the code changed before an error return stays changed.
\<close>

section \<open>Machine integers and bytes\<close>

type_synonym u8 = "8 word"
type_synonym u32 = "32 word"
type_synonym u64 = "64 word"
type_synonym bytes = string

abbreviation newline :: char where "newline \<equiv> CHR 0x0A"

text \<open>\<open>u64::saturating_add\<close> and \<open>u64::saturating_sub\<close>.\<close>

definition saturating_add :: "u64 \<Rightarrow> u64 \<Rightarrow> u64" where
  "saturating_add a b = (if unat a + unat b < 2 ^ 64 then a + b else - 1)"

definition saturating_sub :: "u64 \<Rightarrow> u64 \<Rightarrow> u64" where
  "saturating_sub a b = (if a \<le> b then 0 else a - b)"

lemma saturating_add_0 [simp]: "saturating_add a 0 = a" "saturating_add 0 a = a"
  using unsigned_less [of a, where 'a = nat] by (simp_all add: saturating_add_def)

lemma unat_saturating_add: "unat (saturating_add a b) = min (unat a + unat b) (2 ^ 64 - 1)"
proof (cases "unat a + unat b < 2 ^ 64")
  case True
  then have "unat (a + b) = unat a + unat b"
    by (simp add: unat_word_ariths)
  then show ?thesis using True by (simp add: saturating_add_def)
next
  case False
  have "unat (- 1 :: u64) = 2 ^ 64 - 1"
    by (simp add: unsigned_minus_1_eq_mask mask_eq_exp_minus_1)
  then show ?thesis using False by (simp add: saturating_add_def)
qed

lemma saturating_add_mono: "unat a \<le> unat (saturating_add a b)"
  using unsigned_less [of a, where 'a = nat] by (simp add: unat_saturating_add)

lemma word_of_nat_Suc: "(word_of_nat (Suc n) :: 'a::len word) = word_of_nat n + 1"
  by simp

text \<open>Decimal rendering (\<open>{}\<close>), and the zero-padded \<open>{:0w}\<close>.\<close>

fun show_nat :: "nat \<Rightarrow> string" where
  "show_nat n = (if n < 10 then [char_of (48 + n)]
                 else show_nat (n div 10) @ [char_of (48 + n mod 10)])"

declare show_nat.simps [simp del]

definition show_u64 :: "'a::len word \<Rightarrow> string" where
  "show_u64 w = show_nat (unat w)"

definition pad_zero :: "nat \<Rightarrow> string \<Rightarrow> string" where
  "pad_zero w s = replicate (w - length s) (CHR ''0'') @ s"

lemma show_nat_nonempty: "show_nat n \<noteq> []"
  by (subst show_nat.simps) simp

lemma char_of_digit_eq: "m < 10 \<Longrightarrow> n < 10 \<Longrightarrow> char_of (48 + m) = (char_of (48 + n) :: char) \<longleftrightarrow> m = n"
  for m n :: nat
  by (auto simp: char_of_eq_iff take_bit_nat_eq_self)

lemma show_nat_inj: "show_nat m = show_nat n \<Longrightarrow> m = n"
proof (induction m arbitrary: n rule: show_nat.induct)
  case (1 m)
  show ?case
  proof (cases "m < 10 \<or> n < 10")
    case True
    then show ?thesis
      using "1.prems" show_nat_nonempty [of "m div 10"] show_nat_nonempty [of "n div 10"]
      by (auto simp: show_nat.simps [of m] show_nat.simps [of n] char_of_digit_eq
          split: if_splits)
  next
    case False
    then have "show_nat (m div 10) = show_nat (n div 10)"
      and "char_of (48 + m mod 10) = (char_of (48 + n mod 10) :: char)"
      using "1.prems" by (auto simp: show_nat.simps [of m] show_nat.simps [of n])
    then have "m div 10 = n div 10" and "m mod 10 = n mod 10"
      using False "1.IH" by (auto simp: char_of_digit_eq)
    then show ?thesis by (metis div_mult_mod_eq)
  qed
qed

text \<open>The value of a decimal text, padded or not.\<close>

definition dec_value :: "string \<Rightarrow> nat" where
  "dec_value s = foldl (\<lambda>a c. 10 * a + (of_char c - 48)) 0 s"

lemma dec_value_snoc: "dec_value (s @ [c]) = 10 * dec_value s + (of_char c - 48)"
  by (simp add: dec_value_def)

lemma dec_value_show: "dec_value (show_nat n) = n"
proof (induction n rule: show_nat.induct)
  case (1 n)
  show ?case
  proof (cases "n < 10")
    case True
    then show ?thesis by (simp add: dec_value_def show_nat.simps [of n])
  next
    case False
    then show ?thesis using 1 by (simp add: show_nat.simps [of n] dec_value_snoc del: show_nat.simps)
  qed
qed

lemma dec_value_pad: "dec_value (pad_zero k s) = dec_value s"
proof -
  have "foldl (\<lambda>a c. 10 * a + (of_char c - 48)) 0 (replicate j (CHR ''0'')) = (0 :: nat)" for j
    by (induction j) simp_all
  then show ?thesis by (simp add: pad_zero_def dec_value_def)
qed

lemma pad_zero_show_inj: "pad_zero w (show_nat m) = pad_zero w (show_nat n) \<longleftrightarrow> m = n"
  using dec_value_pad dec_value_show by metis

section \<open>Directories as entry lists\<close>

text \<open>Replacing or adding an entry of a directory, and removing one.\<close>

fun put_entry :: "string \<Rightarrow> 'n \<Rightarrow> (string \<times> 'n) list \<Rightarrow> (string \<times> 'n) list" where
  "put_entry k v [] = [(k, v)]"
| "put_entry k v ((k', v') # d) = (if k' = k then (k, v) # d else (k', v') # put_entry k v d)"

definition drop_entry :: "string \<Rightarrow> (string \<times> 'n) list \<Rightarrow> (string \<times> 'n) list" where
  "drop_entry k d = filter (\<lambda>e. fst e \<noteq> k) d"

lemma map_of_put_entry [simp]: "map_of (put_entry k v d) = (map_of d)(k \<mapsto> v)"
  by (induction k v d rule: put_entry.induct) (auto simp: fun_eq_iff)

lemma map_of_drop_entry [simp]: "map_of (drop_entry k d) = (map_of d)(k := None)"
  by (induction d) (auto simp: drop_entry_def fun_eq_iff)

section \<open>Fallible stateful operations\<close>

type_synonym ('s, 'e, 'a) op = "'s \<Rightarrow> ('e + 'a) \<times> 's"

text \<open>The \<open>?\<close> operator: stop at an error, keep the state it left.\<close>

definition bindE :: "('s, 'e, 'a) op \<Rightarrow> ('a \<Rightarrow> ('s, 'e, 'b) op) \<Rightarrow> ('s, 'e, 'b) op" where
  "bindE m f = (\<lambda>s. case m s of (Inl e, t) \<Rightarrow> (Inl e, t) | (Inr x, t) \<Rightarrow> f x t)"

lemma bindE_Inr_iff:
  "bindE m f s = (Inr y, u) \<longleftrightarrow> (\<exists>x t. m s = (Inr x, t) \<and> f x t = (Inr y, u))"
  by (auto simp: bindE_def split: prod.splits sum.splits)

lemma bindE_Inl_iff:
  "bindE m f s = (Inl e, u) \<longleftrightarrow>
     m s = (Inl e, u) \<or> (\<exists>x t. m s = (Inr x, t) \<and> f x t = (Inl e, u))"
  by (auto simp: bindE_def split: prod.splits sum.splits)

lemma bindE_InrE:
  assumes "bindE m f s = (Inr y, u)"
  obtains x t where "m s = (Inr x, t)" "f x t = (Inr y, u)"
  using assms by (auto simp: bindE_Inr_iff)

lemma bindE_InlE:
  assumes "bindE m f s = (Inl e, u)"
  obtains "m s = (Inl e, u)" | x t where "m s = (Inr x, t)" "f x t = (Inl e, u)"
  using assms by (auto simp: bindE_Inl_iff)

text \<open>
  Hoare triples: from a state with \<open>P\<close> a normal return gives \<open>Q\<close>, an error return gives \<open>E\<close>.
  The collection \<open>triple_intros\<close> holds the rules for the operations of the components.
\<close>

definition triple ::
  "('s \<Rightarrow> bool) \<Rightarrow> ('s, 'e, 'a) op \<Rightarrow> ('a \<Rightarrow> 's \<Rightarrow> bool) \<Rightarrow> ('e \<Rightarrow> 's \<Rightarrow> bool) \<Rightarrow> bool" where
  "triple P m Q E \<longleftrightarrow>
     (\<forall>s. P s \<longrightarrow> (case m s of (Inl e, t) \<Rightarrow> E e t | (Inr x, t) \<Rightarrow> Q x t))"

named_theorems triple_intros

lemma tripleI:
  assumes "\<And>s x t. P s \<Longrightarrow> m s = (Inr x, t) \<Longrightarrow> Q x t"
    and "\<And>s e t. P s \<Longrightarrow> m s = (Inl e, t) \<Longrightarrow> E e t"
  shows "triple P m Q E"
  using assms by (auto simp: triple_def split: prod.splits sum.splits)

lemma tripleD: "triple P m Q E \<Longrightarrow> P s \<Longrightarrow> m s = (Inr x, t) \<Longrightarrow> Q x t"
  by (auto simp: triple_def split: prod.splits sum.splits)

lemma tripleDE: "triple P m Q E \<Longrightarrow> P s \<Longrightarrow> m s = (Inl e, t) \<Longrightarrow> E e t"
  by (auto simp: triple_def split: prod.splits sum.splits)

lemma triple_bindE [triple_intros]:
  assumes "triple P m R E" and "\<And>x. triple (R x) (f x) Q E"
  shows "triple P (bindE m f) Q E"
  using assms by (fastforce simp: triple_def bindE_def split: prod.splits sum.splits)

lemma triple_weaken:
  "triple P m Q E \<Longrightarrow> (\<And>s. P' s \<Longrightarrow> P s) \<Longrightarrow> (\<And>x s. Q x s \<Longrightarrow> Q' x s) \<Longrightarrow>
    (\<And>e s. E e s \<Longrightarrow> E' e s) \<Longrightarrow> triple P' m Q' E'"
  by (fastforce simp: triple_def split: prod.splits sum.splits)

text \<open>An invariant is kept by normal and error returns alike.\<close>

abbreviation keeps :: "('s \<Rightarrow> bool) \<Rightarrow> ('s, 'e, 'a) op \<Rightarrow> bool" where
  "keeps I m \<equiv> triple I m (\<lambda>_. I) (\<lambda>_. I)"

lemma keepsD: "keeps I m \<Longrightarrow> I s \<Longrightarrow> m s = (r, t) \<Longrightarrow> I t"
  by (cases r) (auto simp: triple_def split: prod.splits sum.splits)

lemma keepsI: "(\<And>s r t. I s \<Longrightarrow> m s = (r, t) \<Longrightarrow> I t) \<Longrightarrow> keeps I m"
  by (rule tripleI) blast+

lemma keeps_bindE: "keeps I m \<Longrightarrow> (\<And>x. keeps I (f x)) \<Longrightarrow> keeps I (bindE m f)"
  by (rule triple_bindE)

section \<open>BTreeMap and BTreeSet\<close>

text \<open>
  A BTreeMap is its sorted list of entries and a BTreeSet its sorted list of elements; the
  iteration order of the source is then the list order.
\<close>

fun bt_insert :: "'k::linorder \<Rightarrow> 'v \<Rightarrow> ('k \<times> 'v) list \<Rightarrow> ('k \<times> 'v) list" where
  "bt_insert k v [] = [(k, v)]"
| "bt_insert k v ((k', v') # m) =
     (if k < k' then (k, v) # (k', v') # m
      else if k = k' then (k, v) # m
      else (k', v') # bt_insert k v m)"

definition bt_ok :: "('k::linorder \<times> 'v) list \<Rightarrow> bool" where
  "bt_ok m \<longleftrightarrow> sorted_wrt (<) (map fst m)"

fun bs_insert :: "'a::linorder \<Rightarrow> 'a list \<Rightarrow> 'a list" where
  "bs_insert x [] = [x]"
| "bs_insert x (y # ys) =
     (if x < y then x # y # ys else if x = y then y # ys else y # bs_insert x ys)"

text \<open>\<open>BTreeSet::extend\<close>, and \<open>into_iter().collect::<BTreeSet>()\<close> as an extension of the empty set.\<close>

definition bs_extend :: "'a::linorder list \<Rightarrow> 'a list \<Rightarrow> 'a list" where
  "bs_extend s xs = fold bs_insert xs s"

abbreviation bs_ok :: "'a::linorder list \<Rightarrow> bool" where
  "bs_ok s \<equiv> sorted_wrt (<) s"

lemma bt_ok_Nil [simp]: "bt_ok []"
  by (simp add: bt_ok_def)

lemma map_of_bt_insert [simp]: "map_of (bt_insert k v m) = (map_of m)(k \<mapsto> v)"
  by (induction k v m rule: bt_insert.induct) (auto simp: fun_eq_iff)

lemma keys_bt_insert [simp]: "fst ` set (bt_insert k v m) = insert k (fst ` set m)"
  by (induction k v m rule: bt_insert.induct) auto

lemma bt_ok_insert [simp]: "bt_ok m \<Longrightarrow> bt_ok (bt_insert k v m)"
proof (induction k v m rule: bt_insert.induct)
  case (1 k v)
  then show ?case by (simp add: bt_ok_def)
next
  case (2 k v k' v' m)
  then have rec: "k' < k \<Longrightarrow> bt_ok (bt_insert k v m)" by (auto simp: bt_ok_def)
  show ?case
  proof (cases "k' < k")
    case True
    have "\<forall>x \<in> fst ` set (bt_insert k v m). k' < x"
      using 2(2) True by (auto simp: bt_ok_def)
    then show ?thesis using rec True 2(2) by (auto simp: bt_ok_def)
  next
    case False
    then show ?thesis using 2(2) by (auto simp: bt_ok_def)
  qed
qed

lemma bt_insert_nonempty [simp]: "bt_insert k v m \<noteq> []"
  by (induction k v m rule: bt_insert.induct) auto

lemma length_bt_insert_le: "length (bt_insert k v m) \<le> Suc (length m)"
  by (induction k v m rule: bt_insert.induct) auto

lemma length_bt_insert_mem: "bt_ok m \<Longrightarrow> map_of m k \<noteq> None \<Longrightarrow> length (bt_insert k v m) = length m"
proof (induction k v m rule: bt_insert.induct)
  case (2 k v k' v' m)
  show ?case
  proof (cases "k = k'")
    case False
    then obtain w where "(k, w) \<in> set m"
      using 2(3) by (auto dest: map_of_SomeD split: if_splits)
    then have "k' < k" and "map_of m k \<noteq> None"
      using 2(2) by (auto simp: bt_ok_def map_of_eq_None_iff image_iff intro: bexI [of _ "(k, w)"])
    then show ?thesis using 2(1,2) by (auto simp: bt_ok_def)
  qed simp
qed simp

lemma set_bs_insert [simp]: "set (bs_insert x s) = insert x (set s)"
  by (induction x s rule: bs_insert.induct) auto

lemma bs_ok_insert [simp]: "bs_ok s \<Longrightarrow> bs_ok (bs_insert x s)"
  by (induction x s rule: bs_insert.induct) auto

lemma set_bs_extend [simp]: "set (bs_extend s xs) = set s \<union> set xs"
  unfolding bs_extend_def by (induction xs arbitrary: s) auto

lemma bs_ok_extend [simp]: "bs_ok s \<Longrightarrow> bs_ok (bs_extend s xs)"
  unfolding bs_extend_def by (induction xs arbitrary: s) auto

lemma bs_extend_nonempty: "s \<noteq> [] \<or> xs \<noteq> [] \<Longrightarrow> bs_extend s xs \<noteq> []"
  by (metis set_bs_extend set_empty sup_eq_bot_iff)

text \<open>
  The interface the audit code needs of a BTreeMap: lookup after insert, the set of keys, and
  that inserting keeps the order. \<open>touch\<close> below is a client; its lemmas are proved from the
  interface alone.
\<close>

locale ordered_map =
  fixes lookup :: "'m \<Rightarrow> 'k \<Rightarrow> 'v option"
    and insert_entry :: "'k \<Rightarrow> 'v \<Rightarrow> 'm \<Rightarrow> 'm"
    and keys :: "'m \<Rightarrow> 'k set"
    and size_of :: "'m \<Rightarrow> nat"
    and invar :: "'m \<Rightarrow> bool"
  assumes lookup_insert: "lookup (insert_entry k v m) = (lookup m)(k \<mapsto> v)"
    and keys_insert: "keys (insert_entry k v m) = insert k (keys m)"
    and keys_lookup: "k \<in> keys m \<longleftrightarrow> lookup m k \<noteq> None"
    and invar_insert: "invar m \<Longrightarrow> invar (insert_entry k v m)"
    and size_insert_new: "size_of (insert_entry k v m) \<le> Suc (size_of m)"
    and size_insert_old: "invar m \<Longrightarrow> lookup m k \<noteq> None \<Longrightarrow> size_of (insert_entry k v m) = size_of m"
begin

lemma insert_within:
  assumes "invar m" and "size_of m \<le> cap" and "lookup m k \<noteq> None \<or> size_of m < cap"
  shows "size_of (insert_entry k v m) \<le> cap"
  using assms size_insert_new [of k v m] size_insert_old [of m k v] by linarith

lemma lookup_after: "lookup (insert_entry k v m) k' = (if k' = k then Some v else lookup m k')"
  by (simp add: lookup_insert)

lemma keys_grow: "keys m \<subseteq> keys (insert_entry k v m)" "k \<in> keys (insert_entry k v m)"
  by (auto simp: keys_insert)

end

interpretation bt: ordered_map map_of bt_insert "\<lambda>m. fst ` set m" length bt_ok
proof unfold_locales
  show "length (bt_insert k v m) \<le> Suc (length m)" for k :: "'k::linorder" and v :: 'v and m
    by (rule length_bt_insert_le)
  show "length (bt_insert k v m) = length m" if "bt_ok m" "map_of m k \<noteq> None"
    for k :: "'k::linorder" and v :: 'v and m
    using that by (rule length_bt_insert_mem)
  show "k \<in> fst ` set m \<longleftrightarrow> map_of m k \<noteq> None" for k :: "'k::linorder" and m :: "('k \<times> 'v) list"
    by (simp add: map_of_eq_None_iff)
qed simp_all

section \<open>Strings\<close>

text \<open>\<open>str::starts_with\<close>, \<open>ends_with\<close>, \<open>contains\<close> and \<open>strip_prefix\<close> on bytes.\<close>

definition starts_with :: "string \<Rightarrow> string \<Rightarrow> bool" where
  "starts_with s p \<longleftrightarrow> take (length p) s = p"

definition ends_with :: "string \<Rightarrow> string \<Rightarrow> bool" where
  "ends_with s p \<longleftrightarrow> length p \<le> length s \<and> drop (length s - length p) s = p"

fun contains :: "string \<Rightarrow> string \<Rightarrow> bool" where
  "contains [] p \<longleftrightarrow> p = []"
| "contains (c # s) p \<longleftrightarrow> starts_with (c # s) p \<or> contains s p"

definition strip_prefix :: "string \<Rightarrow> string \<Rightarrow> string option" where
  "strip_prefix s p = (if starts_with s p then Some (drop (length p) s) else None)"

text \<open>\<open>trim_start_matches(c)\<close>, \<open>trim_end_matches(c)\<close> and \<open>trim_matches(c)\<close>.\<close>

definition trim_start :: "char \<Rightarrow> string \<Rightarrow> string" where
  "trim_start c s = dropWhile (\<lambda>x. x = c) s"

definition trim_end :: "char \<Rightarrow> string \<Rightarrow> string" where
  "trim_end c s = rev (dropWhile (\<lambda>x. x = c) (rev s))"

definition trim_both :: "char \<Rightarrow> string \<Rightarrow> string" where
  "trim_both c s = trim_end c (trim_start c s)"

text \<open>\<open>[String]::join\<close>.\<close>

fun join_with :: "string \<Rightarrow> string list \<Rightarrow> string" where
  "join_with sep [] = []"
| "join_with sep [x] = x"
| "join_with sep (x # y # xs) = x @ sep @ join_with sep (y # xs)"

lemma starts_with_append [simp]: "starts_with (p @ s) p"
  by (simp add: starts_with_def)

lemma starts_with_prefix: "starts_with s p \<longleftrightarrow> prefix p s"
  unfolding starts_with_def by (metis append_eq_conv_conj prefix_def take_is_prefix)

lemma contains_iff: "contains s p \<longleftrightarrow> (\<exists>u v. s = u @ p @ v)"
proof (induction s)
  case Nil
  then show ?case by auto
next
  case (Cons c s)
  show ?case
  proof
    assume "contains (c # s) p"
    then consider "prefix p (c # s)" | u v where "s = u @ p @ v"
      using Cons.IH by (auto simp: starts_with_prefix)
    then show "\<exists>u v. c # s = u @ p @ v"
    proof cases
      case 1
      then show ?thesis unfolding prefix_def by (metis append_Nil)
    next
      case 2
      then show ?thesis by (metis append_Cons)
    qed
  next
    assume "\<exists>u v. c # s = u @ p @ v"
    then obtain u v where uv: "c # s = u @ p @ v" by blast
    show "contains (c # s) p"
    proof (cases u)
      case Nil
      then have "starts_with (c # s) p" using uv by (simp add: starts_with_prefix)
      then show ?thesis by simp
    next
      case (Cons d u')
      then have "s = u' @ p @ v" using uv by simp
      then show ?thesis using Cons.IH by auto
    qed
  qed
qed

lemma trim_end_id: "s \<noteq> [] \<Longrightarrow> last s \<noteq> c \<Longrightarrow> trim_end c s = s"
  by (cases s rule: rev_cases) (auto simp: trim_end_def)

lemma ends_with_single: "ends_with s [c] \<longleftrightarrow> s \<noteq> [] \<and> last s = c"
  by (cases s rule: rev_cases) (auto simp: ends_with_def)

text \<open>Lower and upper case ASCII and hex digits.\<close>

definition is_ascii_hexdigit :: "char \<Rightarrow> bool" where
  "is_ascii_hexdigit c \<longleftrightarrow>
     (let n = (of_char c :: nat) in (48 \<le> n \<and> n \<le> 57) \<or> (65 \<le> n \<and> n \<le> 70) \<or> (97 \<le> n \<and> n \<le> 102))"

definition to_ascii_lowercase :: "char \<Rightarrow> char" where
  "to_ascii_lowercase c =
     (let n = (of_char c :: nat) in if 65 \<le> n \<and> n \<le> 90 then char_of (n + 32) else c)"

lemma hexdigit_lowercase [simp]:
  "is_ascii_hexdigit (to_ascii_lowercase c) = is_ascii_hexdigit c"
  by (auto simp: is_ascii_hexdigit_def to_ascii_lowercase_def Let_def)

lemma lowercase_idem [simp]: "to_ascii_lowercase (to_ascii_lowercase c) = to_ascii_lowercase c"
  by (auto simp: to_ascii_lowercase_def Let_def)

end
