(* ===== verification/Schema.thy ===== *)
theory Schema
  imports Rrjj_Prelude
begin

text \<open>
  The event schema (\<open>crates/rrjj-schema/src/lib.rs\<close>): the timeline events, the session
  manifest and its compatibility test, and the change counters. Field names carry a prefix
  of their struct (\<open>ev_seq\<close> is \<open>Event.seq\<close>). The JSON form of an event is in \<open>Schema_Json\<close>; the
  text of a JSON document is written and parsed by \<open>serde_json\<close>, a parameter of the theories that
  use it.
\<close>

section \<open>Constants and manifest\<close>

definition SCHEMA_VERSION :: u8 where "SCHEMA_VERSION = 0"
definition SESSION_FORMAT_VERSION :: u32 where "SESSION_FORMAT_VERSION = 1"

record format_metadata =
  fm_session_format :: u32
  fm_schema_version :: u8
  fm_rrjj_version :: string
  fm_jj_lib_version :: string
  fm_jj_store_version :: string

record storage_pointers =
  sp_provider :: string
  sp_session_uri :: string
  sp_manifest_uri :: string
  sp_repository_uri :: string
  sp_events_uri :: "string option"

record storage_pointer =
  sptr_provider :: string
  sptr_uri :: string
  sptr_region :: "string option"
  sptr_endpoint :: "string option"

record session_manifest =
  sm_session_id :: string
  sm_format :: format_metadata
  sm_last_seq :: u64
  sm_last_op :: string
  sm_events_object :: "string option"
  sm_durable_seq :: "u64 option"
  sm_durable_op :: "string option"
  sm_storage :: "storage_pointers option"

definition is_compatible :: "session_manifest \<Rightarrow> bool" where
  "is_compatible m \<longleftrightarrow>
     fm_session_format (sm_format m) = SESSION_FORMAT_VERSION
     \<and> fm_schema_version (sm_format m) = SCHEMA_VERSION"

section \<open>Events\<close>

record session_start =
  ss_roots :: "string list"
  ss_baseline_op :: string
  ss_baseline_tree :: string
  ss_ignore :: "string list"
  ss_rrjj_version :: string
  ss_jj_lib_version :: string
  ss_jj_store_version :: string

datatype change_kind = Added | Removed | Modified | Renamed | Mode_changed

record change =
  ch_path :: string
  ch_kind :: change_kind
  ch_blob :: "string option"
  ch_prev_blob :: "string option"
  ch_from :: "string option"
  ch_bytes :: "u64 option"

record change_stats =
  cs_added :: u64
  cs_removed :: u64
  cs_modified :: u64
  cs_renamed :: u64
  cs_mode_changed :: u64

definition change_stats_default :: change_stats where
  "change_stats_default =
     \<lparr>cs_added = 0, cs_removed = 0, cs_modified = 0, cs_renamed = 0, cs_mode_changed = 0\<rparr>"

fun record_change :: "change_kind \<Rightarrow> change_stats \<Rightarrow> change_stats" where
  "record_change Added s = s\<lparr>cs_added := cs_added s + 1\<rparr>"
| "record_change Removed s = s\<lparr>cs_removed := cs_removed s + 1\<rparr>"
| "record_change Modified s = s\<lparr>cs_modified := cs_modified s + 1\<rparr>"
| "record_change Renamed s = s\<lparr>cs_renamed := cs_renamed s + 1\<rparr>"
| "record_change Mode_changed s = s\<lparr>cs_mode_changed := cs_mode_changed s + 1\<rparr>"

record snapshot =
  sn_op :: string
  sn_parent_op :: string
  sn_commit :: string
  sn_tree :: string
  sn_changes :: "change list"
  sn_stats :: change_stats
  sn_truncated :: bool

datatype touch_operation = Create | Modify | Remove | Rename | Other

record touched_path =
  tp_path :: string
  tp_operations :: "touch_operation list"

record touched_paths =
  tps_paths :: "touched_path list"
  tps_raw_events :: u64
  tps_window_started_at :: string
  tps_window_ended_at :: string

text \<open>
  \<open>serde_json::Value\<close>: a number is unsigned, negative, or a float, kept as its text; the fields of
  an object are in the order of the map.
\<close>

datatype json_number = Pos_int u64 | Neg_int "64 word" | Float string

datatype json_value =
    Json_null
  | Json_bool bool
  | Json_number json_number
  | Json_string string
  | Json_array "json_value list"
  | Json_object "(string \<times> json_value) list"

record mark =
  mk_label :: string
  mk_meta :: "(string \<times> json_value) list"
  mk_ref_op :: string

record flush =
  fl_op :: string
  fl_through_seq :: u64

record session_end =
  se_final_op :: string
  se_reason :: string
  se_snapshots :: u64
  se_events :: u64

record error_event =
  ee_scope :: string
  ee_message :: string
  ee_fatal :: bool
  ee_retrying :: bool

datatype overflow_recovery = Full_scan_snapshot

record overflow =
  of_source :: string
  of_raw_events :: u64
  of_recovery :: overflow_recovery

datatype event_body =
    Session_start session_start
  | Snapshot snapshot
  | Touched_paths touched_paths
  | Mark mark
  | Flush flush
  | Session_end session_end
  | Error error_event
  | Overflow overflow

record event =
  ev_v :: u8
  ev_seq :: u64
  ev_session_id :: string
  ev_ts :: string
  ev_body :: event_body

text \<open>
  \<open>Event::new\<close> reads the wall clock and defers to \<open>Event::at\<close>; the rendered time is an
  argument here.
\<close>

definition event_at :: "string \<Rightarrow> u64 \<Rightarrow> string \<Rightarrow> event_body \<Rightarrow> event" where
  "event_at session_id seq timestamp body =
     \<lparr>ev_v = SCHEMA_VERSION, ev_seq = seq, ev_session_id = session_id, ev_ts = timestamp,
      ev_body = body\<rparr>"

lemma event_at_simps [simp]:
  "ev_v (event_at sid n ts b) = SCHEMA_VERSION"
  "ev_seq (event_at sid n ts b) = n"
  "ev_session_id (event_at sid n ts b) = sid"
  "ev_ts (event_at sid n ts b) = ts"
  "ev_body (event_at sid n ts b) = b"
  by (simp_all add: event_at_def)

section \<open>The derived order of \<open>TouchOperation\<close>\<close>

text \<open>\<open>#[derive(PartialOrd, Ord)]\<close>: the order of the variants in the declaration.\<close>

primrec touch_rank :: "touch_operation \<Rightarrow> nat" where
  "touch_rank Create = 0"
| "touch_rank Modify = 1"
| "touch_rank Remove = 2"
| "touch_rank Rename = 3"
| "touch_rank Other = 4"

lemma touch_rank_inj: "touch_rank a = touch_rank b \<Longrightarrow> a = b"
  by (cases a; cases b) auto

instantiation touch_operation :: linorder
begin

definition less_eq_touch_operation :: "touch_operation \<Rightarrow> touch_operation \<Rightarrow> bool" where
  "less_eq_touch_operation a b \<longleftrightarrow> touch_rank a \<le> touch_rank b"

definition less_touch_operation :: "touch_operation \<Rightarrow> touch_operation \<Rightarrow> bool" where
  "less_touch_operation a b \<longleftrightarrow> touch_rank a < touch_rank b"

instance
  by standard
    (auto simp: less_eq_touch_operation_def less_touch_operation_def intro: touch_rank_inj)

end

lemmas touch_order_defs = less_eq_touch_operation_def less_touch_operation_def

text \<open>Size of an operation set: a \<open>BTreeSet<TouchOperation>\<close> never holds more than five.\<close>

lemma touch_set_bound:
  assumes "bs_ok (s :: touch_operation list)"
  shows "length s \<le> 5"
proof -
  have "distinct s" using assms by (induction s) auto
  then have "length s = card (set s)" by (simp add: distinct_card)
  also have "set s \<subseteq> {Create, Modify, Remove, Rename, Other}"
    using touch_operation.exhaust by blast
  then have "card (set s) \<le> card {Create, Modify, Remove, Rename, Other}"
    by (rule card_mono [rotated]) simp
  finally show ?thesis by simp
qed

section \<open>Counting changes\<close>

definition stats_total :: "change_stats \<Rightarrow> u64" where
  "stats_total s = cs_added s + cs_removed s + cs_modified s + cs_renamed s + cs_mode_changed s"

definition stat_of :: "change_kind \<Rightarrow> change_stats \<Rightarrow> u64" where
  "stat_of k s = (case k of Added \<Rightarrow> cs_added s | Removed \<Rightarrow> cs_removed s
     | Modified \<Rightarrow> cs_modified s | Renamed \<Rightarrow> cs_renamed s | Mode_changed \<Rightarrow> cs_mode_changed s)"

lemma stat_of_record [simp]:
  "stat_of j (record_change k s) = (if j = k then stat_of j s + 1 else stat_of j s)"
  by (cases k; cases j) (simp_all add: stat_of_def)

lemma stats_total_record [simp]: "stats_total (record_change k s) = stats_total s + 1"
  by (cases k) (simp_all add: stats_total_def)

lemma stat_of_default [simp]: "stat_of k change_stats_default = 0"
  by (cases k) (simp_all add: stat_of_def change_stats_default_def)

lemma stats_total_default [simp]: "stats_total change_stats_default = 0"
  by (simp add: stats_total_def change_stats_default_def)

end
