(* ===== verification/Audit_Accumulator.thy ===== *)
theory Audit_Accumulator
  imports Schema
begin

text \<open>
  The audit accumulator of \<open>crates/rrjj-core/src/lib.rs\<close>: the watcher folds notifications into
  it, the coordinator drains it. The mutex makes each operation atomic, so each is a function
  of the state. Instants are natural numbers (ticks of the monotonic clock); the wall clock
  text and the instant an operation reads are arguments. The \<open>watch\<close> channel is its counter.
\<close>

section \<open>State\<close>

definition MAX_AUDIT_PATHS :: nat where "MAX_AUDIT_PATHS = 100000"
definition MAX_OVERFLOW_REPORTS :: nat where "MAX_OVERFLOW_REPORTS = 64"

type_synonym touch_set = "touch_operation list"
type_synonym touch_map = "(string \<times> touch_set) list"

record overflow_notice =
  on_source :: string
  on_raw_events :: u64

record audit_state =
  as_paths :: touch_map
  as_raw_events :: u64
  as_started_at :: "string option"
  as_first :: "nat option"
  as_last :: "nat option"
  as_overflows :: "overflow_notice list"
  as_overflow_reports_limited :: bool
  as_path_limit_reported :: bool

record audit_batch =
  ab_paths :: touch_map
  ab_raw_events :: u64
  ab_started_at :: "string option"
  ab_overflows :: "overflow_notice list"

record audit_accumulator =
  aa_state :: audit_state
  aa_changed :: u64

definition audit_state_default :: audit_state where
  "audit_state_default =
     \<lparr>as_paths = [], as_raw_events = 0, as_started_at = None, as_first = None, as_last = None,
      as_overflows = [], as_overflow_reports_limited = False, as_path_limit_reported = False\<rparr>"

definition accumulator_new :: audit_accumulator where
  "accumulator_new = \<lparr>aa_state = audit_state_default, aa_changed = 0\<rparr>"

section \<open>Operations\<close>

text \<open>\<open>Option::get_or_insert\<close>.\<close>

definition get_or_insert :: "'a \<Rightarrow> 'a option \<Rightarrow> 'a option" where
  "get_or_insert x v = (case v of None \<Rightarrow> Some x | Some y \<Rightarrow> Some y)"

text \<open>The body of the loop of \<open>observe\<close>.\<close>

definition observe_path :: "touched_path \<Rightarrow> audit_state \<Rightarrow> audit_state" where
  "observe_path touched st =
     (case map_of (as_paths st) (tp_path touched) of
        Some operations \<Rightarrow>
          st\<lparr>as_paths := bt_insert (tp_path touched) (bs_extend operations (tp_operations touched))
               (as_paths st)\<rparr>
      | None \<Rightarrow>
          if length (as_paths st) < MAX_AUDIT_PATHS then
            st\<lparr>as_paths := bt_insert (tp_path touched) (bs_extend [] (tp_operations touched))
                 (as_paths st)\<rparr>
          else if \<not> as_path_limit_reported st then st\<lparr>as_path_limit_reported := True\<rparr>
          else st)"

definition notify_changed :: "audit_accumulator \<Rightarrow> audit_accumulator" where
  "notify_changed acc = acc\<lparr>aa_changed := aa_changed acc + 1\<rparr>"

text \<open>The lines of \<open>observe\<close> before its loop.\<close>

definition start_window :: "string \<Rightarrow> nat \<Rightarrow> u64 \<Rightarrow> audit_state \<Rightarrow> audit_state" where
  "start_window now now_instant raw_events st =
     st\<lparr>as_started_at := get_or_insert now (as_started_at st),
        as_first := get_or_insert now_instant (as_first st),
        as_last := Some now_instant,
        as_raw_events := saturating_add (as_raw_events st) raw_events\<rparr>"

definition observe ::
  "string \<Rightarrow> nat \<Rightarrow> touched_path list \<Rightarrow> u64 \<Rightarrow> audit_accumulator \<Rightarrow> audit_accumulator" where
  "observe now now_instant paths raw_events acc =
     (if paths = [] then acc
      else
        notify_changed
          (acc\<lparr>aa_state := fold observe_path paths (start_window now now_instant raw_events (aa_state acc))\<rparr>))"

definition overflow_limit_source :: string where
  "overflow_limit_source = ''rrjj:overflow_report_limit:'' @ show_nat MAX_OVERFLOW_REPORTS"

definition path_limit_source :: string where
  "path_limit_source = ''rrjj:audit_path_limit:'' @ show_nat MAX_AUDIT_PATHS"

definition push_overflow :: "string \<Rightarrow> u64 \<Rightarrow> audit_state \<Rightarrow> audit_state" where
  "push_overflow source raw_events st =
     (if length (as_overflows st) < MAX_OVERFLOW_REPORTS - 1 then
        st\<lparr>as_overflows := as_overflows st @ [\<lparr>on_source = source, on_raw_events = raw_events\<rparr>]\<rparr>
      else if \<not> as_overflow_reports_limited st then
        st\<lparr>as_overflow_reports_limited := True,
           as_overflows := as_overflows st
             @ [\<lparr>on_source = overflow_limit_source, on_raw_events = raw_events\<rparr>]\<rparr>
      else st)"

definition report_overflow :: "nat \<Rightarrow> string \<Rightarrow> u64 \<Rightarrow> audit_accumulator \<Rightarrow> audit_accumulator" where
  "report_overflow now_instant source raw_events acc =
     (let st = aa_state acc;
          st = st\<lparr>as_first := get_or_insert now_instant (as_first st)\<rparr>;
          st = st\<lparr>as_last := Some now_instant\<rparr>
      in notify_changed (acc\<lparr>aa_state := push_overflow source raw_events st\<rparr>))"

definition deadline :: "nat \<Rightarrow> nat \<Rightarrow> audit_accumulator \<Rightarrow> nat option" where
  "deadline quiescence max_delay acc =
     (case (as_first (aa_state acc), as_last (aa_state acc)) of
        (Some first, Some latest) \<Rightarrow> Some (min (first + max_delay) (latest + quiescence))
      | _ \<Rightarrow> None)"

definition drain :: "audit_accumulator \<Rightarrow> audit_batch \<times> audit_accumulator" where
  "drain acc =
     (let drained = aa_state acc;
          overflows =
            (if as_path_limit_reported drained then
               as_overflows drained
                 @ [\<lparr>on_source = path_limit_source, on_raw_events = as_raw_events drained\<rparr>]
             else as_overflows drained)
      in (\<lparr>ab_paths = as_paths drained, ab_raw_events = as_raw_events drained,
            ab_started_at = as_started_at drained, ab_overflows = overflows\<rparr>,
          acc\<lparr>aa_state := audit_state_default\<rparr>))"

definition is_dirty :: "audit_accumulator \<Rightarrow> bool" where
  "is_dirty acc \<longleftrightarrow> as_paths (aa_state acc) \<noteq> [] \<or> as_overflows (aa_state acc) \<noteq> []"

text \<open>What the watcher (or a caller of \<open>touched\<close>, \<open>overflow\<close>) hands to the accumulator.\<close>

datatype audit_input =
    Observe string nat "touched_path list" u64
  | Report_overflow nat string u64

fun apply_input :: "audit_input \<Rightarrow> audit_accumulator \<Rightarrow> audit_accumulator" where
  "apply_input (Observe ts i paths raw) acc = observe ts i paths raw acc"
| "apply_input (Report_overflow i source raw) acc = report_overflow i source raw acc"

definition apply_inputs :: "audit_input list \<Rightarrow> audit_accumulator \<Rightarrow> audit_accumulator" where
  "apply_inputs ins acc = fold apply_input ins acc"

section \<open>Well-formed accumulators\<close>

text \<open>
  Maps are sorted and hold sorted sets, the two caps hold, a flag is set only at its cap, and
  whatever makes the accumulator dirty has started the window that \<open>deadline\<close> measures.
\<close>

definition touch_map_ok :: "touch_map \<Rightarrow> bool" where
  "touch_map_ok m \<longleftrightarrow> bt_ok m \<and> list_all (\<lambda>(p, ops). bs_ok ops) m \<and> length m \<le> MAX_AUDIT_PATHS"

definition audit_ok :: "audit_state \<Rightarrow> bool" where
  "audit_ok st \<longleftrightarrow>
     touch_map_ok (as_paths st)
     \<and> (if as_overflow_reports_limited st then length (as_overflows st) = MAX_OVERFLOW_REPORTS
        else length (as_overflows st) < MAX_OVERFLOW_REPORTS)
     \<and> (as_path_limit_reported st \<longrightarrow> length (as_paths st) = MAX_AUDIT_PATHS)
     \<and> (as_paths st \<noteq> [] \<longleftrightarrow> as_started_at st \<noteq> None)
     \<and> (as_first st = None \<longleftrightarrow> as_last st = None)
     \<and> (as_paths st \<noteq> [] \<or> as_overflows st \<noteq> [] \<longrightarrow> as_first st \<noteq> None)"

definition keys :: "touch_map \<Rightarrow> string set" where
  "keys m = fst ` set m"

lemma touch_map_ok_Nil [simp]: "touch_map_ok []"
  by (simp add: touch_map_ok_def MAX_AUDIT_PATHS_def)

lemma keys_Nil [simp]: "keys [] = {}"
  by (simp add: keys_def)

lemma keys_insert [simp]: "keys (bt_insert k v m) = insert k (keys m)"
  by (simp add: keys_def)

lemma keys_map_of: "k \<in> keys m \<longleftrightarrow> map_of m k \<noteq> None"
  unfolding keys_def by (rule bt.keys_lookup)

lemma set_bt_insert: "set (bt_insert k v m) \<subseteq> insert (k, v) (set m)"
  by (induction k v m rule: bt_insert.induct) auto

lemma touch_map_ok_insert:
  assumes "touch_map_ok m" and "bs_ok ops"
    and "map_of m k \<noteq> None \<or> length m < MAX_AUDIT_PATHS"
  shows "touch_map_ok (bt_insert k ops m)"
proof -
  have "list_all (\<lambda>(p, ops). bs_ok ops) (bt_insert k ops m)"
    using assms set_bt_insert [of k ops m] by (fastforce simp: touch_map_ok_def list_all_iff)
  moreover have "length (bt_insert k ops m) \<le> MAX_AUDIT_PATHS"
    using assms by (intro bt.insert_within) (auto simp: touch_map_ok_def)
  ultimately show ?thesis using assms by (simp add: touch_map_ok_def)
qed

lemma touch_map_ok_lookup: "touch_map_ok m \<Longrightarrow> map_of m k = Some ops \<Longrightarrow> bs_ok ops"
  by (auto simp: touch_map_ok_def list_all_iff dest!: map_of_SomeD)

lemma audit_ok_default [simp]: "audit_ok audit_state_default"
  by (simp add: audit_ok_def audit_state_default_def MAX_OVERFLOW_REPORTS_def)

text \<open>What one path does to the accumulator, split into its three outcomes.\<close>

lemma observe_path_cases:
  obtains (known) ops where "map_of (as_paths st) (tp_path t) = Some ops"
      "observe_path t st = st\<lparr>as_paths := bt_insert (tp_path t)
         (bs_extend ops (tp_operations t)) (as_paths st)\<rparr>"
  | (new) "map_of (as_paths st) (tp_path t) = None" "length (as_paths st) < MAX_AUDIT_PATHS"
      "observe_path t st = st\<lparr>as_paths := bt_insert (tp_path t)
         (bs_extend [] (tp_operations t)) (as_paths st)\<rparr>"
  | (full) "map_of (as_paths st) (tp_path t) = None" "MAX_AUDIT_PATHS \<le> length (as_paths st)"
      "observe_path t st = st\<lparr>as_path_limit_reported := True\<rparr>"
  by (cases "map_of (as_paths st) (tp_path t)"; cases "length (as_paths st) < MAX_AUDIT_PATHS")
    (auto simp: observe_path_def)

text \<open>\<open>audit_ok\<close> inside the loop of \<open>observe\<close>, where the window has been started.\<close>

definition window_ok :: "audit_state \<Rightarrow> bool" where
  "window_ok st \<longleftrightarrow> touch_map_ok (as_paths st)
     \<and> (as_path_limit_reported st \<longrightarrow> length (as_paths st) = MAX_AUDIT_PATHS)"

lemma observe_path_window: "window_ok st \<Longrightarrow> window_ok (observe_path t st)"
proof (cases rule: observe_path_cases [of st t])
  case (known ops)
  assume ok: "window_ok st"
  then have "bs_ok ops" using known(1) touch_map_ok_lookup by (auto simp: window_ok_def)
  then have "touch_map_ok (as_paths (observe_path t st))"
    using ok known by (simp add: window_ok_def touch_map_ok_insert)
  then show ?thesis using ok known
    by (auto simp: window_ok_def touch_map_ok_def bt.size_insert_old)
next
  case new
  assume "window_ok st"
  then show ?thesis using new by (auto simp: window_ok_def touch_map_ok_insert bs_ok_extend)
next
  case full
  assume "window_ok st"
  then show ?thesis using full by (auto simp: window_ok_def touch_map_ok_def)
qed

lemma observe_path_frame [simp]:
  "as_raw_events (observe_path t st) = as_raw_events st"
  "as_started_at (observe_path t st) = as_started_at st"
  "as_first (observe_path t st) = as_first st"
  "as_last (observe_path t st) = as_last st"
  "as_overflows (observe_path t st) = as_overflows st"
  "as_overflow_reports_limited (observe_path t st) = as_overflow_reports_limited st"
  by (cases rule: observe_path_cases [of st t]; simp)+

lemma observe_path_keys:
  "keys (as_paths st) \<subseteq> keys (as_paths (observe_path t st))"
  "tp_path t \<in> keys (as_paths (observe_path t st)) \<or> as_path_limit_reported (observe_path t st)"
  "keys (as_paths (observe_path t st)) \<subseteq> insert (tp_path t) (keys (as_paths st))"
  "as_path_limit_reported st \<Longrightarrow> as_path_limit_reported (observe_path t st)"
  by (cases rule: observe_path_cases [of st t]; auto)+

lemma observe_path_nonempty: "window_ok st \<Longrightarrow> as_paths (observe_path t st) \<noteq> []"
  by (cases rule: observe_path_cases [of st t]) (auto simp: MAX_AUDIT_PATHS_def)

lemma observe_paths_window: "window_ok st \<Longrightarrow> window_ok (fold observe_path ts st)"
  by (induction ts arbitrary: st) (auto simp: observe_path_window)

lemma observe_paths_frame [simp]:
  "as_raw_events (fold observe_path ts st) = as_raw_events st"
  "as_started_at (fold observe_path ts st) = as_started_at st"
  "as_first (fold observe_path ts st) = as_first st"
  "as_last (fold observe_path ts st) = as_last st"
  "as_overflows (fold observe_path ts st) = as_overflows st"
  "as_overflow_reports_limited (fold observe_path ts st) = as_overflow_reports_limited st"
  by (induction ts arbitrary: st) auto

lemma observe_paths_limit:
  "as_path_limit_reported st \<Longrightarrow> as_path_limit_reported (fold observe_path ts st)"
  by (induction ts arbitrary: st) (auto simp: observe_path_keys(4))

lemma observe_paths_keys:
  "keys (as_paths st) \<subseteq> keys (as_paths (fold observe_path ts st))"
  "keys (as_paths (fold observe_path ts st)) \<subseteq> keys (as_paths st) \<union> tp_path ` set ts"
proof (induction ts arbitrary: st)
  case (Cons t ts)
  { case 1 show ?case
      using Cons(1) [of "observe_path t st"] observe_path_keys(1) [of st t] by auto
  next
    case 2 show ?case
      using Cons(2) [of "observe_path t st"] observe_path_keys(3) [of t st] by auto }
qed simp_all

lemma observe_paths_recorded:
  "\<not> as_path_limit_reported (fold observe_path ts st) \<Longrightarrow>
     tp_path ` set ts \<subseteq> keys (as_paths (fold observe_path ts st))"
proof (induction ts arbitrary: st)
  case (Cons t ts)
  have "tp_path t \<in> keys (as_paths (observe_path t st))"
    using observe_path_keys(2) [of t st] observe_paths_limit [of "observe_path t st" ts] Cons.prems
    by auto
  then show ?case using Cons observe_paths_keys(1) [of "observe_path t st" ts] by auto
qed simp

lemma observe_paths_nonempty: "window_ok st \<Longrightarrow> ts \<noteq> [] \<Longrightarrow> as_paths (fold observe_path ts st) \<noteq> []"
proof (cases ts)
  case (Cons t us)
  assume "window_ok st"
  then have "keys (as_paths (observe_path t st)) \<noteq> {}"
    using observe_path_nonempty by (simp add: keys_def)
  then show ?thesis using Cons observe_paths_keys(1) [of "observe_path t st" us]
    by (auto simp: keys_def)
qed simp

lemma start_window_frame [simp]:
  "as_paths (start_window ts i raw st) = as_paths st"
  "as_overflows (start_window ts i raw st) = as_overflows st"
  "as_overflow_reports_limited (start_window ts i raw st) = as_overflow_reports_limited st"
  "as_path_limit_reported (start_window ts i raw st) = as_path_limit_reported st"
  "as_raw_events (start_window ts i raw st) = saturating_add (as_raw_events st) raw"
  "as_last (start_window ts i raw st) = Some i"
  "as_first (start_window ts i raw st) \<noteq> None"
  "as_started_at (start_window ts i raw st) \<noteq> None"
  by (simp_all add: start_window_def get_or_insert_def split: option.splits)

lemma audit_ok_observe:
  assumes "audit_ok (aa_state acc)"
  shows "audit_ok (aa_state (observe ts i paths raw acc))"
proof (cases "paths = []")
  case True
  then show ?thesis using assms by (simp add: observe_def)
next
  case False
  let ?st = "start_window ts i raw (aa_state acc)"
  have w: "window_ok ?st"
    using assms by (auto simp: window_ok_def audit_ok_def)
  have "window_ok (fold observe_path paths ?st)" by (rule observe_paths_window [OF w])
  moreover have "as_paths (fold observe_path paths ?st) \<noteq> []"
    using False by (rule observe_paths_nonempty [OF w])
  moreover have "aa_state (observe ts i paths raw acc) = fold observe_path paths ?st"
    using False by (simp add: observe_def notify_changed_def)
  ultimately show ?thesis
    using assms by (simp add: audit_ok_def window_ok_def)
qed

lemma audit_ok_push:
  assumes "audit_ok st"
  shows "audit_ok (push_overflow source raw
     (st\<lparr>as_first := get_or_insert i (as_first st), as_last := Some i\<rparr>))"
  using assms unfolding push_overflow_def audit_ok_def
  by (auto simp: get_or_insert_def MAX_OVERFLOW_REPORTS_def split: option.splits)

lemma audit_ok_report:
  assumes "audit_ok (aa_state acc)"
  shows "audit_ok (aa_state (report_overflow i source raw acc))"
  using audit_ok_push [OF assms, where source = source and raw = raw and i = i]
  by (simp add: report_overflow_def notify_changed_def Let_def)

lemma audit_ok_inputs: "audit_ok (aa_state acc) \<Longrightarrow> audit_ok (aa_state (apply_inputs ins acc))"
  unfolding apply_inputs_def
proof (induction ins arbitrary: acc)
  case (Cons x ins)
  have "audit_ok (aa_state (apply_input x acc))"
    using Cons.prems by (cases x) (auto simp: audit_ok_observe audit_ok_report)
  then show ?case using Cons.IH by simp
qed simp

text \<open>Every dirty accumulator has a deadline: the watcher always wakes up for it.\<close>

lemma dirty_has_deadline:
  "audit_ok (aa_state acc) \<Longrightarrow> is_dirty acc \<Longrightarrow> deadline q d acc \<noteq> None"
  by (auto simp: audit_ok_def is_dirty_def deadline_def split: option.splits)

lemma deadline_bounds:
  "deadline q d acc = Some t \<Longrightarrow>
     \<exists>f l. as_first (aa_state acc) = Some f \<and> as_last (aa_state acc) = Some l
       \<and> t \<le> f + d \<and> t \<le> l + q \<and> (t = f + d \<or> t = l + q)"
  by (auto simp: deadline_def split: option.splits)

section \<open>Abstract view\<close>

text \<open>
  The abstract audit is a set of operations per path; below the cap, observing is union and
  draining hands over everything.
\<close>

definition ops_at :: "touch_map \<Rightarrow> string \<Rightarrow> touch_operation set" where
  "ops_at m p = (case map_of m p of None \<Rightarrow> {} | Some ops \<Rightarrow> set ops)"

definition touched_ops :: "touched_path list \<Rightarrow> string \<Rightarrow> touch_operation set" where
  "touched_ops ts p = (\<Union>t \<in> {t \<in> set ts. tp_path t = p}. set (tp_operations t))"

lemma ops_at_insert: "ops_at (bt_insert k v m) p = (if p = k then set v else ops_at m p)"
  by (simp add: ops_at_def)

lemma observe_path_ops:
  "\<not> as_path_limit_reported (observe_path t st) \<Longrightarrow>
     ops_at (as_paths (observe_path t st)) p = ops_at (as_paths st) p \<union> touched_ops [t] p"
  by (cases rule: observe_path_cases [of st t])
    (auto simp: ops_at_insert touched_ops_def ops_at_def)

lemma observe_paths_ops:
  "\<not> as_path_limit_reported (fold observe_path ts st) \<Longrightarrow>
     ops_at (as_paths (fold observe_path ts st)) p = ops_at (as_paths st) p \<union> touched_ops ts p"
proof (induction ts arbitrary: st)
  case Nil
  then show ?case by (simp add: touched_ops_def)
next
  case (Cons t ts)
  then have "\<not> as_path_limit_reported (observe_path t st)"
    using observe_paths_limit by auto
  then show ?case
    using Cons observe_path_ops [of t st p] by (auto simp: touched_ops_def)
qed

section \<open>Properties of the accumulator\<close>

lemma audit_ok_new: "audit_ok (aa_state (apply_inputs ins accumulator_new))"
  by (rule audit_ok_inputs) (simp add: accumulator_new_def)

text \<open>
  C10: The accumulator is bounded whatever it is fed: at most \<open>MAX_AUDIT_PATHS\<close> paths, sorted and
  each with at most five operations, and at most \<open>MAX_OVERFLOW_REPORTS\<close> notices; what a drain
  hands over is at most one notice longer, and leaves the accumulator empty.
\<close>

theorem accumulator_bounded:
  "length (as_paths (aa_state (apply_inputs ins accumulator_new))) \<le> MAX_AUDIT_PATHS
   \<and> bt_ok (as_paths (aa_state (apply_inputs ins accumulator_new)))
   \<and> list_all (\<lambda>(p, ops). length ops \<le> 5) (as_paths (aa_state (apply_inputs ins accumulator_new)))
   \<and> length (as_overflows (aa_state (apply_inputs ins accumulator_new))) \<le> MAX_OVERFLOW_REPORTS
   \<and> length (ab_overflows (fst (drain (apply_inputs ins accumulator_new)))) \<le> MAX_OVERFLOW_REPORTS + 1
   \<and> \<not> is_dirty (snd (drain (apply_inputs ins accumulator_new)))"
proof -
  note ok = audit_ok_new [of ins]
  then have "list_all (\<lambda>(p, ops). length ops \<le> 5) (as_paths (aa_state (apply_inputs ins accumulator_new)))"
    by (auto simp: audit_ok_def touch_map_ok_def list_all_iff intro: touch_set_bound)
  moreover have "length (as_overflows (aa_state (apply_inputs ins accumulator_new))) \<le> MAX_OVERFLOW_REPORTS"
    using ok by (auto simp: audit_ok_def split: if_splits)
  ultimately show ?thesis
    using ok by (auto simp: audit_ok_def touch_map_ok_def drain_def Let_def is_dirty_def audit_state_default_def)
qed

text \<open>The operations a list of inputs reports for a path.\<close>

fun input_ops :: "audit_input \<Rightarrow> string \<Rightarrow> touch_operation set" where
  "input_ops (Observe ts i paths raw) p = touched_ops paths p"
| "input_ops (Report_overflow i source raw) p = {}"

lemma push_overflow_paths [simp]:
  "as_paths (push_overflow source raw st) = as_paths st"
  "as_path_limit_reported (push_overflow source raw st) = as_path_limit_reported st"
  by (simp_all add: push_overflow_def)

lemma apply_input_ops:
  assumes "\<not> as_path_limit_reported (aa_state (apply_input x acc))"
  shows "ops_at (as_paths (aa_state (apply_input x acc))) p = ops_at (as_paths (aa_state acc)) p \<union> input_ops x p"
    "\<not> as_path_limit_reported (aa_state acc)"
proof -
  have "ops_at (as_paths (aa_state (apply_input x acc))) p = ops_at (as_paths (aa_state acc)) p \<union> input_ops x p
    \<and> \<not> as_path_limit_reported (aa_state acc)"
  proof (cases x)
    case (Observe ts i paths raw)
    show ?thesis
    proof (cases "paths = []")
      case True
      then show ?thesis using assms Observe by (simp add: observe_def touched_ops_def)
    next
      case False
      then show ?thesis
        using assms Observe observe_paths_ops [of paths "start_window ts i raw (aa_state acc)"]
          observe_paths_limit [of "start_window ts i raw (aa_state acc)" paths]
        by (auto simp: observe_def notify_changed_def)
    qed
  next
    case (Report_overflow i source raw)
    then show ?thesis using assms by (simp add: report_overflow_def notify_changed_def Let_def)
  qed
  then show "ops_at (as_paths (aa_state (apply_input x acc))) p = ops_at (as_paths (aa_state acc)) p \<union> input_ops x p"
    "\<not> as_path_limit_reported (aa_state acc)" by simp_all
qed

lemma apply_inputs_ops:
  "\<not> as_path_limit_reported (aa_state (apply_inputs ins acc)) \<Longrightarrow>
     ops_at (as_paths (aa_state (apply_inputs ins acc))) p
       = ops_at (as_paths (aa_state acc)) p \<union> (\<Union>x \<in> set ins. input_ops x p)
     \<and> \<not> as_path_limit_reported (aa_state acc)"
proof (induction ins arbitrary: acc)
  case Nil
  then show ?case by (simp add: apply_inputs_def)
next
  case (Cons x ins)
  have e: "apply_inputs (x # ins) acc = apply_inputs ins (apply_input x acc)"
    by (simp add: apply_inputs_def)
  show ?case
    using Cons.IH [of "apply_input x acc"] Cons.prems apply_input_ops(1) [of x acc p]
      apply_input_ops(2) [of x acc] unfolding e by auto
qed

text \<open>
  C11: Below the path limit the accumulator loses nothing and invents nothing: the operations it
  hands over for a path are exactly the union of the operations observed for it.
\<close>

theorem accumulator_exact:
  assumes "\<not> as_path_limit_reported (aa_state (apply_inputs ins accumulator_new))"
  shows "ops_at (ab_paths (fst (drain (apply_inputs ins accumulator_new)))) p
    = (\<Union>x \<in> set ins. input_ops x p)"
  using apply_inputs_ops [OF assms, of p]
  by (simp add: drain_def Let_def accumulator_new_def audit_state_default_def ops_at_def)

theorem accumulator_exact_witness:
  "ops_at (ab_paths (fst (drain (apply_inputs [Observe ''t'' 0 [\<lparr>tp_path = ''a'', tp_operations = [Create]\<rparr>] 1,
       Observe ''t'' 1 [\<lparr>tp_path = ''a'', tp_operations = [Remove]\<rparr>] 1] accumulator_new)))) ''a''
   = {Create, Remove}"
proof -
  let ?ins = "[Observe ''t'' 0 [\<lparr>tp_path = ''a'', tp_operations = [Create]\<rparr>] 1,
       Observe ''t'' 1 [\<lparr>tp_path = ''a'', tp_operations = [Remove]\<rparr>] 1]"
  have "\<not> as_path_limit_reported (aa_state (apply_inputs ?ins accumulator_new))"
    by (simp add: apply_inputs_def observe_def notify_changed_def observe_path_def start_window_def
        accumulator_new_def audit_state_default_def MAX_AUDIT_PATHS_def)
  from accumulator_exact [OF this, of "''a''"] show ?thesis by (auto simp: touched_ops_def)
qed

text \<open>
  The snapshot deadline: after every observation it is the earlier of the quiescence period
  after this observation and the maximal delay after the first one of the window, so a steady
  stream of changes postpones a snapshot but never beyond \<open>max_delay\<close>; a dirty accumulator
  always has a deadline, and a drained one has none.
\<close>

theorem deadline_policy:
  assumes "paths \<noteq> []"
  shows "deadline q d (observe ts i paths raw acc)
      = Some (min ((case as_first (aa_state acc) of None \<Rightarrow> i | Some f \<Rightarrow> f) + d) (i + q))
    \<and> as_first (aa_state (observe ts i paths raw acc))
      = Some (case as_first (aa_state acc) of None \<Rightarrow> i | Some f \<Rightarrow> f)
    \<and> deadline q d (snd (drain acc)) = None"
  using assms
  by (simp add: deadline_def observe_def notify_changed_def start_window_def get_or_insert_def
      drain_def audit_state_default_def Let_def split: option.splits)

theorem deadline_policy_witness:
  "deadline 5 20 (observe ''t'' 18 [\<lparr>tp_path = ''a'', tp_operations = []\<rparr>] 1
     (observe ''t'' 1 [\<lparr>tp_path = ''a'', tp_operations = []\<rparr>] 1 accumulator_new)) = Some 21"
proof -
  let ?p = "[\<lparr>tp_path = ''a'', tp_operations = []\<rparr>]"
  have "as_first (aa_state (observe ''t'' 1 ?p 1 accumulator_new)) = Some 1"
    by (simp add: observe_def notify_changed_def observe_path_def start_window_def
        accumulator_new_def audit_state_default_def MAX_AUDIT_PATHS_def get_or_insert_def)
  then show ?thesis
    using deadline_policy [where paths = ?p and q = 5 and d = 20 and ts = "''t''" and i = 18 and raw = 1 and acc = "observe ''t'' 1 ?p 1 accumulator_new"] by simp
qed

end
