(* ===== verification/Sink_Types.thy ===== *)
theory Sink_Types
  imports Schema
begin

text \<open>
  The error type and the traits of \<open>crates/rrjj-sinks\<close> (\<open>error.rs\<close>, \<open>traits.rs\<close>), and the
  buffered append-only file the journal and the directory sink write to.

  An \<open>Arc<dyn Sink>\<close> is a record of its three methods over the sink's own state; the default
  body of \<open>flush_session\<close> is \<open>default_flush_session\<close>. The locale \<open>sink_contract\<close> states what
  the coordinator needs of any sink: a successful \<open>emit\<close> appends exactly that event to the
  accepted stream, everything else leaves the stream as it was.
\<close>

section \<open>Errors\<close>

text \<open>An I/O error: an operating system error, or one made by the code (\<open>Error::other\<close>).\<close>

datatype io_error = Os_error int | Custom_io string

primrec raw_os_error :: "io_error \<Rightarrow> int option" where
  "raw_os_error (Os_error n) = Some n"
| "raw_os_error (Custom_io m) = None"

text \<open>\<open>error.kind() == ErrorKind::NotFound\<close> is ENOENT on the supported platforms.\<close>

definition io_not_found :: "io_error \<Rightarrow> bool" where
  "io_not_found e \<longleftrightarrow> raw_os_error e = Some 2"

datatype sink_error =
    Serialize string
  | Io io_error
  | SpoolFull (used: u64) (attempted: u64) (limit: u64)
  | DiskExhausted string
  | Failed string
  | InvalidFlush string
  | InvalidConfig string
  | CheckpointConflict string
  | EventConflict string
  | Transient string

section \<open>Requests and replies\<close>

record flush_request =
  fr_shadow_root :: string
  fr_last_seq :: u64
  fr_last_op :: string
  fr_checkpoint :: "string option"

record sink_cursor =
  sc_delivered_seq :: "u64 option"
  sc_delivered_op :: "string option"
  sc_checkpoint :: "string option"

record checkpoint_request =
  cr_shadow_root :: string
  cr_session_id :: string
  cr_commit :: string
  cr_last_seq :: u64
  cr_last_op :: string

record checkpoint_publication =
  cp_checkpoint :: string

record durable_watermark =
  dw_seq :: u64
  dw_op :: string
  dw_checkpoint :: string

record event_publish_request =
  ep_session_id :: string
  ep_schema_version :: u8
  ep_events :: "event list"
  ep_durable :: "durable_watermark option"

record event_acknowledgement =
  ea_accepted_through_seq :: u64
  ea_durable_through_seq :: "u64 option"

section \<open>The Sink trait\<close>

record 's sink_ops =
  so_emit :: "event \<Rightarrow> ('s, sink_error, unit) op"
  so_flush :: "('s, sink_error, unit) op"
  so_flush_session :: "flush_request \<Rightarrow> ('s, sink_error, unit) op"

definition default_flush_session ::
  "('s, sink_error, unit) op \<Rightarrow> flush_request \<Rightarrow> ('s, sink_error, unit) op" where
  "default_flush_session flush request = flush"

text \<open>
  \<open>CheckpointSink\<close> and \<open>EventSink\<close> have one method each, so they are functions
  \<open>checkpoint_request \<Rightarrow> ('c, sink_error, checkpoint_publication) op\<close> and
  \<open>event_publish_request \<Rightarrow> ('e, sink_error, event_acknowledgement) op\<close>.
\<close>

type_synonym 'c checkpoint_sink =
  "checkpoint_request \<Rightarrow> ('c, sink_error, checkpoint_publication) op"

type_synonym 'e event_sink =
  "event_publish_request \<Rightarrow> ('e, sink_error, event_acknowledgement) op"

locale sink_contract =
  fixes ops :: "'s sink_ops"
    and accepted :: "'s \<Rightarrow> event list \<Rightarrow> bool"
  assumes emit_ok: "accepted s es \<Longrightarrow> so_emit ops e s = (Inr u, t) \<Longrightarrow> accepted t (es @ [e])"
    and emit_err: "accepted s es \<Longrightarrow> so_emit ops e s = (Inl x, t) \<Longrightarrow> accepted t es"
    and flush_keeps: "accepted s es \<Longrightarrow> so_flush ops s = (r, t) \<Longrightarrow> accepted t es"
    and flush_session_keeps:
      "accepted s es \<Longrightarrow> so_flush_session ops fr s = (r, t) \<Longrightarrow> accepted t es"
begin

lemma emit_cases:
  assumes "accepted s es" and "so_emit ops e s = (r, t)"
  obtains (ok) "r = Inr ()" "accepted t (es @ [e])" | (err) x where "r = Inl x" "accepted t es"
proof (cases r)
  case (Inl x)
  with emit_err [OF assms(1)] assms(2) err show thesis by simp
next
  case (Inr u)
  with emit_ok [OF assms(1)] assms(2) ok show thesis by simp
qed

end

section \<open>An append-only file behind a buffered writer\<close>

text \<open>
  \<open>BufWriter<File>\<close>: bytes are buffered, then reach the file. Each I/O call consumes one
  entry of the fault script: \<open>None\<close> (or an exhausted script) is success, \<open>Some (e, n)\<close> is
  failure with \<open>e\<close> after \<open>n\<close> of the pending bytes reached the file. Bytes of the buffer that
  did not reach the file stay in the buffer, as they do in \<open>BufWriter\<close>.
\<close>

type_synonym io_fault = "(io_error \<times> nat) option"

record writer =
  wr_file :: bytes
  wr_buf :: bytes
  wr_faults :: "io_fault list"

definition next_fault :: "writer \<Rightarrow> io_fault \<times> writer" where
  "next_fault w =
     (case wr_faults w of [] \<Rightarrow> (None, w) | f # fs \<Rightarrow> (f, w\<lparr>wr_faults := fs\<rparr>))"

definition write_all :: "bytes \<Rightarrow> (writer, io_error, unit) op" where
  "write_all bs w0 =
     (case next_fault w0 of
        (None, w) \<Rightarrow> (Inr (), w\<lparr>wr_buf := wr_buf w @ bs\<rparr>)
      | (Some (e, n), w) \<Rightarrow>
          (Inl e, w\<lparr>wr_file := wr_file w @ take n (wr_buf w @ bs), wr_buf := drop n (wr_buf w)\<rparr>))"

definition flush_writer :: "(writer, io_error, unit) op" where
  "flush_writer w0 =
     (case next_fault w0 of
        (None, w) \<Rightarrow> (Inr (), w\<lparr>wr_file := wr_file w @ wr_buf w, wr_buf := []\<rparr>)
      | (Some (e, n), w) \<Rightarrow>
          (Inl e, w\<lparr>wr_file := wr_file w @ take n (wr_buf w), wr_buf := drop n (wr_buf w)\<rparr>))"

text \<open>\<open>sync_data\<close> and \<open>sync_all\<close>: the contents do not change.\<close>

definition sync_writer :: "(writer, io_error, unit) op" where
  "sync_writer w0 =
     (case next_fault w0 of (None, w) \<Rightarrow> (Inr (), w) | (Some (e, n), w) \<Rightarrow> (Inl e, w))"

text \<open>\<open>write_all\<close>, \<open>flush\<close> and \<open>sync_data\<close> of one line, stopping at the first error.\<close>

definition append_synced :: "bytes \<Rightarrow> (writer, io_error, unit) op" where
  "append_synced line = bindE (write_all line) (\<lambda>_. bindE flush_writer (\<lambda>_. sync_writer))"

text \<open>\<open>flush\<close> and \<open>sync_all\<close>.\<close>

definition flush_synced :: "(writer, io_error, unit) op" where
  "flush_synced = bindE flush_writer (\<lambda>_. sync_writer)"

lemmas writer_defs = next_fault_def write_all_def flush_writer_def sync_writer_def

lemma write_all_ok: "write_all bs w = (Inr u, w') \<Longrightarrow> wr_file w' = wr_file w \<and> wr_buf w' = wr_buf w @ bs"
  by (cases "wr_faults w"; cases "hd (wr_faults w)") (auto simp: writer_defs)

lemma write_all_err: "write_all bs w = (Inl e, w') \<Longrightarrow> prefix (wr_file w) (wr_file w')"
  by (cases "wr_faults w"; cases "hd (wr_faults w)") (auto simp: writer_defs)

lemma flush_writer_ok: "flush_writer w = (Inr u, w') \<Longrightarrow> wr_file w' = wr_file w @ wr_buf w \<and> wr_buf w' = []"
  by (cases "wr_faults w"; cases "hd (wr_faults w)") (auto simp: writer_defs)

lemma flush_writer_err: "flush_writer w = (Inl e, w') \<Longrightarrow> prefix (wr_file w) (wr_file w')"
  by (cases "wr_faults w"; cases "hd (wr_faults w)") (auto simp: writer_defs)

lemma sync_writer_keeps: "sync_writer w = (r, w') \<Longrightarrow> wr_file w' = wr_file w \<and> wr_buf w' = wr_buf w"
  by (cases "wr_faults w"; cases "hd (wr_faults w)") (auto simp: writer_defs)

lemma append_synced_ok:
  "append_synced line w = (Inr u, w') \<Longrightarrow>
     wr_file w' = wr_file w @ wr_buf w @ line \<and> wr_buf w' = []"
  unfolding append_synced_def
  by (auto simp: bindE_Inr_iff dest!: write_all_ok flush_writer_ok sync_writer_keeps)

lemma append_synced_err:
  "append_synced line w = (Inl e, w') \<Longrightarrow> prefix (wr_file w) (wr_file w')"
  unfolding append_synced_def
  by (auto simp: bindE_Inl_iff
      dest!: write_all_ok write_all_err flush_writer_ok flush_writer_err sync_writer_keeps)

lemma flush_synced_ok:
  "flush_synced w = (Inr u, w') \<Longrightarrow> wr_file w' = wr_file w @ wr_buf w \<and> wr_buf w' = []"
  unfolding flush_synced_def
  by (auto simp: bindE_Inr_iff dest!: flush_writer_ok sync_writer_keeps)

lemma flush_synced_err:
  "flush_synced w = (Inl e, w') \<Longrightarrow> prefix (wr_file w) (wr_file w')"
  unfolding flush_synced_def
  by (auto simp: bindE_Inl_iff dest!: flush_writer_ok flush_writer_err sync_writer_keeps)

lemma append_synced_no_faults:
  "wr_faults w = [] \<Longrightarrow>
     append_synced line w = (Inr (), w\<lparr>wr_file := wr_file w @ wr_buf w @ line, wr_buf := []\<rparr>)"
  by (simp add: append_synced_def bindE_def writer_defs)

lemma flush_synced_no_faults:
  "wr_faults w = [] \<Longrightarrow>
     flush_synced w = (Inr (), w\<lparr>wr_file := wr_file w @ wr_buf w, wr_buf := []\<rparr>)"
  by (simp add: flush_synced_def bindE_def writer_defs)

end
