(* ===== verification/Recorder.thy ===== *)
theory Recorder
  imports Sink_Types
begin

text \<open>
  The jj recorder of \<open>crates/rrjj-core/src/lib.rs\<close>: \<open>JjRecorder\<close>, the projection of a tree
  diff to the changes of a snapshot event, and the classification of a change.

  \<open>jj_lib\<close> and the file system are parameters, collected in the record \<open>jj_ops\<close> over an
  opaque world \<open>'j\<close> (repository, working copy, disk) and opaque trees \<open>'t\<close>. Each call may
  fail with a message; what it did to the world before failing is in the world it returns.
\<close>

section \<open>Errors of the coordinator\<close>

text \<open>
  An \<open>anyhow::Error\<close> of the coordinator wraps a sink error (the only one that is downcast),
  or carries a message of the recorder, or is the \<open>ensure!\<close> of \<open>emit_exact\<close>.
\<close>

datatype core_error =
    Sink_failed sink_error
  | Recorder_failed string
  | Sequence_changed

section \<open>Trees and their diffs\<close>

datatype tree_value =
    File (file_id: string) (executable: bool)
  | Symlink string
  | Tree string
  | Git_submodule string

text \<open>
  A \<open>MergedTreeValue\<close>: \<open>None\<close> when it is conflicted, else the value or its absence.
\<close>

type_synonym merged_value = "tree_value option option"

record diff_entry =
  de_path :: string
  de_values :: "string + merged_value \<times> merged_value"

definition resolved_value :: "merged_value \<Rightarrow> core_error + tree_value option" where
  "resolved_value value =
     (case value of
        Some v \<Rightarrow> Inr v
      | None \<Rightarrow> Inl (Recorder_failed ''conflicted tree value cannot be projected in schema v0''))"

fun classify :: "tree_value option \<Rightarrow> tree_value option \<Rightarrow> change_kind" where
  "classify None (Some _) = Added"
| "classify (Some _) None = Removed"
| "classify (Some (File before_id before_executable)) (Some (File after_id after_executable)) =
     (if before_id = after_id \<and> before_executable \<noteq> after_executable then Mode_changed
      else Modified)"
| "classify _ _ = Modified"

fun blob_id :: "tree_value option \<Rightarrow> string option" where
  "blob_id (Some (File i _)) = Some (''b:'' @ i)"
| "blob_id (Some (Symlink i)) = Some (''b:'' @ i)"
| "blob_id _ = None"

text \<open>The change of one entry; \<open>meta_len\<close> is the length \<open>fs::metadata\<close> gives, if it succeeds.\<close>

definition project_change ::
  "(string \<Rightarrow> u64 option) \<Rightarrow> string \<Rightarrow> tree_value option \<Rightarrow> tree_value option \<Rightarrow> change" where
  "project_change meta_len path before after =
     \<lparr>ch_path = path, ch_kind = classify before after, ch_blob = blob_id after,
      ch_prev_blob = blob_id before, ch_from = None,
      ch_bytes = (case after of None \<Rightarrow> None | Some _ \<Rightarrow> meta_len path)\<rparr>"

text \<open>The loop of \<open>project_diff\<close>, with its four local variables.\<close>

fun project_loop ::
  "(string \<Rightarrow> u64 option) \<Rightarrow> nat \<Rightarrow> diff_entry list \<Rightarrow> change list \<Rightarrow> change_stats \<Rightarrow> nat
     \<Rightarrow> core_error + change list \<times> change_stats \<times> bool" where
  "project_loop meta_len max_changes [] changes stats n_total =
     Inr (changes, stats, max_changes < n_total)"
| "project_loop meta_len max_changes (entry # stream) changes stats n_total =
     (case de_values entry of
        Inl m \<Rightarrow> Inl (Recorder_failed m)
      | Inr (vb, va) \<Rightarrow>
         (case resolved_value vb of
            Inl e \<Rightarrow> Inl e
          | Inr before_value \<Rightarrow>
             (case resolved_value va of
                Inl e \<Rightarrow> Inl e
              | Inr after_value \<Rightarrow>
                  project_loop meta_len max_changes stream
                    (if length changes < max_changes then
                       changes @ [project_change meta_len (de_path entry) before_value after_value]
                     else changes)
                    (record_change (classify before_value after_value) stats)
                    (n_total + 1))))"

definition project_diff ::
  "(string \<Rightarrow> u64 option) \<Rightarrow> nat \<Rightarrow> diff_entry list
     \<Rightarrow> core_error + change list \<times> change_stats \<times> bool" where
  "project_diff meta_len max_changes entries =
     project_loop meta_len max_changes entries [] change_stats_default 0"

text \<open>Reference: an entry is sound when both sides resolve.\<close>

fun entry_sides :: "diff_entry \<Rightarrow> (tree_value option \<times> tree_value option) option" where
  "entry_sides e =
     (case de_values e of Inr (Some b, Some a) \<Rightarrow> Some (b, a) | _ \<Rightarrow> None)"

definition entry_change :: "(string \<Rightarrow> u64 option) \<Rightarrow> diff_entry \<Rightarrow> change" where
  "entry_change meta_len e =
     (case entry_sides e of
        Some (b, a) \<Rightarrow> project_change meta_len (de_path e) b a
      | None \<Rightarrow> project_change meta_len (de_path e) None None)"

definition entry_kind :: "diff_entry \<Rightarrow> change_kind" where
  "entry_kind e = (case entry_sides e of Some (b, a) \<Rightarrow> classify b a | None \<Rightarrow> Modified)"

lemma project_loop_sound_entries:
  assumes "\<forall>e \<in> set es. entry_sides e \<noteq> None"
  shows "project_loop ml mx es cs st n =
    Inr (cs @ take (mx - length cs) (map (entry_change ml) es),
         fold (\<lambda>e. record_change (entry_kind e)) es st, mx < n + length es)"
  using assms
proof (induction es arbitrary: cs st n)
  case (Cons e es)
  then obtain b a where v: "de_values e = Inr (Some b, Some a)"
    by (auto split: sum.splits option.splits prod.splits)
  then have "entry_change ml e = project_change ml (de_path e) b a" "entry_kind e = classify b a"
    by (simp_all add: entry_change_def entry_kind_def)
  then show ?case using v Cons
    by (auto simp: resolved_value_def take_Cons' Suc_diff_Suc simp flip: diff_Suc_eq_diff_pred)
qed simp

lemma project_loop_bad_entry:
  "e \<in> set es \<Longrightarrow> entry_sides e = None \<Longrightarrow> \<exists>m. project_loop ml mx es cs st n = Inl (Recorder_failed m)"
proof (induction es arbitrary: cs st n)
  case (Cons d es)
  show ?case
  proof (cases "entry_sides d = None")
    case True
    then show ?thesis
      by (auto simp: resolved_value_def split: sum.splits option.splits prod.splits)
  next
    case False
    then show ?thesis using Cons
      by (auto simp: resolved_value_def split: sum.splits option.splits prod.splits)
  qed
qed simp

lemma stat_of_fold:
  "stat_of k (fold (\<lambda>e. record_change (f e)) es st) =
     stat_of k st + word_of_nat (length (filter (\<lambda>e. f e = k) es))"
  by (induction es arbitrary: st) (auto simp: algebra_simps)

section \<open>The recorder\<close>

definition path_join :: "string \<Rightarrow> string \<Rightarrow> string" where
  "path_join a b =
     (if starts_with b ''/'' then b
      else if a = [] \<or> ends_with a ''/'' then a @ b else a @ ''/'' @ b)"

record ('t, 'j) jj_ops =
  jo_create_dir_all :: "string \<Rightarrow> ('j, string, unit) op"
  jo_set_private :: "string \<Rightarrow> ('j, string, unit) op"
  jo_exists :: "'j \<Rightarrow> string \<Rightarrow> bool"
  jo_create_dir :: "string \<Rightarrow> ('j, string, unit) op"
  jo_init_repo :: "string \<Rightarrow> ('j, string, string) op"
  jo_init_working_copy :: "string \<Rightarrow> string \<Rightarrow> string \<Rightarrow> ('j, string, unit) op"
  jo_parse_ignores :: "string \<Rightarrow> string + unit"
  jo_empty_tree :: 't
  jo_snapshot :: "string \<Rightarrow> string \<Rightarrow> ('j, string, 't) op"
  jo_diff :: "'j \<Rightarrow> 't \<Rightarrow> 't \<Rightarrow> diff_entry list"
  jo_metadata_len :: "'j \<Rightarrow> string \<Rightarrow> u64 option"
  jo_write_commit :: "string option \<Rightarrow> 't \<Rightarrow> ('j, string, string) op"
  jo_commit_transaction :: "('j, string, string) op"
  jo_tree_id :: "'t \<Rightarrow> string option"
  jo_finish_working_copy :: "string \<Rightarrow> ('j, string, unit) op"

text \<open>
  \<open>jr_repo_op\<close> is \<open>self.repo.op_id().hex()\<close>, \<open>jr_previous_commit\<close> the hex of the commit;
  the ignore rules are kept as their text.
\<close>

record ('t, 'j) recorder =
  jr_watched_root :: string
  jr_shadow_root :: string
  jr_state_generation :: u64
  jr_base_ignores :: string
  jr_previous_tree :: 't
  jr_previous_commit :: "string option"
  jr_repo_op :: string
  jr_world :: 'j

definition op_id :: "('t, 'j) recorder \<Rightarrow> string" where
  "op_id r = ''op:'' @ jr_repo_op r"

definition commit_id :: "('t, 'j) recorder \<Rightarrow> string option" where
  "commit_id r = map_option (\<lambda>c. ''c:'' @ c) (jr_previous_commit r)"

text \<open>A library call on the recorder's world.\<close>

definition lift_jj :: "('j, string, 'a) op \<Rightarrow> (('t, 'j) recorder, core_error, 'a) op" where
  "lift_jj m r =
     (case m (jr_world r) of
        (Inl e, w) \<Rightarrow> (Inl (Recorder_failed e), r\<lparr>jr_world := w\<rparr>)
      | (Inr x, w) \<Rightarrow> (Inr x, r\<lparr>jr_world := w\<rparr>))"

definition working_copy_path :: "string \<Rightarrow> u64 \<Rightarrow> string" where
  "working_copy_path shadow_root generation =
     path_join shadow_root (''working-copy-'' @ pad_zero 3 (show_u64 generation))"

definition new_working_copy ::
  "('t, 'j) jj_ops \<Rightarrow> string \<Rightarrow> string \<Rightarrow> string \<Rightarrow> u64 \<Rightarrow> ('j, string, unit) op" where
  "new_working_copy jo repo_op watched_root shadow_root generation =
     (let state_path = working_copy_path shadow_root generation
      in bindE (jo_create_dir jo state_path)
           (\<lambda>_. jo_init_working_copy jo watched_root state_path repo_op))"

definition recorder_init ::
  "('t, 'j) jj_ops \<Rightarrow> string \<Rightarrow> string \<Rightarrow> string list \<Rightarrow> 'j
     \<Rightarrow> (core_error + ('t, 'j) recorder) \<times> 'j" where
  "recorder_init jo watched_root shadow_root ignore w0 =
     (let repo_path = path_join shadow_root ''repo'';
          ignore_rules = join_with [newline] ignore in
      case bindE (jo_create_dir_all jo shadow_root) (\<lambda>_.
           bindE (jo_set_private jo shadow_root) (\<lambda>_ w.
             if jo_exists jo w repo_path then
               (Inl (''shadow repository already exists: '' @ repo_path), w)
             else
               bindE (jo_create_dir jo repo_path) (\<lambda>_.
               bindE (jo_init_repo jo repo_path) (\<lambda>repo_op.
               bindE (new_working_copy jo repo_op watched_root shadow_root 0) (\<lambda>_ w.
                 case jo_parse_ignores jo ignore_rules of
                   Inl m \<Rightarrow> (Inl m, w)
                 | Inr _ \<Rightarrow> (Inr repo_op, w)))) w)) w0 of
        (Inl m, w) \<Rightarrow> (Inl (Recorder_failed m), w)
      | (Inr repo_op, w) \<Rightarrow>
          (Inr \<lparr>jr_watched_root = watched_root, jr_shadow_root = shadow_root,
                jr_state_generation = 0, jr_base_ignores = ignore_rules,
                jr_previous_tree = jo_empty_tree jo, jr_previous_commit = None,
                jr_repo_op = repo_op, jr_world = w\<rparr>, w))"

text \<open>The \<open>full_scan\<close> block of \<open>capture\<close>: a fresh working-copy state under a new generation.\<close>

definition renew_working_copy ::
  "('t, 'j) jj_ops \<Rightarrow> bool \<Rightarrow> (('t, 'j) recorder, core_error, unit) op" where
  "renew_working_copy jo full_scan r =
     (if full_scan then
        let r = r\<lparr>jr_state_generation := jr_state_generation r + 1\<rparr> in
        lift_jj (new_working_copy jo (jr_repo_op r) (jr_watched_root r) (jr_shadow_root r)
          (jr_state_generation r)) r
      else (Inr (), r))"

definition snapshot_tree ::
  "('t, 'j) jj_ops \<Rightarrow> (('t, 'j) recorder, core_error, 't) op" where
  "snapshot_tree jo r = lift_jj (jo_snapshot jo (jr_base_ignores r) (jr_repo_op r)) r"

text \<open>
  The end of \<open>capture\<close>: the commit and the transaction, then the snapshot from the tree id,
  then the recorder's fields in the order the code assigns them.
\<close>

definition commit_capture ::
  "('t, 'j) jj_ops \<Rightarrow> 't \<Rightarrow> change list \<Rightarrow> change_stats \<Rightarrow> bool
     \<Rightarrow> (('t, 'j) recorder, core_error, snapshot) op" where
  "commit_capture jo tree changes stats truncated r0 =
     (let parent_op = op_id r0 in
      bindE (lift_jj (jo_write_commit jo (jr_previous_commit r0) tree)) (\<lambda>commit.
      bindE (lift_jj (jo_commit_transaction jo)) (\<lambda>new_op r.
        case jo_tree_id jo tree of
          None \<Rightarrow> (Inl (Recorder_failed ''snapshot produced a conflicted root tree''), r)
        | Some tree_id \<Rightarrow>
            let snapshot = \<lparr>sn_op = ''op:'' @ new_op, sn_parent_op = parent_op,
                  sn_commit = ''c:'' @ commit, sn_tree = ''t:'' @ tree_id,
                  sn_changes = changes, sn_stats = stats, sn_truncated = truncated\<rparr>;
                r = r\<lparr>jr_repo_op := new_op\<rparr> in
            bindE (lift_jj (jo_finish_working_copy jo new_op)) (\<lambda>_ r.
              (Inr snapshot,
               r\<lparr>jr_previous_tree := tree, jr_previous_commit := Some commit\<rparr>)) r)) r0)"

definition capture ::
  "('t, 'j) jj_ops \<Rightarrow> bool \<Rightarrow> nat \<Rightarrow> (('t, 'j) recorder, core_error, snapshot) op" where
  "capture jo full_scan max_changes =
     bindE (renew_working_copy jo full_scan) (\<lambda>_.
     bindE (snapshot_tree jo) (\<lambda>tree r.
       case project_diff
              (\<lambda>p. jo_metadata_len jo (jr_world r) (path_join (jr_watched_root r) p))
              max_changes (jo_diff jo (jr_world r) (jr_previous_tree r) tree) of
         Inl e \<Rightarrow> (Inl e, r)
       | Inr (changes, stats, truncated) \<Rightarrow>
           commit_capture jo tree changes stats truncated r))"

lemma lift_jj_frame:
  "lift_jj m r = (x, r') \<Longrightarrow> \<exists>w. r' = r\<lparr>jr_world := w\<rparr>"
  by (auto simp: lift_jj_def split: prod.splits sum.splits)

lemma lift_jj_error: "lift_jj m r = (Inl e, r') \<Longrightarrow> \<exists>msg. e = Recorder_failed msg"
  by (auto simp: lift_jj_def split: prod.splits sum.splits)

lemma commit_capture_ok:
  assumes "commit_capture jo tree cs st tr r = (Inr s, r')"
  shows "sn_parent_op s = op_id r" "sn_op s = op_id r'" "commit_id r' = Some (sn_commit s)"
    "sn_changes s = cs" "sn_stats s = st" "sn_truncated s = tr"
    "jr_previous_tree r' = tree"
  using assms unfolding commit_capture_def Let_def
  by (auto simp: bindE_Inr_iff op_id_def commit_id_def split: option.splits dest!: lift_jj_frame)

lemma renew_working_copy_frame:
  "renew_working_copy jo fs r = (x, r') \<Longrightarrow>
     jr_repo_op r' = jr_repo_op r \<and> jr_previous_commit r' = jr_previous_commit r
     \<and> jr_previous_tree r' = jr_previous_tree r
     \<and> jr_state_generation r' = jr_state_generation r + (if fs then 1 else 0)"
  by (auto simp: renew_working_copy_def Let_def split: if_splits dest!: lift_jj_frame)

lemma snapshot_tree_frame:
  "snapshot_tree jo r = (x, r') \<Longrightarrow> \<exists>w. r' = r\<lparr>jr_world := w\<rparr>"
  by (auto simp: snapshot_tree_def dest: lift_jj_frame)

lemma capture_ok:
  assumes "capture jo fs mx r = (Inr s, r')"
  shows "sn_parent_op s = op_id r" "sn_op s = op_id r'" "commit_id r' = Some (sn_commit s)"
proof -
  obtain u r1 tree r2 cs st tr where
    1: "renew_working_copy jo fs r = (Inr u, r1)" and
    2: "snapshot_tree jo r1 = (Inr tree, r2)" and
    3: "commit_capture jo tree cs st tr r2 = (Inr s, r')"
    using assms unfolding capture_def by (auto elim!: bindE_InrE split: sum.splits)
  have "op_id r2 = op_id r"
    using renew_working_copy_frame [OF 1] snapshot_tree_frame [OF 2] by (auto simp: op_id_def)
  then show "sn_parent_op s = op_id r" "sn_op s = op_id r'" "commit_id r' = Some (sn_commit s)"
    using commit_capture_ok [OF 3] by simp_all
qed

lemma project_loop_error: "project_loop ml mx es cs st n = Inl e \<Longrightarrow> \<exists>m. e = Recorder_failed m"
  by (induction es arbitrary: cs st n)
    (auto simp: resolved_value_def split: sum.splits option.splits prod.splits)

text \<open>A failing capture is a recorder error: it is never mistaken for a sink failure.\<close>

lemma capture_error:
  assumes "capture jo fs mx r = (Inl e, r')"
  shows "\<exists>m. e = Recorder_failed m"
  using assms unfolding capture_def commit_capture_def renew_working_copy_def snapshot_tree_def
    project_diff_def Let_def
  by (auto elim!: bindE_InlE split: sum.splits option.splits if_splits
      dest!: lift_jj_error project_loop_error)

section \<open>Properties of the projection\<close>

lemma project_diff_error_iff: "isl (project_diff ml mx es) \<longleftrightarrow> (\<exists>e \<in> set es. entry_sides e = None)"
proof (cases "\<exists>e \<in> set es. entry_sides e = None")
  case True
  then obtain e where "e \<in> set es" "entry_sides e = None" by blast
  from project_loop_bad_entry [OF this, of ml mx "[]" change_stats_default 0] True
  show ?thesis unfolding project_diff_def by force
next
  case False
  then have "\<forall>e \<in> set es. entry_sides e \<noteq> None" by auto
  from project_loop_sound_entries [OF this, of ml mx "[]" change_stats_default 0] False
  show ?thesis unfolding project_diff_def by simp
qed

text \<open>
  C12: A snapshot's change list and statistics are exact: the projection fails exactly when some
  entry of the diff does not resolve; otherwise it lists the changes of the first
  \<open>max_changes\<close> entries in order, counts every entry of the whole diff under its kind, and
  reports truncation exactly when entries were left out.
\<close>

theorem project_diff_exact:
  assumes "project_diff meta_len max_changes entries = r"
  shows "case r of
      Inl e \<Rightarrow> (\<exists>d \<in> set entries. entry_sides d = None) \<and> (\<exists>m. e = Recorder_failed m)
    | Inr (changes, stats, truncated) \<Rightarrow>
        (\<forall>d \<in> set entries. entry_sides d \<noteq> None)
        \<and> changes = map (entry_change meta_len) (take max_changes entries)
        \<and> (\<forall>k. stat_of k stats = word_of_nat (length (filter (\<lambda>d. entry_kind d = k) entries)))
        \<and> (truncated \<longleftrightarrow> length changes < length entries)"
proof (cases "\<exists>d \<in> set entries. entry_sides d = None")
  case True
  then have "isl r" using project_diff_error_iff assms by blast
  then obtain e where "r = Inl e" by (auto simp: isl_def)
  then show ?thesis using True assms project_loop_error unfolding project_diff_def by auto
next
  case False
  then have a: "\<forall>d \<in> set entries. entry_sides d \<noteq> None" by auto
  have "r = Inr (take max_changes (map (entry_change meta_len) entries),
      fold (\<lambda>e. record_change (entry_kind e)) entries change_stats_default, max_changes < length entries)"
    using project_loop_sound_entries [OF a, of meta_len max_changes "[]" change_stats_default 0] assms
    unfolding project_diff_def by simp
  then show ?thesis using a by (auto simp: take_map stat_of_fold)
qed

theorem project_diff_exact_witness:
  "case project_diff (\<lambda>p. None) 1
       [\<lparr>de_path = ''a'', de_values = Inr (Some None, Some (Some (File ''1'' False)))\<rparr>,
        \<lparr>de_path = ''b'', de_values = Inr (Some (Some (Symlink ''2'')), Some None)\<rparr>] of
     Inl e \<Rightarrow> False
   | Inr (changes, stats, truncated) \<Rightarrow> map ch_path changes = [''a''] \<and> truncated
       \<and> stat_of Added stats = 1 \<and> stat_of Removed stats = 1"
proof -
  let ?es = "[\<lparr>de_path = ''a'', de_values = Inr (Some None, Some (Some (File ''1'' False)))\<rparr>,
        \<lparr>de_path = ''b'', de_values = Inr (Some (Some (Symlink ''2'')), Some None)\<rparr>]"
  from project_diff_exact [OF refl, where meta_len = "\<lambda>p. None" and max_changes = 1 and entries = ?es] show ?thesis
    by (auto simp: entry_change_def entry_kind_def project_change_def split: sum.splits)
qed

text \<open>
  The kind of a change is determined by its two sides: added and removed mean that one side
  is absent, a mode change means the same file content with the other executable bit, anything
  else is a modification (a rename is never reported); an added file has no previous blob and
  a removed one no new blob.
\<close>

theorem classify_sound:
  "(classify before after = Added \<longleftrightarrow> before = None \<and> after \<noteq> None)
   \<and> (classify before after = Removed \<longleftrightarrow> before \<noteq> None \<and> after = None)
   \<and> (classify before after = Mode_changed \<longleftrightarrow>
        (\<exists>i x. before = Some (File i x) \<and> after = Some (File i (\<not> x))))
   \<and> classify before after \<noteq> Renamed
   \<and> (classify before after = Added \<longrightarrow> ch_prev_blob (project_change ml p before after) = None)
   \<and> (classify before after = Removed \<longrightarrow> ch_blob (project_change ml p before after) = None
        \<and> ch_bytes (project_change ml p before after) = None)
   \<and> (classify before after = Mode_changed \<longrightarrow>
        ch_blob (project_change ml p before after) = ch_prev_blob (project_change ml p before after))"
  by (cases "(before, after)" rule: classify.cases) (auto simp: project_change_def)

theorem classify_sound_witness:
  "classify (Some (File ''1'' False)) (Some (File ''1'' True)) = Mode_changed"
  using classify_sound [of "Some (File ''1'' False)" "Some (File ''1'' True)" "\<lambda>p. None" "''p''"] by blast

end
