(* ===== verification/Sink_Util.thy ===== *)
theory Sink_Util
  imports Sink_Types
begin

text \<open>
  The helpers of \<open>crates/rrjj-sinks/src/util.rs\<close>: the operation an event names, commit
  object ids, the parser of an event spool, the redaction of secrets and the name of a
  temporary file. \<open>from_slice\<close> stands for \<open>serde_json::from_slice::<Event>\<close>, \<open>to_vec\<close> for
  \<open>serde_json::to_vec\<close>.
\<close>

section \<open>Text of messages\<close>

text \<open>\<open>{:?}\<close> of a string: the escapes of ASCII characters.\<close>

fun hex_digits :: "nat \<Rightarrow> string" where
  "hex_digits n =
     (let d = (\<lambda>k. char_of (if k < 10 then 48 + k else 87 + k))
      in if n < 16 then [d n] else hex_digits (n div 16) @ [d (n mod 16)])"

declare hex_digits.simps [simp del]

definition debug_char :: "char \<Rightarrow> string" where
  "debug_char c =
     (let n = (of_char c :: nat) in
      if n = 34 then [CHR 0x5C, CHR 0x22]
      else if n = 92 then [CHR 0x5C, CHR 0x5C]
      else if n = 10 then [CHR 0x5C, CHR ''n'']
      else if n = 13 then [CHR 0x5C, CHR ''r'']
      else if n = 9 then [CHR 0x5C, CHR ''t'']
      else if n = 0 then [CHR 0x5C, CHR ''0'']
      else if n < 32 \<or> n = 127 then [CHR 0x5C, CHR ''u'', CHR 0x7B] @ hex_digits n @ [CHR 0x7D]
      else [c])"

definition debug_str :: "string \<Rightarrow> string" where
  "debug_str s = [CHR 0x22] @ concat (map debug_char s) @ [CHR 0x22]"

section \<open>Events\<close>

definition event_op :: "event \<Rightarrow> string option" where
  "event_op e =
     (case ev_body e of
        Session_start value \<Rightarrow> Some (ss_baseline_op value)
      | Snapshot value \<Rightarrow> Some (sn_op value)
      | Session_end value \<Rightarrow> Some (se_final_op value)
      | Flush value \<Rightarrow> Some (fl_op value)
      | _ \<Rightarrow> None)"

fun find_map :: "('a \<Rightarrow> 'b option) \<Rightarrow> 'a list \<Rightarrow> 'b option" where
  "find_map f [] = None"
| "find_map f (x # xs) = (case f x of Some y \<Rightarrow> Some y | None \<Rightarrow> find_map f xs)"

lemma find_map_None: "find_map f xs = None \<longleftrightarrow> (\<forall>x\<in>set xs. f x = None)"
  by (induction xs) (auto split: option.splits)

lemma find_map_SomeD: "find_map f xs = Some y \<Longrightarrow> \<exists>x\<in>set xs. f x = Some y"
  by (induction xs) (auto split: option.splits)

lemma find_map_append:
  "find_map f (xs @ ys) = (case find_map f xs of Some y \<Rightarrow> Some y | None \<Rightarrow> find_map f ys)"
  by (induction xs) (auto split: option.splits)

definition snapshot_commit :: "event \<Rightarrow> string option" where
  "snapshot_commit e = (case ev_body e of Snapshot snapshot \<Rightarrow> Some (sn_commit snapshot) | _ \<Rightarrow> None)"

definition latest_snapshot_commit :: "event list \<Rightarrow> string option" where
  "latest_snapshot_commit events = find_map snapshot_commit (rev events)"

lemma latest_snapshot_commit_snoc [simp]:
  "latest_snapshot_commit (es @ [e]) =
     (case snapshot_commit e of Some c \<Rightarrow> Some c | None \<Rightarrow> latest_snapshot_commit es)"
  by (simp add: latest_snapshot_commit_def split: option.splits)

section \<open>Commit object ids\<close>

definition oid_hex :: "string \<Rightarrow> string" where
  "oid_hex commit = (case strip_prefix commit ''c:'' of Some h \<Rightarrow> h | None \<Rightarrow> commit)"

definition normalize_commit_oid :: "string \<Rightarrow> sink_error + string" where
  "normalize_commit_oid commit =
     (let hex = oid_hex commit in
      if length hex \<noteq> 40 \<and> length hex \<noteq> 64 then
        Inl (InvalidFlush (''checkpoint commit OID must be 40 or 64 hex digits: '' @ debug_str commit))
      else if \<not> list_all is_ascii_hexdigit hex then
        Inl (InvalidFlush (''checkpoint commit OID is not hex: '' @ debug_str commit))
      else Inr (map to_ascii_lowercase hex))"

definition canonical_oid :: "string \<Rightarrow> bool" where
  "canonical_oid s \<longleftrightarrow>
     (length s = 40 \<or> length s = 64) \<and> list_all is_ascii_hexdigit s
     \<and> map to_ascii_lowercase s = s"

lemma oid_hex_hex: "list_all is_ascii_hexdigit s \<Longrightarrow> oid_hex s = s"
  by (cases s; cases "tl s")
    (auto simp: oid_hex_def strip_prefix_def starts_with_def is_ascii_hexdigit_def)

lemma normalize_canonical: "normalize_commit_oid c = Inr h \<Longrightarrow> canonical_oid h"
  by (auto simp: normalize_commit_oid_def canonical_oid_def Let_def list_all_iff
      split: if_splits)

lemma normalize_of_canonical: "canonical_oid h \<Longrightarrow> normalize_commit_oid h = Inr h"
  by (auto simp: normalize_commit_oid_def canonical_oid_def oid_hex_hex Let_def)

lemma normalize_prefixed: "canonical_oid h \<Longrightarrow> normalize_commit_oid (''c:'' @ h) = Inr h"
  by (auto simp: normalize_commit_oid_def canonical_oid_def oid_hex_def strip_prefix_def
      starts_with_def Let_def)

section \<open>The event spool\<close>

fun split_on :: "char \<Rightarrow> string \<Rightarrow> string list" where
  "split_on c [] = [[]]"
| "split_on c (x # xs) =
     (if x = c then [] # split_on c xs
      else (case split_on c xs of l # ls \<Rightarrow> (x # l) # ls | [] \<Rightarrow> [[x]]))"

definition spool_lines :: "bytes \<Rightarrow> bytes list" where
  "spool_lines bs = filter (\<lambda>l. l \<noteq> []) (split_on newline bs)"

text \<open>The checks of one line, in the order of the source.\<close>

definition parse_spool_line ::
  "(bytes \<Rightarrow> string + event) \<Rightarrow> string \<Rightarrow> u8 \<Rightarrow> string \<Rightarrow> nat \<Rightarrow> bytes \<Rightarrow> sink_error + event" where
  "parse_spool_line from_slice session_id schema_version sink_name index line =
     (case from_slice line of
        Inl m \<Rightarrow> Inl (Serialize m)
      | Inr event \<Rightarrow>
          if ev_seq event \<noteq> word_of_nat index then
            Inl (Failed (sink_name @ '' spool sequence mismatch on line '' @ show_nat (index + 1)
              @ '': expected '' @ show_nat index @ '', got '' @ show_u64 (ev_seq event)))
          else if ev_session_id event \<noteq> session_id then
            Inl (Failed (sink_name @ '' spool belongs to session '' @ ev_session_id event
              @ '', not '' @ session_id))
          else if ev_v event \<noteq> schema_version then
            Inl (Failed (sink_name @ '' spool schema '' @ show_u64 (ev_v event)
              @ '' is incompatible with configured schema '' @ show_u64 schema_version))
          else Inr event)"

fun parse_spool_lines ::
  "(bytes \<Rightarrow> string + event) \<Rightarrow> string \<Rightarrow> u8 \<Rightarrow> string \<Rightarrow> nat \<Rightarrow> bytes list
     \<Rightarrow> sink_error + event list" where
  "parse_spool_lines fs sid sv name i [] = Inr []"
| "parse_spool_lines fs sid sv name i (l # ls) =
     (case parse_spool_line fs sid sv name i l of
        Inl e \<Rightarrow> Inl e
      | Inr ev \<Rightarrow>
          (case parse_spool_lines fs sid sv name (Suc i) ls of
             Inl e \<Rightarrow> Inl e
           | Inr evs \<Rightarrow> Inr (ev # evs)))"

definition parse_event_spool ::
  "(bytes \<Rightarrow> string + event) \<Rightarrow> bytes \<Rightarrow> string \<Rightarrow> string \<Rightarrow> u8 \<Rightarrow> string
     \<Rightarrow> sink_error + event list" where
  "parse_event_spool from_slice bs path session_id schema_version sink_name =
     (if bs \<noteq> [] \<and> \<not> ends_with bs [newline] then
        Inl (Failed (sink_name @ '' spool has an incomplete final line: '' @ path))
      else parse_spool_lines from_slice session_id schema_version sink_name 0 (spool_lines bs))"

text \<open>
  A codec is good for an event when the text the encoder makes is one non-empty line without
  a line break and decodes to the event again: what \<open>serde_json\<close> documents of compact output.
\<close>

definition codec_ok ::
  "(event \<Rightarrow> string + bytes) \<Rightarrow> (bytes \<Rightarrow> string + event) \<Rightarrow> event \<Rightarrow> bool" where
  "codec_ok to_vec from_slice e \<longleftrightarrow>
     (case to_vec e of
        Inl _ \<Rightarrow> False
      | Inr b \<Rightarrow> b \<noteq> [] \<and> newline \<notin> set b \<and> from_slice b = Inr e)"

text \<open>The bytes of a list of events: one line each.\<close>

definition event_line :: "(event \<Rightarrow> string + bytes) \<Rightarrow> event \<Rightarrow> bytes" where
  "event_line to_vec e = (case to_vec e of Inl _ \<Rightarrow> [] | Inr b \<Rightarrow> b @ [newline])"

definition event_lines :: "(event \<Rightarrow> string + bytes) \<Rightarrow> event list \<Rightarrow> bytes" where
  "event_lines to_vec es = concat (map (event_line to_vec) es)"

lemma event_lines_simps [simp]:
  "event_lines tv [] = []"
  "event_lines tv (e # es) = event_line tv e @ event_lines tv es"
  "event_lines tv (es @ fs) = event_lines tv es @ event_lines tv fs"
  by (simp_all add: event_lines_def)

lemma split_on_nonempty [simp]: "split_on c s \<noteq> []"
  by (induction s) (auto split: list.splits)

lemma split_on_line: "c \<notin> set b \<Longrightarrow> split_on c (b @ c # s) = b # split_on c s"
  by (induction b) auto

lemma spool_lines_Nil [simp]: "spool_lines [] = []"
  by (simp add: spool_lines_def)

lemma spool_lines_line:
  "newline \<notin> set b \<Longrightarrow> b \<noteq> [] \<Longrightarrow> spool_lines (b @ newline # s) = b # spool_lines s"
  by (simp add: spool_lines_def split_on_line)

text \<open>A stream numbered from \<open>i\<close>, of one session and schema.\<close>

fun stream_from :: "string \<Rightarrow> u8 \<Rightarrow> nat \<Rightarrow> event list \<Rightarrow> bool" where
  "stream_from sid sv i [] \<longleftrightarrow> True"
| "stream_from sid sv i (e # es) \<longleftrightarrow>
     ev_seq e = word_of_nat i \<and> ev_session_id e = sid \<and> ev_v e = sv \<and> stream_from sid sv (Suc i) es"

abbreviation stream_ok :: "string \<Rightarrow> u8 \<Rightarrow> event list \<Rightarrow> bool" where
  "stream_ok sid sv es \<equiv> stream_from sid sv 0 es"

lemma stream_from_append [simp]:
  "stream_from sid sv i (es @ fs) \<longleftrightarrow>
     stream_from sid sv i es \<and> stream_from sid sv (i + length es) fs"
  by (induction es arbitrary: i) auto

lemma stream_from_nth:
  "stream_from sid sv i es \<Longrightarrow> k < length es \<Longrightarrow>
     ev_seq (es ! k) = word_of_nat (i + k) \<and> ev_session_id (es ! k) = sid \<and> ev_v (es ! k) = sv"
  by (induction es arbitrary: i k) (auto simp: nth_Cons split: nat.splits)

lemma parse_spool_lines_sound:
  "parse_spool_lines fs sid sv name i ls = Inr es \<Longrightarrow>
     stream_from sid sv i es \<and> length es = length ls"
  by (induction ls arbitrary: i es)
    (auto simp: parse_spool_line_def split: sum.splits if_splits)

lemma parse_spool_lines_complete:
  assumes "list_all (codec_ok tv fs) es" and "stream_from sid sv i es"
  shows "parse_spool_lines fs sid sv name i (spool_lines (event_lines tv es)) = Inr es"
  using assms
proof (induction es arbitrary: i)
  case Nil
  then show ?case by simp
next
  case (Cons e es)
  then obtain b where b: "tv e = Inr b" "b \<noteq> []" "newline \<notin> set b" "fs b = Inr e"
    by (auto simp: codec_ok_def split: sum.splits)
  have "spool_lines (event_lines tv (e # es)) = b # spool_lines (event_lines tv es)"
    using b spool_lines_line [of b] by (simp add: event_line_def)
  then show ?case using Cons b by (simp add: parse_spool_line_def)
qed

lemma event_lines_ends:
  "list_all (codec_ok tv fs) es \<Longrightarrow> es \<noteq> [] \<Longrightarrow> ends_with (event_lines tv es) [newline]"
  by (cases es rule: rev_cases)
    (auto simp: ends_with_single event_line_def codec_ok_def split: sum.splits)

lemma parse_event_spool_lines:
  assumes "list_all (codec_ok tv fs) es" and "stream_ok sid sv es"
  shows "parse_event_spool fs (event_lines tv es) path sid sv name = Inr es"
  using parse_spool_lines_complete [OF assms] event_lines_ends [OF assms(1)]
  by (cases "es = []") (auto simp: parse_event_spool_def)

lemma parse_event_spool_sound:
  "parse_event_spool fs bs path sid sv name = Inr es \<Longrightarrow> stream_ok sid sv es"
  by (auto simp: parse_event_spool_def dest: parse_spool_lines_sound split: if_splits)

section \<open>Redaction\<close>

text \<open>\<open>str::replace\<close> with a non-empty pattern: leftmost, non-overlapping.\<close>

function replace_str :: "string \<Rightarrow> string \<Rightarrow> string \<Rightarrow> string" where
  "replace_str p r [] = []"
| "replace_str p r (c # s) =
     (if p \<noteq> [] \<and> starts_with (c # s) p then r @ replace_str p r (drop (length p) (c # s))
      else c # replace_str p r s)"
  by pat_completeness auto
termination
  by (relation "measure (\<lambda>(p, r, s). length s)") (auto simp: neq_Nil_conv)

fun redact_secrets :: "string \<Rightarrow> string list \<Rightarrow> string" where
  "redact_secrets message [] = message"
| "redact_secrets message (secret # secrets) =
     redact_secrets (if secret \<noteq> [] then replace_str secret ''***'' message else message) secrets"

definition temporary_path :: "string \<Rightarrow> string" where
  "temporary_path path = path @ ''.rrjj-sync-tmp''"

section \<open>Private files\<close>

text \<open>
  The modes a recorder gives to what it creates (Unix); \<open>set_mode\<close> is \<open>tokio::fs::set_permissions\<close>
  on the file system \<open>'w\<close>. On other systems both do nothing.
\<close>

definition set_private_file_permissions ::
  "bool \<Rightarrow> (string \<Rightarrow> nat \<Rightarrow> ('w, io_error, unit) op) \<Rightarrow> string \<Rightarrow> ('w, io_error, unit) op" where
  "set_private_file_permissions unix set_mode path =
     (if unix then set_mode path (6 * 64) else Pair (Inr ()))"

definition set_private_directory_permissions ::
  "bool \<Rightarrow> (string \<Rightarrow> nat \<Rightarrow> ('w, io_error, unit) op) \<Rightarrow> string \<Rightarrow> ('w, io_error, unit) op" where
  "set_private_directory_permissions unix set_mode path =
     (if unix then set_mode path (7 * 64) else Pair (Inr ()))"

text \<open>Neither mode has a bit for the group or for others.\<close>

lemma private_modes:
  assumes "\<And>p m w. set_mode p m w = (Inr (), w(p \<mapsto> m))"
  shows "\<exists>w'. set_private_file_permissions True set_mode path w = (Inr (), w') \<and> the (w' path) mod 64 = 0"
    and "\<exists>w'. set_private_directory_permissions True set_mode path w = (Inr (), w') \<and> the (w' path) mod 64 = 0"
  by (simp_all add: set_private_file_permissions_def set_private_directory_permissions_def assms)

abbreviation star_free :: "string \<Rightarrow> bool" where
  "star_free s \<equiv> CHR ''*'' \<notin> set s"

lemma replace_prefix:
  "star_free q \<Longrightarrow> prefix q (replace_str p ''***'' s) \<Longrightarrow> prefix q s"
proof (induction p "''***''" s arbitrary: q rule: replace_str.induct)
  case (1 p)
  then show ?case by simp
next
  case (2 p c s)
  show ?case
  proof (cases "p \<noteq> [] \<and> starts_with (c # s) p")
    case True
    then show ?thesis using "2.prems" by (cases q) auto
  next
    case False
    show ?thesis
    proof (cases q)
      case (Cons d q')
      then show ?thesis using False "2.prems" "2.hyps"(2) [OF False, of q'] by auto
    qed simp
  qed
qed

lemma contains_replace:
  "star_free q \<Longrightarrow> q \<noteq> [] \<Longrightarrow> contains (replace_str p ''***'' s) q \<Longrightarrow> contains s q"
proof (induction p "''***''" s rule: replace_str.induct)
  case (1 p)
  then show ?case by simp
next
  case (2 p c s)
  show ?case
  proof (cases "p \<noteq> [] \<and> starts_with (c # s) p")
    case True
    then have "contains (replace_str p ''***'' (drop (length p) (c # s))) q"
      using "2.prems" by (cases q) (auto simp: starts_with_prefix)
    then have "contains (drop (length p) (c # s)) q"
      using "2.hyps"(1) [OF True] "2.prems" by simp
    then show ?thesis
      unfolding contains_iff by (metis append.assoc append_take_drop_id)
  next
    case False
    have "starts_with (c # s) q \<or> contains s q"
    proof (cases "prefix q (c # replace_str p ''***'' s)")
      case True
      then have "prefix q (replace_str p ''***'' (c # s))" using False by auto
      then have "prefix q (c # s)" by (rule replace_prefix [OF "2.prems"(1)])
      then show ?thesis by (simp add: starts_with_prefix)
    next
      case nofix: False
      then show ?thesis
        using "2.prems" "2.hyps"(2) [OF False] False by (auto simp: starts_with_prefix)
    qed
    then show ?thesis by simp
  qed
qed

lemma replace_removes:
  "star_free p \<Longrightarrow> p \<noteq> [] \<Longrightarrow> \<not> contains (replace_str p ''***'' s) p"
proof (induction p "''***''" s rule: replace_str.induct)
  case (1 p)
  then show ?case by simp
next
  case (2 p c s)
  show ?case
  proof (cases "starts_with (c # s) p")
    case True
    then have "replace_str p ''***'' (c # s) = ''***'' @ replace_str p ''***'' (drop (length p) (c # s))"
      using "2.prems" by simp
    moreover have "\<not> contains (replace_str p ''***'' (drop (length p) (c # s))) p"
      using "2.hyps"(1) True "2.prems" by blast
    ultimately show ?thesis
      using "2.prems" by (cases p) (auto simp: starts_with_prefix)
  next
    case False
    then have eq: "replace_str p ''***'' (c # s) = c # replace_str p ''***'' s" by simp
    have "\<not> contains (replace_str p ''***'' s) p"
      using "2.hyps"(2) False "2.prems" by blast
    moreover have "\<not> prefix p (c # replace_str p ''***'' s)"
      using False replace_prefix [OF "2.prems"(1), of p "c # s"] unfolding eq starts_with_prefix by blast
    ultimately show ?thesis unfolding eq by (simp add: starts_with_prefix)
  qed
qed

lemma redact_keeps_absent:
  "star_free q \<Longrightarrow> q \<noteq> [] \<Longrightarrow> \<not> contains m q \<Longrightarrow> \<not> contains (redact_secrets m ss) q"
proof (induction m ss rule: redact_secrets.induct)
  case (2 m s ss)
  then have "\<not> contains (if s \<noteq> [] then replace_str s ''***'' m else m) q"
    using contains_replace [of q s m] by auto
  then show ?case using 2 by simp
qed simp

lemma redact_removes:
  "q \<in> set ss \<Longrightarrow> star_free q \<Longrightarrow> q \<noteq> [] \<Longrightarrow> \<not> contains (redact_secrets m ss) q"
proof (induction m ss rule: redact_secrets.induct)
  case (2 m s ss)
  show ?case
  proof (cases "q = s")
    case True
    then have "\<not> contains (replace_str s ''***'' m) q"
      using 2 replace_removes by simp
    then show ?thesis using 2 True redact_keeps_absent by simp
  next
    case False
    then show ?thesis using 2 by simp
  qed
qed simp

section \<open>Properties\<close>

text \<open>
  Object ids are normalised to one canonical form: a success is a lower case hexadecimal
  string of 40 or 64 digits, on which (with or without the \<open>c:\<close> prefix) normalising again
  changes nothing, so comparing normalised ids compares commits.
\<close>

theorem normalize_commit_oid_canonical:
  assumes "normalize_commit_oid commit = Inr h"
  shows "canonical_oid h \<and> normalize_commit_oid h = Inr h \<and> normalize_commit_oid (''c:'' @ h) = Inr h"
  using normalize_canonical [OF assms] normalize_of_canonical normalize_prefixed by blast

theorem normalize_commit_oid_canonical_witness:
  "normalize_commit_oid (''c:'' @ replicate 40 (CHR ''A'')) = Inr (replicate 40 (CHR ''a''))
   \<and> canonical_oid (replicate 40 (CHR ''a''))"
proof -
  have n: "normalize_commit_oid (''c:'' @ replicate 40 (CHR ''A'')) = Inr (replicate 40 (CHR ''a''))"
    by (simp add: normalize_commit_oid_def oid_hex_def strip_prefix_def starts_with_def Let_def
        is_ascii_hexdigit_def to_ascii_lowercase_def map_replicate list_all_iff char_of_def bit_0)
  from normalize_commit_oid_canonical [OF n] n show ?thesis by blast
qed

text \<open>
  C13: Redacted messages carry no secret: after redaction no non-empty secret of the list occurs
  anywhere in the message, not even across two replacements (secrets without an asterisk, so
  that the replacement itself cannot form one).
\<close>

theorem redaction_complete:
  assumes "secret \<in> set secrets" and "secret \<noteq> []" and "star_free secret"
  shows "\<not> contains (redact_secrets message secrets) secret"
  using assms redact_removes by blast

theorem redaction_complete_witness:
  "\<not> contains (redact_secrets ''Bearer tok failed for tok'' [''tok'', ''Bearer'']) ''tok''"
  by (rule redaction_complete) simp_all

text \<open>
  The spool parser accepts exactly well-formed spools: parsing the lines written for a
  contiguous stream of one session and schema gives the stream back, and whatever it accepts is
  such a stream.
\<close>

theorem parse_event_spool_roundtrip:
  assumes "list_all (codec_ok to_vec from_slice) es" and "stream_ok sid sv es"
  shows "parse_event_spool from_slice (event_lines to_vec es) path sid sv name = Inr es
    \<and> (\<forall>bs fs. parse_event_spool from_slice bs path sid sv name = Inr fs \<longrightarrow> stream_ok sid sv fs)"
  using parse_event_spool_lines [OF assms] parse_event_spool_sound by blast

theorem parse_event_spool_roundtrip_witness:
  "\<exists>e to_vec from_slice. ev_seq e = 0
     \<and> parse_event_spool from_slice (event_lines to_vec [e]) ''p'' ''s'' 0 ''journal'' = Inr [e]"
proof -
  let ?e = "event_at ''s'' 0 ''t'' (Mark \<lparr>mk_label = ''l'', mk_meta = [], mk_ref_op = ''o''\<rparr>)"
  have c: "list_all (codec_ok (\<lambda>e. Inr ''x'') (\<lambda>b. Inr ?e)) [?e]"
    by (simp add: codec_ok_def)
  have "stream_ok ''s'' 0 [?e]" by (simp add: SCHEMA_VERSION_def)
  from parse_event_spool_roundtrip [OF c this, of "''p''" "''journal''"] show ?thesis
    by (intro exI [of _ ?e]) auto
qed

end
