(* ===== verification/Coordinator.thy ===== *)
theory Coordinator
  imports Audit_Accumulator Recorder Sink_Util
begin

text \<open>
  The coordinator of \<open>crates/rrjj-core/src/lib.rs\<close>: the single writer that owns snapshotting,
  event projection and sequence numbers. Its state is the struct \<open>Coordinator\<close>; the methods
  are functions of that state and of a context with the sink's methods, \<open>jj_lib\<close> and the
  wall clock.

  Concurrency. The watcher thread only touches the audit accumulator, and the coordinator only
  reads it when it drains it. Every interleaving is therefore determined by which inputs reach
  the accumulator between two drains: \<open>co_arrivals\<close> holds one list of inputs per drain, and
  \<open>drain_audit\<close> applies the next list before it drains. An exhausted schedule means that no
  further notifications arrive.

  The loop \<open>while self.pending_snapshot { self.snapshot()?; self.drain_audit(); }\<close> of \<open>mark\<close>,
  \<open>flush\<close>, \<open>finish\<close> and \<open>resume\<close> is \<open>settle\<close>, a partial function whose value \<open>None\<close> means
  that it does not return.
\<close>

section \<open>State\<close>

record config =
  cf_session_id :: string
  cf_watched_root :: string
  cf_shadow_root :: string
  cf_ignore :: "string list"
  cf_excluded_paths :: "string list"
  cf_max_changes_per_event :: nat
  cf_quiescence :: nat
  cf_max_delay :: nat

record status =
  st_session_id :: string
  st_seq :: u64
  st_snapshots :: u64
  st_last_op :: string
  st_pending_snapshot :: bool
  st_paused :: bool

text \<open>\<open>cx_now k\<close> is the text of the \<open>k\<close>-th reading of the wall clock.\<close>

record ('s, 't, 'j) ctx =
  cx_sink :: "'s sink_ops"
  cx_jj :: "('t, 'j) jj_ops"
  cx_now :: "nat \<Rightarrow> string"
  cx_version :: string

record ('s, 't, 'j) coordinator =
  co_config :: config
  co_sink :: 's
  co_recorder :: "('t, 'j) recorder"
  co_seq :: u64
  co_snapshots :: u64
  co_touched_paths :: touch_map
  co_raw_events :: u64
  co_audit_started_at :: "string option"
  co_pending_snapshot :: bool
  co_force_full_scan :: bool
  co_paused :: bool
  co_pending_snapshot_event :: "event option"
  co_audit :: audit_accumulator
  co_pending_overflows :: "overflow_notice list"
  co_path_limit_reported :: bool
  co_clock :: nat
  co_arrivals :: "audit_input list list"

type_synonym ('s, 't, 'j, 'a) cop = "(('s, 't, 'j) coordinator, core_error, 'a) op"

definition JJ_LIB_VERSION :: string where "JJ_LIB_VERSION = ''0.43.0''"
definition JJ_STORE_VERSION :: string where "JJ_STORE_VERSION = ''jj-lib-0.43.0/git''"

section \<open>Emitting events\<close>

definition emit_exact :: "('s, 't, 'j) ctx \<Rightarrow> event \<Rightarrow> ('s, 't, 'j, unit) cop" where
  "emit_exact cx event s =
     (if ev_seq event \<noteq> co_seq s then (Inl Sequence_changed, s)
      else
        (case so_emit (cx_sink cx) event (co_sink s) of
           (Inl e, sink) \<Rightarrow> (Inl (Sink_failed e), s\<lparr>co_sink := sink\<rparr>)
         | (Inr _, sink) \<Rightarrow> (Inr (), s\<lparr>co_sink := sink, co_seq := co_seq s + 1\<rparr>)))"

text \<open>\<open>now()\<close>: one reading of the wall clock.\<close>

definition tick :: "('s, 't, 'j) coordinator \<Rightarrow> ('s, 't, 'j) coordinator" where
  "tick s = s\<lparr>co_clock := Suc (co_clock s)\<rparr>"

definition new_event ::
  "('s, 't, 'j) ctx \<Rightarrow> event_body \<Rightarrow> ('s, 't, 'j) coordinator \<Rightarrow> event" where
  "new_event cx body s =
     event_at (cf_session_id (co_config s)) (co_seq s) (cx_now cx (co_clock s)) body"

definition emit :: "('s, 't, 'j) ctx \<Rightarrow> event_body \<Rightarrow> ('s, 't, 'j, unit) cop" where
  "emit cx body s = emit_exact cx (new_event cx body s) (tick s)"

section \<open>Draining the audit accumulator\<close>

text \<open>The body of the loop over \<open>batch.paths\<close>.\<close>

definition merge_path ::
  "u64 \<Rightarrow> string \<times> touch_set \<Rightarrow> ('s, 't, 'j) coordinator \<Rightarrow> ('s, 't, 'j) coordinator" where
  "merge_path batch_raw_events po s =
     (let path = fst po; operations = snd po in
      case map_of (co_touched_paths s) path of
        Some existing \<Rightarrow>
          s\<lparr>co_touched_paths := bt_insert path (bs_extend existing operations) (co_touched_paths s)\<rparr>
      | None \<Rightarrow>
          if length (co_touched_paths s) < MAX_AUDIT_PATHS then
            s\<lparr>co_touched_paths := bt_insert path operations (co_touched_paths s)\<rparr>
          else if \<not> co_path_limit_reported s then
            s\<lparr>co_path_limit_reported := True,
              co_pending_overflows := co_pending_overflows s
                @ [\<lparr>on_source = path_limit_source,
                    on_raw_events = saturating_add (co_raw_events s) batch_raw_events\<rparr>]\<rparr>
          else s)"

text \<open>The notifications that reach the accumulator before the next drain.\<close>

definition arrive :: "('s, 't, 'j) coordinator \<Rightarrow> ('s, 't, 'j) coordinator" where
  "arrive s =
     (case co_arrivals s of
        [] \<Rightarrow> s
      | ins # rest \<Rightarrow> s\<lparr>co_audit := apply_inputs ins (co_audit s), co_arrivals := rest\<rparr>)"

definition merge_batch ::
  "audit_batch \<Rightarrow> ('s, 't, 'j) coordinator \<Rightarrow> ('s, 't, 'j) coordinator" where
  "merge_batch batch s0 =
     (let s = s0\<lparr>co_audit_started_at :=
                  (case co_audit_started_at s0 of None \<Rightarrow> ab_started_at batch | Some t \<Rightarrow> Some t)\<rparr>;
          s = fold (merge_path (ab_raw_events batch)) (ab_paths batch) s;
          s = s\<lparr>co_raw_events := saturating_add (co_raw_events s) (ab_raw_events batch)\<rparr>;
          s = (if ab_overflows batch \<noteq> [] then
                 s\<lparr>co_pending_overflows := co_pending_overflows s @ ab_overflows batch,
                   co_force_full_scan := True\<rparr>
               else s)
      in if co_touched_paths s \<noteq> [] \<or> co_pending_overflows s \<noteq> [] then
           s\<lparr>co_pending_snapshot := True\<rparr>
         else s)"

definition drain_audit :: "('s, 't, 'j) coordinator \<Rightarrow> ('s, 't, 'j) coordinator" where
  "drain_audit s0 =
     (let s = arrive s0; (batch, audit) = drain (co_audit s)
      in merge_batch batch (s\<lparr>co_audit := audit\<rparr>))"

section \<open>Snapshots\<close>

text \<open>
  \<open>emit_overflows\<close> emits the first pending notice until none is left, removing each once it is
  emitted; no other code runs in between, so it goes over the list it starts with.
\<close>

fun emit_overflow_loop ::
  "('s, 't, 'j) ctx \<Rightarrow> overflow_notice list \<Rightarrow> ('s, 't, 'j, unit) cop" where
  "emit_overflow_loop cx [] s = (Inr (), s)"
| "emit_overflow_loop cx (notice # rest) s =
     (case emit cx (Overflow \<lparr>of_source = on_source notice,
                              of_raw_events = on_raw_events notice,
                              of_recovery = Full_scan_snapshot\<rparr>) s of
        (Inl e, s) \<Rightarrow> (Inl e, s)
      | (Inr _, s) \<Rightarrow>
          emit_overflow_loop cx rest (s\<lparr>co_pending_overflows := tl (co_pending_overflows s)\<rparr>))"

definition emit_overflows :: "('s, 't, 'j) ctx \<Rightarrow> ('s, 't, 'j, unit) cop" where
  "emit_overflows cx s = emit_overflow_loop cx (co_pending_overflows s) s"

definition touched_event ::
  "('s, 't, 'j) ctx \<Rightarrow> string \<Rightarrow> ('s, 't, 'j) coordinator \<Rightarrow> touched_paths" where
  "touched_event cx started s =
     \<lparr>tps_paths = map (\<lambda>(path, operations). \<lparr>tp_path = path, tp_operations = operations\<rparr>)
        (co_touched_paths s),
      tps_raw_events = co_raw_events s,
      tps_window_started_at = started,
      tps_window_ended_at = cx_now cx (co_clock s)\<rparr>"

definition clear_audit :: "('s, 't, 'j) coordinator \<Rightarrow> ('s, 't, 'j) coordinator" where
  "clear_audit s =
     s\<lparr>co_touched_paths := [], co_raw_events := 0, co_audit_started_at := None,
       co_path_limit_reported := False\<rparr>"

definition emit_audit :: "('s, 't, 'j) ctx \<Rightarrow> ('s, 't, 'j, unit) cop" where
  "emit_audit cx s =
     (case co_audit_started_at s of
        None \<Rightarrow> (Inr (), s)
      | Some started \<Rightarrow>
          (case emit cx (Touched_paths (touched_event cx started s)) (tick s) of
             (Inl e, s) \<Rightarrow> (Inl e, s)
           | (Inr _, s) \<Rightarrow> (Inr (), clear_audit s)))"

text \<open>\<open>self.recorder.capture(self.force_full_scan, self.config.max_changes_per_event)\<close>.\<close>

definition capture_now :: "('s, 't, 'j) ctx \<Rightarrow> ('s, 't, 'j, snapshot) cop" where
  "capture_now cx s =
     (case capture (cx_jj cx) (co_force_full_scan s) (cf_max_changes_per_event (co_config s))
             (co_recorder s) of
        (r, rec) \<Rightarrow> (r, s\<lparr>co_recorder := rec\<rparr>))"

text \<open>The branch of \<open>snapshot\<close> that retries a snapshot event whose emission failed.\<close>

definition retry_snapshot :: "('s, 't, 'j) ctx \<Rightarrow> event \<Rightarrow> snapshot \<Rightarrow> ('s, 't, 'j, snapshot) cop" where
  "retry_snapshot cx event snapshot s =
     (case emit_exact cx event s of
        (Inl e, s) \<Rightarrow> (Inl e, s)
      | (Inr _, s) \<Rightarrow>
          (Inr snapshot,
           s\<lparr>co_pending_snapshot_event := None,
             co_force_full_scan := (co_pending_overflows s \<noteq> []),
             co_pending_snapshot :=
               (co_audit_started_at s \<noteq> None \<or> co_pending_overflows s \<noteq> []),
             co_snapshots := co_snapshots s + 1\<rparr>))"

text \<open>The rest of \<open>snapshot\<close>, after a capture: the event is kept until it is accepted.\<close>

definition publish_snapshot :: "('s, 't, 'j) ctx \<Rightarrow> snapshot \<Rightarrow> ('s, 't, 'j, snapshot) cop" where
  "publish_snapshot cx snapshot s0 =
     (let event = new_event cx (Snapshot snapshot) s0;
          s = (tick s0)\<lparr>co_pending_snapshot_event := Some event\<rparr> in
      case emit_exact cx event s of
        (Inl e, s) \<Rightarrow> (Inl e, s)
      | (Inr _, s) \<Rightarrow>
          (Inr snapshot,
           s\<lparr>co_pending_snapshot_event := None, co_force_full_scan := False,
             co_pending_snapshot := False, co_snapshots := co_snapshots s + 1\<rparr>))"

definition fresh_snapshot :: "('s, 't, 'j) ctx \<Rightarrow> ('s, 't, 'j, snapshot) cop" where
  "fresh_snapshot cx s =
     bindE (emit_overflows cx) (\<lambda>_.
     bindE (emit_audit cx) (\<lambda>_.
     bindE (capture_now cx) (\<lambda>snapshot.
     publish_snapshot cx snapshot))) (drain_audit s)"

text \<open>
  A pending event that is not a snapshot is \<open>unreachable!\<close>; the model returns an error there,
  and the invariant \<open>coord_ok\<close> shows that no reachable state gets there.
\<close>

definition do_snapshot :: "('s, 't, 'j) ctx \<Rightarrow> ('s, 't, 'j, snapshot) cop" where
  "do_snapshot cx s =
     (case co_pending_snapshot_event s of
        Some event \<Rightarrow>
          (case ev_body event of
             Snapshot snapshot \<Rightarrow> retry_snapshot cx event snapshot s
           | _ \<Rightarrow> (Inl (Recorder_failed
                ''pending snapshot event must contain a snapshot''), s))
      | None \<Rightarrow> fresh_snapshot cx s)"

section \<open>Control operations\<close>

partial_function (option) settle ::
  "('s, 't, 'j) ctx \<Rightarrow> ('s, 't, 'j) coordinator
     \<Rightarrow> ((core_error + unit) \<times> ('s, 't, 'j) coordinator) option" where
  "settle cx s =
     (if co_pending_snapshot s then
        (case do_snapshot cx s of
           (Inl e, s') \<Rightarrow> Some (Inl e, s')
         | (Inr _, s') \<Rightarrow> settle cx (drain_audit s'))
      else Some (Inr (), s))"

declare settle.simps [code]

definition status_of :: "('s, 't, 'j) coordinator \<Rightarrow> status" where
  "status_of s =
     \<lparr>st_session_id = cf_session_id (co_config s), st_seq = co_seq s,
      st_snapshots = co_snapshots s, st_last_op = op_id (co_recorder s),
      st_pending_snapshot = (co_pending_snapshot s \<or> is_dirty (co_audit s)),
      st_paused = co_paused s\<rparr>"

text \<open>\<open>drain_audit\<close> and the loop, then a last operation that the loop's error skips.\<close>

definition after_settle ::
  "('s, 't, 'j) ctx \<Rightarrow> ('s, 't, 'j, 'a) cop \<Rightarrow> ('s, 't, 'j) coordinator
     \<Rightarrow> ((core_error + 'a) \<times> ('s, 't, 'j) coordinator) option" where
  "after_settle cx act s =
     (case settle cx s of
        None \<Rightarrow> None
      | Some (Inl e, s) \<Rightarrow> Some (Inl e, s)
      | Some (Inr _, s) \<Rightarrow> Some (act s))"

definition do_mark ::
  "('s, 't, 'j) ctx \<Rightarrow> string \<Rightarrow> (string \<times> json_value) list \<Rightarrow> ('s, 't, 'j) coordinator
     \<Rightarrow> ((core_error + unit) \<times> ('s, 't, 'j) coordinator) option" where
  "do_mark cx label meta s =
     after_settle cx (\<lambda>s. emit cx (Mark \<lparr>mk_label = label, mk_meta = meta,
        mk_ref_op = op_id (co_recorder s)\<rparr>) s) (drain_audit s)"

definition flush_durable :: "('s, 't, 'j) ctx \<Rightarrow> ('s, 't, 'j, unit) cop" where
  "flush_durable cx s0 =
     (let op = op_id (co_recorder s0);
          through_seq = co_seq s0;
          checkpoint = commit_id (co_recorder s0) in
      case emit cx (Flush \<lparr>fl_op = op, fl_through_seq = through_seq\<rparr>) s0 of
        (Inl e, s) \<Rightarrow> (Inl e, s)
      | (Inr _, s) \<Rightarrow>
          (case so_flush_session (cx_sink cx)
                  \<lparr>fr_shadow_root = cf_shadow_root (co_config s), fr_last_seq = co_seq s - 1,
                   fr_last_op = op, fr_checkpoint = checkpoint\<rparr> (co_sink s) of
             (Inl e, sink) \<Rightarrow> (Inl (Sink_failed e), s\<lparr>co_sink := sink\<rparr>)
           | (Inr _, sink) \<Rightarrow> (Inr (), s\<lparr>co_sink := sink\<rparr>)))"

definition do_flush ::
  "('s, 't, 'j) ctx \<Rightarrow> ('s, 't, 'j) coordinator
     \<Rightarrow> ((core_error + status) \<times> ('s, 't, 'j) coordinator) option" where
  "do_flush cx s =
     after_settle cx (bindE (flush_durable cx) (\<lambda>_ s. (Inr (status_of s), s))) (drain_audit s)"

text \<open>\<open>session_end\<close> with the number of the events before it, then the last flush.\<close>

definition end_session :: "('s, 't, 'j) ctx \<Rightarrow> string \<Rightarrow> ('s, 't, 'j, unit) cop" where
  "end_session cx reason s =
     bindE (emit cx (Session_end \<lparr>se_final_op = op_id (co_recorder s), se_reason = reason,
                                  se_snapshots = co_snapshots s, se_events = co_seq s\<rparr>))
       (\<lambda>_. flush_durable cx) s"

definition finish ::
  "('s, 't, 'j) ctx \<Rightarrow> string \<Rightarrow> ('s, 't, 'j) coordinator
     \<Rightarrow> ((core_error + unit) \<times> ('s, 't, 'j) coordinator) option" where
  "finish cx reason s = after_settle cx (end_session cx reason) (drain_audit s)"

definition do_resume ::
  "('s, 't, 'j) ctx \<Rightarrow> ('s, 't, 'j) coordinator
     \<Rightarrow> ((core_error + status) \<times> ('s, 't, 'j) coordinator) option" where
  "do_resume cx s =
     after_settle cx (\<lambda>s. (Inr (status_of s), s)) ((drain_audit s)\<lparr>co_paused := False\<rparr>)"

section \<open>The command loop\<close>

datatype command =
    Status
  | Snap
  | Mark_cmd string "(string \<times> json_value) list"
  | Flush_cmd
  | Pause
  | Resume
  | Shutdown string

datatype reply =
    R_status status
  | R_snapshot "core_error + snapshot"
  | R_unit "core_error + unit"
  | R_flush "core_error + status"

definition map_reply ::
  "('a \<Rightarrow> reply) \<Rightarrow> ('a \<times> 's) option \<Rightarrow> (reply \<times> 's) option" where
  "map_reply f r = map_option (\<lambda>(x, s). (f x, s)) r"

fun handle_command ::
  "('s, 't, 'j) ctx \<Rightarrow> command \<Rightarrow> ('s, 't, 'j) coordinator
     \<Rightarrow> (reply \<times> ('s, 't, 'j) coordinator) option" where
  "handle_command cx Status s = Some (R_status (status_of s), s)"
| "handle_command cx Snap s = map_reply R_snapshot (Some (do_snapshot cx s))"
| "handle_command cx (Mark_cmd label meta) s = map_reply R_unit (do_mark cx label meta s)"
| "handle_command cx Flush_cmd s = map_reply R_flush (do_flush cx s)"
| "handle_command cx Pause s =
     (let s = s\<lparr>co_paused := True\<rparr> in Some (R_status (status_of s), s))"
| "handle_command cx Resume s = map_reply R_flush (do_resume cx s)"
| "handle_command cx (Shutdown reason) s = map_reply R_unit (finish cx reason s)"

text \<open>
  What the coordinator thread sees: notifications folded into the shared accumulator and
  commands received from the channel. The loop ends after \<open>Shutdown\<close>; a closed channel (the end
  of the input list) finishes the session too.
\<close>

datatype input = Notify audit_input | Command command

fun run ::
  "('s, 't, 'j) ctx \<Rightarrow> input list \<Rightarrow> ('s, 't, 'j) coordinator
     \<Rightarrow> (reply list \<times> ('s, 't, 'j) coordinator) option" where
  "run cx [] s =
     (case finish cx ''control_channel_closed'' s of
        None \<Rightarrow> None
      | Some (_, s) \<Rightarrow> Some ([], s))"
| "run cx (Notify n # inputs) s = run cx inputs (s\<lparr>co_audit := apply_input n (co_audit s)\<rparr>)"
| "run cx (Command c # inputs) s =
     (case handle_command cx c s of
        None \<Rightarrow> None
      | Some (r, s) \<Rightarrow>
          (case c of
             Shutdown _ \<Rightarrow> Some ([r], s)
           | _ \<Rightarrow>
             (case run cx inputs s of None \<Rightarrow> None | Some (rs, s) \<Rightarrow> Some (r # rs, s))))"

text \<open>\<open>Coordinator::initialize\<close>: the baseline capture and the \<open>session_start\<close> event.\<close>

definition coordinator_new ::
  "config \<Rightarrow> 's \<Rightarrow> audit_accumulator \<Rightarrow> audit_input list list \<Rightarrow> ('t, 'j) recorder
     \<Rightarrow> ('s, 't, 'j) coordinator" where
  "coordinator_new config sink audit arrivals rec =
     \<lparr>co_config = config, co_sink = sink, co_recorder = rec, co_seq = 0, co_snapshots = 0,
      co_touched_paths = [], co_raw_events = 0, co_audit_started_at = None,
      co_pending_snapshot = False, co_force_full_scan = False, co_paused = False,
      co_pending_snapshot_event = None, co_audit = audit, co_pending_overflows = [],
      co_path_limit_reported = False, co_clock = 0, co_arrivals = arrivals\<rparr>"

definition start_body :: "('s, 't, 'j) ctx \<Rightarrow> config \<Rightarrow> snapshot \<Rightarrow> event_body" where
  "start_body cx config baseline =
     Session_start
       \<lparr>ss_roots = [cf_watched_root config],
        ss_baseline_op = sn_op baseline, ss_baseline_tree = sn_tree baseline,
        ss_ignore = cf_ignore config, ss_rrjj_version = cx_version cx,
        ss_jj_lib_version = JJ_LIB_VERSION, ss_jj_store_version = JJ_STORE_VERSION\<rparr>"

definition initialize ::
  "('s, 't, 'j) ctx \<Rightarrow> config \<Rightarrow> 's \<Rightarrow> audit_accumulator \<Rightarrow> audit_input list list \<Rightarrow> 'j
     \<Rightarrow> core_error + ('s, 't, 'j) coordinator" where
  "initialize cx config sink audit arrivals w =
     (case recorder_init (cx_jj cx) (cf_watched_root config) (cf_shadow_root config)
             (cf_ignore config) w of
        (Inl e, _) \<Rightarrow> Inl e
      | (Inr rec, _) \<Rightarrow>
          (case capture (cx_jj cx) True (cf_max_changes_per_event config) rec of
             (Inl e, _) \<Rightarrow> Inl e
           | (Inr baseline, rec) \<Rightarrow>
               (case emit cx (start_body cx config baseline)
                       (coordinator_new config sink audit arrivals rec) of
                  (Inl e, _) \<Rightarrow> Inl e
                | (Inr _, s) \<Rightarrow> Inr s)))"

end
