(* ===== verification/Coordinator_Inv.thy ===== *)
theory Coordinator_Inv
  imports Coordinator
begin

text \<open>
  Invariants of the coordinator's state (\<open>coord_ok\<close>), frame lemmas of its operations, and the
  termination of the \<open>settle\<close> loop.
\<close>

section \<open>Draining\<close>

definition batch_ok :: "audit_batch \<Rightarrow> bool" where
  "batch_ok b \<longleftrightarrow> touch_map_ok (ab_paths b) \<and> (ab_paths b \<noteq> [] \<longleftrightarrow> ab_started_at b \<noteq> None)"

lemma drain_batch_ok: "audit_ok (aa_state acc) \<Longrightarrow> batch_ok (fst (drain acc))"
  by (simp add: drain_def batch_ok_def audit_ok_def Let_def)

lemma drain_state [simp]: "aa_state (snd (drain acc)) = audit_state_default"
  by (simp add: drain_def Let_def)

lemma drain_fields [simp]:
  "ab_paths (fst (drain acc)) = as_paths (aa_state acc)"
  "ab_raw_events (fst (drain acc)) = as_raw_events (aa_state acc)"
  "ab_started_at (fst (drain acc)) = as_started_at (aa_state acc)"
  "ab_overflows (fst (drain acc)) =
     as_overflows (aa_state acc)
       @ (if as_path_limit_reported (aa_state acc)
          then [\<lparr>on_source = path_limit_source, on_raw_events = as_raw_events (aa_state acc)\<rparr>]
          else [])"
  by (simp_all add: drain_def Let_def)

lemma merge_path_cases:
  obtains (known) ops where "map_of (co_touched_paths s) (fst po) = Some ops"
      "merge_path raw po s = s\<lparr>co_touched_paths := bt_insert (fst po)
         (bs_extend ops (snd po)) (co_touched_paths s)\<rparr>"
  | (new) "map_of (co_touched_paths s) (fst po) = None"
      "length (co_touched_paths s) < MAX_AUDIT_PATHS"
      "merge_path raw po s = s\<lparr>co_touched_paths := bt_insert (fst po) (snd po) (co_touched_paths s)\<rparr>"
  | (full) "map_of (co_touched_paths s) (fst po) = None"
      "MAX_AUDIT_PATHS \<le> length (co_touched_paths s)" "\<not> co_path_limit_reported s"
      "merge_path raw po s = s\<lparr>co_path_limit_reported := True,
         co_pending_overflows := co_pending_overflows s @ [\<lparr>on_source = path_limit_source,
           on_raw_events = saturating_add (co_raw_events s) raw\<rparr>]\<rparr>"
  | (skip) "map_of (co_touched_paths s) (fst po) = None"
      "MAX_AUDIT_PATHS \<le> length (co_touched_paths s)" "co_path_limit_reported s"
      "merge_path raw po s = s"
proof (cases "map_of (co_touched_paths s) (fst po)")
  case (Some ops)
  then show thesis by (intro known) (simp_all add: merge_path_def split: prod.splits)
next
  case None
  show thesis
  proof (cases "length (co_touched_paths s) < MAX_AUDIT_PATHS")
    case True
    then show thesis using None by (intro new) (simp_all add: merge_path_def split: prod.splits)
  next
    case False
    then have le: "MAX_AUDIT_PATHS \<le> length (co_touched_paths s)" by simp
    show thesis
    proof (cases "co_path_limit_reported s")
      case True
      then show thesis using None le by (intro skip) (simp_all add: merge_path_def Let_def split: prod.splits)
    next
      case False
      then show thesis using None le by (intro full) (simp_all add: merge_path_def Let_def split: prod.splits)
    qed
  qed
qed

text \<open>What merging and draining never touch.\<close>

lemma merge_path_frame [simp]:
  "co_config (merge_path raw po s) = co_config s"
  "co_sink (merge_path raw po s) = co_sink s"
  "co_recorder (merge_path raw po s) = co_recorder s"
  "co_seq (merge_path raw po s) = co_seq s"
  "co_snapshots (merge_path raw po s) = co_snapshots s"
  "co_raw_events (merge_path raw po s) = co_raw_events s"
  "co_audit_started_at (merge_path raw po s) = co_audit_started_at s"
  "co_pending_snapshot (merge_path raw po s) = co_pending_snapshot s"
  "co_force_full_scan (merge_path raw po s) = co_force_full_scan s"
  "co_paused (merge_path raw po s) = co_paused s"
  "co_pending_snapshot_event (merge_path raw po s) = co_pending_snapshot_event s"
  "co_audit (merge_path raw po s) = co_audit s"
  "co_clock (merge_path raw po s) = co_clock s"
  "co_arrivals (merge_path raw po s) = co_arrivals s"
  by (cases rule: merge_path_cases [of s po raw]; simp)+

lemma merge_paths_frame [simp]:
  "co_config (fold (merge_path raw) pos s) = co_config s"
  "co_sink (fold (merge_path raw) pos s) = co_sink s"
  "co_recorder (fold (merge_path raw) pos s) = co_recorder s"
  "co_seq (fold (merge_path raw) pos s) = co_seq s"
  "co_snapshots (fold (merge_path raw) pos s) = co_snapshots s"
  "co_raw_events (fold (merge_path raw) pos s) = co_raw_events s"
  "co_audit_started_at (fold (merge_path raw) pos s) = co_audit_started_at s"
  "co_pending_snapshot (fold (merge_path raw) pos s) = co_pending_snapshot s"
  "co_force_full_scan (fold (merge_path raw) pos s) = co_force_full_scan s"
  "co_paused (fold (merge_path raw) pos s) = co_paused s"
  "co_pending_snapshot_event (fold (merge_path raw) pos s) = co_pending_snapshot_event s"
  "co_audit (fold (merge_path raw) pos s) = co_audit s"
  "co_clock (fold (merge_path raw) pos s) = co_clock s"
  "co_arrivals (fold (merge_path raw) pos s) = co_arrivals s"
  by (induction pos arbitrary: s) simp_all

lemma merge_batch_frame [simp]:
  "co_config (merge_batch b s) = co_config s"
  "co_sink (merge_batch b s) = co_sink s"
  "co_recorder (merge_batch b s) = co_recorder s"
  "co_seq (merge_batch b s) = co_seq s"
  "co_snapshots (merge_batch b s) = co_snapshots s"
  "co_paused (merge_batch b s) = co_paused s"
  "co_pending_snapshot_event (merge_batch b s) = co_pending_snapshot_event s"
  "co_audit (merge_batch b s) = co_audit s"
  "co_clock (merge_batch b s) = co_clock s"
  "co_arrivals (merge_batch b s) = co_arrivals s"
  by (simp_all add: merge_batch_def Let_def)

lemma arrive_frame [simp]:
  "co_config (arrive s) = co_config s"
  "co_sink (arrive s) = co_sink s"
  "co_recorder (arrive s) = co_recorder s"
  "co_seq (arrive s) = co_seq s"
  "co_snapshots (arrive s) = co_snapshots s"
  "co_touched_paths (arrive s) = co_touched_paths s"
  "co_raw_events (arrive s) = co_raw_events s"
  "co_audit_started_at (arrive s) = co_audit_started_at s"
  "co_pending_snapshot (arrive s) = co_pending_snapshot s"
  "co_force_full_scan (arrive s) = co_force_full_scan s"
  "co_paused (arrive s) = co_paused s"
  "co_pending_snapshot_event (arrive s) = co_pending_snapshot_event s"
  "co_pending_overflows (arrive s) = co_pending_overflows s"
  "co_path_limit_reported (arrive s) = co_path_limit_reported s"
  "co_clock (arrive s) = co_clock s"
  "co_arrivals (arrive s) = tl (co_arrivals s)"
  by (simp_all add: arrive_def split: list.splits)

lemma drain_audit_alt:
  "drain_audit s = merge_batch (fst (drain (co_audit (arrive s))))
     ((arrive s)\<lparr>co_audit := snd (drain (co_audit (arrive s)))\<rparr>)"
  by (simp add: drain_audit_def Let_def split: prod.splits)

lemma drain_audit_frame [simp]:
  "co_config (drain_audit s) = co_config s"
  "co_sink (drain_audit s) = co_sink s"
  "co_recorder (drain_audit s) = co_recorder s"
  "co_seq (drain_audit s) = co_seq s"
  "co_snapshots (drain_audit s) = co_snapshots s"
  "co_paused (drain_audit s) = co_paused s"
  "co_pending_snapshot_event (drain_audit s) = co_pending_snapshot_event s"
  "aa_state (co_audit (drain_audit s)) = audit_state_default"
  "co_clock (drain_audit s) = co_clock s"
  "co_arrivals (drain_audit s) = tl (co_arrivals s)"
  by (simp_all add: drain_audit_alt)


section \<open>The state invariant\<close>

text \<open>
  \<open>coord_ok\<close>: the audit containers are well formed and within their cap, a window is open
  exactly while paths are held, the event kept for a retry is a snapshot, and held paths or
  overflow notices imply that a snapshot is pending.
\<close>

definition coord_ok :: "('s, 't, 'j) coordinator \<Rightarrow> bool" where
  "coord_ok s \<longleftrightarrow>
     audit_ok (aa_state (co_audit s)) \<and> touch_map_ok (co_touched_paths s)
     \<and> (co_touched_paths s \<noteq> [] \<longleftrightarrow> co_audit_started_at s \<noteq> None)
     \<and> (\<forall>e. co_pending_snapshot_event s = Some e \<longrightarrow> (\<exists>sn. ev_body e = Snapshot sn))
     \<and> (co_touched_paths s \<noteq> [] \<or> co_pending_overflows s \<noteq> [] \<longrightarrow> co_pending_snapshot s)"

lemma coord_okE:
  assumes "coord_ok s"
  obtains "audit_ok (aa_state (co_audit s))" "touch_map_ok (co_touched_paths s)"
    "co_touched_paths s \<noteq> [] \<longleftrightarrow> co_audit_started_at s \<noteq> None"
    "\<And>e. co_pending_snapshot_event s = Some e \<Longrightarrow> \<exists>sn. ev_body e = Snapshot sn"
    "co_touched_paths s \<noteq> [] \<or> co_pending_overflows s \<noteq> [] \<Longrightarrow> co_pending_snapshot s"
  using assms unfolding coord_ok_def by blast

lemma coord_ok_update [simp]:
  "coord_ok (s\<lparr>co_sink := k\<rparr>) = coord_ok s"
  "coord_ok (s\<lparr>co_seq := n\<rparr>) = coord_ok s"
  "coord_ok (s\<lparr>co_clock := c\<rparr>) = coord_ok s"
  "coord_ok (s\<lparr>co_recorder := r\<rparr>) = coord_ok s"
  "coord_ok (s\<lparr>co_paused := p\<rparr>) = coord_ok s"
  "coord_ok (tick s) = coord_ok s"
  by (simp_all add: coord_ok_def tick_def)

lemma merge_path_ok:
  assumes "touch_map_ok (co_touched_paths s)" and "bs_ok (snd po)"
  shows "touch_map_ok (co_touched_paths (merge_path raw po s))"
proof (cases rule: merge_path_cases [of s po raw])
  case (known ops)
  have "bs_ok (bs_extend ops (snd po))"
    using touch_map_ok_lookup [OF assms(1) known(1)] by simp
  then show ?thesis using assms known by (simp add: touch_map_ok_insert)
qed (use assms in \<open>auto simp: touch_map_ok_insert\<close>)

lemma merge_paths_ok:
  "touch_map_ok (co_touched_paths s) \<Longrightarrow> \<forall>po \<in> set pos. bs_ok (snd po) \<Longrightarrow>
     touch_map_ok (co_touched_paths (fold (merge_path raw) pos s))"
  by (induction pos arbitrary: s) (auto simp: merge_path_ok)

lemma merge_path_keys:
  "keys (co_touched_paths s) \<subseteq> keys (co_touched_paths (merge_path raw po s))"
  "keys (co_touched_paths (merge_path raw po s)) \<subseteq> insert (fst po) (keys (co_touched_paths s))"
  "fst po \<in> keys (co_touched_paths (merge_path raw po s)) \<or> co_path_limit_reported (merge_path raw po s)"
  "co_path_limit_reported s \<Longrightarrow> co_path_limit_reported (merge_path raw po s)"
  "\<exists>ns. co_pending_overflows (merge_path raw po s) = co_pending_overflows s @ ns"
  "co_touched_paths (merge_path raw po s) \<noteq> []"
  by (cases rule: merge_path_cases [of s po raw]; auto simp: MAX_AUDIT_PATHS_def)+

lemma merge_paths_keys:
  "keys (co_touched_paths s) \<subseteq> keys (co_touched_paths (fold (merge_path raw) pos s))"
  "keys (co_touched_paths (fold (merge_path raw) pos s)) \<subseteq> fst ` set pos \<union> keys (co_touched_paths s)"
proof (induction pos arbitrary: s)
  case (Cons po pos)
  { case 1 show ?case
      using Cons(1) [of "merge_path raw po s"] merge_path_keys(1) [of s raw po] by auto
  next
    case 2 show ?case
      using Cons(2) [of "merge_path raw po s"] merge_path_keys(2) [of raw po s] by auto }
qed simp_all

lemma merge_paths_limit:
  "co_path_limit_reported s \<Longrightarrow> co_path_limit_reported (fold (merge_path raw) pos s)"
  by (induction pos arbitrary: s) (auto simp: merge_path_keys(4))

lemma merge_paths_recorded:
  "\<not> co_path_limit_reported (fold (merge_path raw) pos s) \<Longrightarrow>
     fst ` set pos \<subseteq> keys (co_touched_paths (fold (merge_path raw) pos s))"
proof (induction pos arbitrary: s)
  case (Cons po pos)
  have "fst po \<in> keys (co_touched_paths (merge_path raw po s))"
    using merge_path_keys(3) [of po raw s] merge_paths_limit [of "merge_path raw po s" raw pos]
      Cons.prems by auto
  then show ?case using Cons merge_paths_keys(1) [of "merge_path raw po s" raw pos] by auto
qed simp

lemma merge_paths_nonempty:
  "co_touched_paths s \<noteq> [] \<or> pos \<noteq> [] \<longleftrightarrow> co_touched_paths (fold (merge_path raw) pos s) \<noteq> []"
proof (induction pos arbitrary: s)
  case (Cons po pos)
  then show ?case using merge_path_keys(6) [of raw po s] by auto
qed simp

lemma merge_paths_overflows:
  "\<exists>ns. co_pending_overflows (fold (merge_path raw) pos s) = co_pending_overflows s @ ns"
proof (induction pos arbitrary: s)
  case (Cons po pos)
  show ?case
    using Cons.IH [of "merge_path raw po s"] merge_path_keys(5) [of raw po s] by auto
qed simp

text \<open>\<open>merge_batch\<close> by fields, over the state after its loop.\<close>

definition merged_paths ::
  "audit_batch \<Rightarrow> ('s, 't, 'j) coordinator \<Rightarrow> ('s, 't, 'j) coordinator" where
  "merged_paths b s =
     fold (merge_path (ab_raw_events b)) (ab_paths b)
       (s\<lparr>co_audit_started_at :=
            (case co_audit_started_at s of None \<Rightarrow> ab_started_at b | Some t \<Rightarrow> Some t)\<rparr>)"

lemma merge_batch_fields:
  "co_touched_paths (merge_batch b s) = co_touched_paths (merged_paths b s)"
  "co_pending_overflows (merge_batch b s) = co_pending_overflows (merged_paths b s) @ ab_overflows b"
  "co_path_limit_reported (merge_batch b s) = co_path_limit_reported (merged_paths b s)"
  "co_audit_started_at (merge_batch b s) =
     (case co_audit_started_at s of None \<Rightarrow> ab_started_at b | Some t \<Rightarrow> Some t)"
  "co_raw_events (merge_batch b s) = saturating_add (co_raw_events s) (ab_raw_events b)"
  "co_pending_snapshot (merge_batch b s) \<longleftrightarrow> co_pending_snapshot s
     \<or> co_touched_paths (merge_batch b s) \<noteq> [] \<or> co_pending_overflows (merge_batch b s) \<noteq> []"
  "co_force_full_scan (merge_batch b s) \<longleftrightarrow> co_force_full_scan s \<or> ab_overflows b \<noteq> []"
  by (auto simp: merge_batch_def merged_paths_def Let_def)

lemma merge_batch_ok:
  assumes "coord_ok s" and "batch_ok b"
  shows "coord_ok (merge_batch b s)"
proof -
  let ?m = "merged_paths b s"
  from assms(2) have po: "\<forall>po \<in> set (ab_paths b). bs_ok (snd po)"
    by (auto simp: batch_ok_def touch_map_ok_def list_all_iff)
  have "touch_map_ok (co_touched_paths ?m)"
    unfolding merged_paths_def using assms(1) po by (intro merge_paths_ok) (auto simp: coord_ok_def)
  moreover have "co_touched_paths ?m \<noteq> [] \<longleftrightarrow> co_touched_paths s \<noteq> [] \<or> ab_paths b \<noteq> []"
    unfolding merged_paths_def by (subst merge_paths_nonempty [symmetric]) simp
  ultimately show ?thesis
    using assms by (auto simp: coord_ok_def merge_batch_fields batch_ok_def split: option.splits)
qed

lemma coord_ok_arrive:
  assumes "coord_ok s"
  shows "coord_ok (arrive s)" "audit_ok (aa_state (co_audit (arrive s)))"
proof -
  show "audit_ok (aa_state (co_audit (arrive s)))"
    using assms by (elim coord_okE) (simp add: arrive_def audit_ok_inputs split: list.splits)
  then show "coord_ok (arrive s)"
    using assms by (elim coord_okE) (simp only: coord_ok_def arrive_frame, blast)
qed

lemma coord_ok_drain_audit: "coord_ok s \<Longrightarrow> coord_ok (drain_audit s)"
proof -
  assume ok: "coord_ok s"
  let ?a = "arrive s"
  have "coord_ok (?a\<lparr>co_audit := snd (drain (co_audit ?a))\<rparr>)"
    using coord_ok_arrive(1) [OF ok] by (auto simp: coord_ok_def)
  then show ?thesis
    unfolding drain_audit_alt
    by (rule merge_batch_ok) (rule drain_batch_ok [OF coord_ok_arrive(2) [OF ok]])
qed

section \<open>Frames of the emitting operations\<close>

text \<open>Emitting changes the sink, the next number and the clock, and pops overflow notices.\<close>

definition emits_only :: "('s, 't, 'j) coordinator \<Rightarrow> ('s, 't, 'j) coordinator \<Rightarrow> bool" where
  "emits_only s s' \<longleftrightarrow>
     co_config s' = co_config s \<and> co_recorder s' = co_recorder s
     \<and> co_snapshots s' = co_snapshots s \<and> co_touched_paths s' = co_touched_paths s
     \<and> co_raw_events s' = co_raw_events s \<and> co_audit_started_at s' = co_audit_started_at s
     \<and> co_pending_snapshot s' = co_pending_snapshot s
     \<and> co_force_full_scan s' = co_force_full_scan s \<and> co_paused s' = co_paused s
     \<and> co_pending_snapshot_event s' = co_pending_snapshot_event s \<and> co_audit s' = co_audit s
     \<and> co_path_limit_reported s' = co_path_limit_reported s \<and> co_arrivals s' = co_arrivals s"

lemma emits_only_refl [simp]: "emits_only s s"
  by (simp add: emits_only_def)

lemma emits_only_trans: "emits_only s t \<Longrightarrow> emits_only t u \<Longrightarrow> emits_only s u"
  by (simp add: emits_only_def)

lemma emits_only_tick [simp]: "emits_only (tick s) t = emits_only s t" "emits_only s (tick t) = emits_only s t"
  "co_pending_overflows (tick s) = co_pending_overflows s"
  by (simp_all add: emits_only_def tick_def)

lemma coord_ok_emits_only:
  assumes "emits_only s s'" and "coord_ok s"
    and "co_pending_overflows s' \<noteq> [] \<Longrightarrow> co_pending_overflows s \<noteq> []"
  shows "coord_ok s'"
  using assms unfolding coord_ok_def emits_only_def by auto

lemma emit_exact_frame:
  "emit_exact cx e s = (r, s') \<Longrightarrow>
     emits_only s s' \<and> co_pending_overflows s' = co_pending_overflows s \<and> co_clock s' = co_clock s"
  unfolding emit_exact_def emits_only_def by (auto split: if_splits prod.splits sum.splits)

lemma emit_frame:
  "emit cx b s = (r, s') \<Longrightarrow>
     emits_only s s' \<and> co_pending_overflows s' = co_pending_overflows s"
  unfolding emit_def by (drule emit_exact_frame) simp

lemma emit_overflow_loop_frame:
  "emit_overflow_loop cx ns s = (r, s') \<Longrightarrow>
     emits_only s s'
     \<and> (\<exists>n. co_pending_overflows s' = drop n (co_pending_overflows s)
            \<and> (if \<exists>u. r = Inr u then n = length ns else n < length ns))"
proof (induction ns arbitrary: s)
  case Nil
  then show ?case by auto
next
  case (Cons x ns)
  obtain r1 s1 where e: "emit cx (Overflow \<lparr>of_source = on_source x, of_raw_events = on_raw_events x,
      of_recovery = Full_scan_snapshot\<rparr>) s = (r1, s1)"
    by (rule prod.exhaust)
  note f = emit_frame [OF e]
  show ?case
  proof (cases r1)
    case (Inl y)
    then show ?thesis using Cons.prems e f by (auto intro: exI [of _ 0])
  next
    case (Inr u)
    let ?t = "s1\<lparr>co_pending_overflows := tl (co_pending_overflows s1)\<rparr>"
    have "emit_overflow_loop cx ns ?t = (r, s')" using Cons.prems e Inr by simp
    from Cons.IH [OF this] obtain n where
      n: "emits_only ?t s'" "co_pending_overflows s' = drop n (tl (co_pending_overflows s))"
      "if \<exists>u. r = Inr u then n = length ns else n < length ns"
      using f by auto
    moreover have "emits_only s ?t" using f by (simp add: emits_only_def)
    ultimately show ?thesis
      by (intro conjI exI [of _ "Suc n"]) (auto simp: drop_Suc intro: emits_only_trans)
  qed
qed

lemma emit_overflows_cases:
  assumes "emit_overflows cx s = (r, s')"
  obtains (ok) u where "r = Inr u" "emits_only s s'" "co_pending_overflows s' = []"
  | (fail) e where "r = Inl e" "emits_only s s'" "co_pending_overflows s \<noteq> []"
      "co_pending_overflows s' \<noteq> []"
proof -
  from assms have "emit_overflow_loop cx (co_pending_overflows s) s = (r, s')"
    by (simp add: emit_overflows_def)
  from emit_overflow_loop_frame [OF this] obtain n where
    *: "emits_only s s'" "co_pending_overflows s' = drop n (co_pending_overflows s)"
      "if \<exists>u. r = Inr u then n = length (co_pending_overflows s)
       else n < length (co_pending_overflows s)" by blast
  show thesis
  proof (cases r)
    case (Inl x)
    then show thesis using * fail [of x] by force
  next
    case (Inr u)
    then show thesis using * ok [of u] by simp
  qed
qed

lemma emit_audit_cases:
  assumes "emit_audit cx s = (r, s')"
  obtains (clean) "co_audit_started_at s = None" "r = Inr ()" "s' = s"
  | (fail) e where "co_audit_started_at s \<noteq> None" "r = Inl e" "emits_only s s'"
      "co_pending_overflows s' = co_pending_overflows s"
  | (sent) t where "co_audit_started_at s \<noteq> None" "r = Inr ()" "emits_only s t"
      "co_pending_overflows t = co_pending_overflows s" "s' = clear_audit t"
proof (cases "co_audit_started_at s")
  case None
  show thesis by (rule clean) (use assms None in \<open>simp_all add: emit_audit_def\<close>)
next
  case (Some started)
  obtain r1 s1 where e: "emit cx (Touched_paths (touched_event cx started s)) (tick s) = (r1, s1)"
    by (rule prod.exhaust)
  note f = emit_frame [OF e, simplified]
  show thesis
  proof (cases r1)
    case (Inl x)
    show thesis by (rule fail [of x]) (use assms Some e f Inl in \<open>simp_all add: emit_audit_def\<close>)
  next
    case (Inr u)
    show thesis by (rule sent [of s1]) (use assms Some e f Inr in \<open>simp_all add: emit_audit_def\<close>)
  qed
qed

lemma capture_now_frame:
  "capture_now cx s = (r, s') \<Longrightarrow> s' = s\<lparr>co_recorder := co_recorder s'\<rparr>"
  by (auto simp: capture_now_def split: prod.splits)

section \<open>Preservation of the invariant\<close>

lemma coord_ok_emit_exact: "emit_exact cx e s = (r, s') \<Longrightarrow> coord_ok s \<Longrightarrow> coord_ok s'"
  by (auto dest!: emit_exact_frame elim: coord_ok_emits_only)

lemma coord_ok_emit: "emit cx b s = (r, s') \<Longrightarrow> coord_ok s \<Longrightarrow> coord_ok s'"
  by (auto dest!: emit_frame elim: coord_ok_emits_only)

lemma coord_ok_capture_now: "capture_now cx s = (r, s') \<Longrightarrow> coord_ok s \<Longrightarrow> coord_ok s'"
  by (drule capture_now_frame) (metis coord_ok_update(4))

lemma coord_ok_emit_overflows: "emit_overflows cx s = (r, s') \<Longrightarrow> coord_ok s \<Longrightarrow> coord_ok s'"
  by (elim emit_overflows_cases) (auto elim: coord_ok_emits_only)

lemma coord_ok_clear: "coord_ok s \<Longrightarrow> coord_ok (clear_audit s)"
  by (auto simp: coord_ok_def clear_audit_def touch_map_ok_def)

lemma coord_ok_emit_audit: "emit_audit cx s = (r, s') \<Longrightarrow> coord_ok s \<Longrightarrow> coord_ok s'"
proof (elim emit_audit_cases)
  fix t assume "coord_ok s" "emits_only s t" "co_pending_overflows t = co_pending_overflows s"
    and s': "s' = clear_audit t"
  then have "coord_ok t" by (auto elim: coord_ok_emits_only)
  then show ?thesis unfolding s' by (rule coord_ok_clear)
qed (auto elim: coord_ok_emits_only)


text \<open>What a successful snapshot leaves: nothing pending, and the accumulator just drained.\<close>

definition settled :: "('s, 't, 'j) coordinator \<Rightarrow> bool" where
  "settled s \<longleftrightarrow>
     co_pending_snapshot_event s = None \<and> \<not> co_pending_snapshot s \<and> \<not> co_force_full_scan s
     \<and> co_touched_paths s = [] \<and> co_audit_started_at s = None \<and> co_pending_overflows s = []
     \<and> \<not> is_dirty (co_audit s)"

lemma retry_snapshot_cases:
  assumes "retry_snapshot cx event snapshot s = (r, s')"
  obtains (fail) e where "r = Inl e" "emit_exact cx event s = (Inl e, s')" "emits_only s s'"
      "co_pending_overflows s' = co_pending_overflows s" "co_clock s' = co_clock s"
  | (ok) u t where "r = Inr snapshot" "emit_exact cx event s = (Inr u, t)" "emits_only s t"
      "co_pending_overflows t = co_pending_overflows s" "co_clock t = co_clock s"
      "s' = t\<lparr>co_pending_snapshot_event := None,
             co_force_full_scan := (co_pending_overflows s \<noteq> []),
             co_pending_snapshot :=
               (co_audit_started_at s \<noteq> None \<or> co_pending_overflows s \<noteq> []),
             co_snapshots := co_snapshots s + 1\<rparr>"
proof -
  obtain r1 t where e: "emit_exact cx event s = (r1, t)" by (rule prod.exhaust)
  note f = emit_exact_frame [OF e]
  show thesis
  proof (cases r1)
    case (Inl x)
    show thesis
      by (rule fail [of x]) (use assms e f Inl in \<open>simp_all add: retry_snapshot_def\<close>)
  next
    case (Inr u)
    show thesis
      by (rule ok [of u t])
        (use assms e f Inr in \<open>simp_all add: retry_snapshot_def emits_only_def\<close>)
  qed
qed

lemma publish_snapshot_cases:
  assumes "publish_snapshot cx snapshot s = (r, s')"
  obtains (fail) e where "r = Inl e"
      "co_pending_snapshot_event s' = Some (new_event cx (Snapshot snapshot) s)"
      "emits_only (s\<lparr>co_pending_snapshot_event := co_pending_snapshot_event s'\<rparr>) s'"
      "co_pending_overflows s' = co_pending_overflows s"
      "emit_exact cx (new_event cx (Snapshot snapshot) s)
         ((tick s)\<lparr>co_pending_snapshot_event := Some (new_event cx (Snapshot snapshot) s)\<rparr>) = (Inl e, s')"
  | (ok) u t where "r = Inr snapshot"
      "emit_exact cx (new_event cx (Snapshot snapshot) s)
         ((tick s)\<lparr>co_pending_snapshot_event := Some (new_event cx (Snapshot snapshot) s)\<rparr>) = (Inr u, t)"
      "emits_only (s\<lparr>co_pending_snapshot_event := co_pending_snapshot_event t\<rparr>) t"
      "co_pending_overflows t = co_pending_overflows s"
      "s' = t\<lparr>co_pending_snapshot_event := None, co_force_full_scan := False,
             co_pending_snapshot := False, co_snapshots := co_snapshots s + 1\<rparr>"
proof -
  let ?e = "new_event cx (Snapshot snapshot) s"
  obtain r1 t where e: "emit_exact cx ?e ((tick s)\<lparr>co_pending_snapshot_event := Some ?e\<rparr>) = (r1, t)"
    by (rule prod.exhaust)
  have f: "emits_only (s\<lparr>co_pending_snapshot_event := co_pending_snapshot_event t\<rparr>) t"
    "co_pending_overflows t = co_pending_overflows s" "co_snapshots t = co_snapshots s"
    "co_pending_snapshot_event t = Some ?e"
    using emit_exact_frame [OF e] by (simp_all add: emits_only_def tick_def)
  show thesis
  proof (cases r1)
    case (Inl x)
    show thesis
      by (rule fail [of x]) (use assms e f Inl in \<open>simp_all add: publish_snapshot_def Let_def\<close>)
  next
    case (Inr u)
    show thesis
      by (rule ok [of u t]) (use assms e f Inr in \<open>simp_all add: publish_snapshot_def Let_def\<close>)
  qed
qed

text \<open>The stages of a fresh snapshot, for a success and for each place it may stop.\<close>

lemma fresh_snapshot_cases:
  assumes "fresh_snapshot cx s = (r, s')"
  obtains
    (overflows) e where "r = Inl e" "emit_overflows cx (drain_audit s) = (Inl e, s')"
  | (audit) u s1 e where "r = Inl e" "emit_overflows cx (drain_audit s) = (Inr u, s1)"
      "emit_audit cx s1 = (Inl e, s')"
  | (capture) u s1 v s2 e where "r = Inl e" "emit_overflows cx (drain_audit s) = (Inr u, s1)"
      "emit_audit cx s1 = (Inr v, s2)" "capture_now cx s2 = (Inl e, s')"
  | (publish) u s1 v s2 sn s3 where "emit_overflows cx (drain_audit s) = (Inr u, s1)"
      "emit_audit cx s1 = (Inr v, s2)" "capture_now cx s2 = (Inr sn, s3)"
      "publish_snapshot cx sn s3 = (r, s')"
proof (cases r)
  case (Inl e)
  with assms have "fresh_snapshot cx s = (Inl e, s')" by simp
  then show thesis
    unfolding fresh_snapshot_def
    by (elim bindE_InlE) (use Inl that in \<open>simp_all\<close>)
next
  case (Inr x)
  with assms have "fresh_snapshot cx s = (Inr x, s')" by simp
  then show thesis
    unfolding fresh_snapshot_def by (elim bindE_InrE) (use Inr publish in \<open>simp\<close>)
qed

lemma coord_ok_retry:
  assumes "coord_ok s" and "retry_snapshot cx event snapshot s = (r, s')"
  shows "coord_ok s'"
  using assms(2)
proof (cases rule: retry_snapshot_cases)
  case (fail e)
  then show ?thesis using assms(1) by (auto elim: coord_ok_emits_only)
next
  case (ok u t)
  then show ?thesis using assms(1) unfolding coord_ok_def emits_only_def by auto
qed

text \<open>Before publishing, a fresh snapshot has nothing left to report.\<close>

definition quiet :: "('s, 't, 'j) coordinator \<Rightarrow> bool" where
  "quiet s \<longleftrightarrow> coord_ok s \<and> co_touched_paths s = [] \<and> co_audit_started_at s = None
     \<and> co_pending_overflows s = [] \<and> \<not> is_dirty (co_audit s) \<and> co_pending_snapshot_event s = None"

lemma drained_clean: "\<not> is_dirty (co_audit (drain_audit s))"
  by (simp add: is_dirty_def audit_state_default_def)

lemma quiet_before_publish:
  assumes "coord_ok s" and "co_pending_snapshot_event s = None"
    and o: "emit_overflows cx (drain_audit s) = (Inr u, s1)"
    and a: "emit_audit cx s1 = (Inr v, s2)" and c: "capture_now cx s2 = (r, s3)"
  shows "quiet s3" "co_arrivals s3 = tl (co_arrivals s)" "co_snapshots s3 = co_snapshots s"
    "co_config s3 = co_config s" "co_paused s3 = co_paused s"
proof -
  have d: "coord_ok (drain_audit s)" by (rule coord_ok_drain_audit [OF assms(1)])
  have ok1: "coord_ok s1" by (rule coord_ok_emit_overflows [OF o d])
  have ok2: "coord_ok s2" by (rule coord_ok_emit_audit [OF a ok1])
  have ok3: "coord_ok s3" by (rule coord_ok_capture_now [OF c ok2])
  from o have f1: "emits_only (drain_audit s) s1" "co_pending_overflows s1 = []"
    by (auto elim: emit_overflows_cases)
  from a have f2: "co_audit_started_at s2 = None" "co_pending_overflows s2 = []"
    "co_audit s2 = co_audit s1" "co_pending_snapshot_event s2 = co_pending_snapshot_event s1"
    "co_arrivals s2 = co_arrivals s1" "co_snapshots s2 = co_snapshots s1"
    "co_config s2 = co_config s1" "co_paused s2 = co_paused s1"
    by (cases rule: emit_audit_cases; use f1 in \<open>simp add: clear_audit_def emits_only_def\<close>)+
  note c' = capture_now_frame [OF c]
  have f3: "co_audit_started_at s3 = None" "co_pending_overflows s3 = []"
    "co_audit s3 = co_audit s2" "co_pending_snapshot_event s3 = co_pending_snapshot_event s2"
    "co_arrivals s3 = co_arrivals s2" "co_snapshots s3 = co_snapshots s2"
    "co_config s3 = co_config s2" "co_paused s3 = co_paused s2"
    by (subst c', simp add: f2)+
  have "co_touched_paths s3 = []" using ok3 f3(1) unfolding coord_ok_def by blast
  then show "quiet s3"
    using ok3 f1 f2 f3 assms(2) drained_clean [of s] by (simp add: quiet_def emits_only_def)
  show "co_arrivals s3 = tl (co_arrivals s)" "co_snapshots s3 = co_snapshots s"
    "co_config s3 = co_config s" "co_paused s3 = co_paused s"
    using f1 f2 f3 by (simp_all add: emits_only_def)
qed

lemma publish_from_quiet:
  assumes "quiet s" and "publish_snapshot cx sn s = (r, s')"
  shows "coord_ok s'" "co_arrivals s' = co_arrivals s" "\<And>x. r = Inr x \<Longrightarrow> settled s'"
    "\<And>x. r = Inr x \<Longrightarrow> co_snapshots s' = co_snapshots s + 1"
    "\<And>e. r = Inl e \<Longrightarrow> co_snapshots s' = co_snapshots s"
    "co_config s' = co_config s" "co_paused s' = co_paused s"
  using assms(2)
  by (cases rule: publish_snapshot_cases;
      use assms(1) in \<open>simp add: quiet_def coord_ok_def emits_only_def settled_def new_event_def\<close>)+

lemma coord_ok_fresh:
  assumes "coord_ok s" and "co_pending_snapshot_event s = None" and "fresh_snapshot cx s = (r, s')"
  shows "coord_ok s'"
proof -
  have d: "coord_ok (drain_audit s)" by (rule coord_ok_drain_audit [OF assms(1)])
  show ?thesis
    using assms(3)
  proof (cases rule: fresh_snapshot_cases)
    case (overflows e)
    then show ?thesis using d by (auto dest: coord_ok_emit_overflows)
  next
    case (audit u s1 e)
    then show ?thesis using d by (auto dest: coord_ok_emit_overflows coord_ok_emit_audit)
  next
    case (capture u s1 v s2 e)
    then show ?thesis
      using d by (auto dest: coord_ok_emit_overflows coord_ok_emit_audit coord_ok_capture_now)
  next
    case (publish u s1 v s2 sn s3)
    then show ?thesis
      using publish_from_quiet(1) quiet_before_publish(1) [OF assms(1,2)] by blast
  qed
qed

lemma fresh_snapshot_ok:
  assumes "coord_ok s" and "co_pending_snapshot_event s = None"
    and "fresh_snapshot cx s = (Inr sn, s')"
  shows "settled s'" "co_arrivals s' = tl (co_arrivals s)" "co_snapshots s' = co_snapshots s + 1"
proof -
  from assms(3) obtain u s1 v s2 x s3 where
    *: "emit_overflows cx (drain_audit s) = (Inr u, s1)" "emit_audit cx s1 = (Inr v, s2)"
      "capture_now cx s2 = (Inr x, s3)" "publish_snapshot cx x s3 = (Inr sn, s')"
    by (auto elim: fresh_snapshot_cases)
  note q = quiet_before_publish [OF assms(1,2) *(1-3)]
  note p = publish_from_quiet [OF q(1) *(4)]
  show "settled s'" "co_arrivals s' = tl (co_arrivals s)" "co_snapshots s' = co_snapshots s + 1"
    using p(2-4) q(2,3) by auto
qed

lemma coord_ok_do_snapshot:
  assumes "coord_ok s" and "do_snapshot cx s = (r, s')"
  shows "coord_ok s'"
proof (cases "co_pending_snapshot_event s")
  case None
  then show ?thesis using assms coord_ok_fresh by (auto simp: do_snapshot_def)
next
  case (Some e)
  then obtain sn where "ev_body e = Snapshot sn" using coord_okE [OF assms(1)] by metis
  then show ?thesis using assms Some coord_ok_retry by (auto simp: do_snapshot_def)
qed


section \<open>The settle loop\<close>

text \<open>Partial correctness: an invariant of the loop holds when it returns.\<close>

lemma settle_rule:
  assumes "settle cx s = Some (r, s')" and "P s"
    and "\<And>s x t. P s \<Longrightarrow> co_pending_snapshot s \<Longrightarrow> do_snapshot cx s = (Inr x, t) \<Longrightarrow> P (drain_audit t)"
    and "\<And>s e t. P s \<Longrightarrow> co_pending_snapshot s \<Longrightarrow> do_snapshot cx s = (Inl e, t) \<Longrightarrow> Q (Inl e) t"
    and "\<And>s. P s \<Longrightarrow> \<not> co_pending_snapshot s \<Longrightarrow> Q (Inr ()) s"
  shows "Q r s'"
proof -
  have "cx = cx \<longrightarrow> P s \<longrightarrow> Q (fst (r, s')) (snd (r, s'))"
  proof (rule settle.raw_induct [where P = "\<lambda>cx' s y. cx' = cx \<longrightarrow> P s \<longrightarrow> Q (fst y) (snd y)",
        OF _ assms(1)], intro impI)
    fix settle' :: "('a, 'b, 'c) ctx \<Rightarrow> ('a, 'b, 'c) coordinator
      \<Rightarrow> ((core_error + unit) \<times> ('a, 'b, 'c) coordinator) option"
    fix cx' s y
    assume IH: "\<And>c s y. settle' c s = Some y \<Longrightarrow> c = cx \<longrightarrow> P s \<longrightarrow> Q (fst y) (snd y)"
      and run: "(if co_pending_snapshot s
         then case do_snapshot cx' s of (Inl e, s') \<Rightarrow> Some (Inl e, s')
              | (Inr x, s') \<Rightarrow> settle' cx' (drain_audit s')
         else Some (Inr (), s)) = Some y"
      and cx: "cx' = cx" and "P s"
    obtain x t where d: "do_snapshot cx s = (x, t)" by (rule prod.exhaust)
    consider (stop) "\<not> co_pending_snapshot s" | (err) e where "co_pending_snapshot s" "x = Inl e"
      | (step) z where "co_pending_snapshot s" "x = Inr z" by (cases x) auto
    then show "Q (fst y) (snd y)"
    proof cases
      case stop
      then show ?thesis using run assms(5) [OF \<open>P s\<close>] by auto
    next
      case err
      then have "y = (Inl e, t)" using run d cx by simp
      then show ?thesis using assms(4) [OF \<open>P s\<close> err(1)] d err by simp
    next
      case step
      then have "settle' cx (drain_audit t) = Some y" using run d cx by simp
      then show ?thesis using IH assms(3) [OF \<open>P s\<close> step(1)] d step by blast
    qed
  qed
  then show ?thesis using assms(2) by simp
qed

lemma coord_ok_settle: "settle cx s = Some (r, s') \<Longrightarrow> coord_ok s \<Longrightarrow> coord_ok s'"
  by (erule settle_rule [where P = coord_ok])
    (auto dest: coord_ok_do_snapshot intro: coord_ok_drain_audit)

lemma settle_ok: "settle cx s = Some (Inr u, s') \<Longrightarrow> \<not> co_pending_snapshot s'"
proof -
  assume "settle cx s = Some (Inr u, s')"
  then have "\<forall>w. (Inr u :: core_error + unit) = Inr w \<longrightarrow> \<not> co_pending_snapshot s'"
    by (rule settle_rule [where P = "\<lambda>_. True" and
          Q = "\<lambda>r t. \<forall>w. r = Inr w \<longrightarrow> \<not> co_pending_snapshot t"]) simp_all
  then show ?thesis by blast
qed

text \<open>Total correctness: every finite schedule of notifications lets the loop return.\<close>

lemma drain_clean_batch:
  assumes "co_arrivals s = []" and "\<not> is_dirty (co_audit s)" and "audit_ok (aa_state (co_audit s))"
  shows "ab_paths (fst (drain (co_audit (arrive s)))) = []"
    "ab_overflows (fst (drain (co_audit (arrive s)))) = []"
  using assms by (auto simp: arrive_def is_dirty_def audit_ok_def MAX_AUDIT_PATHS_def)

lemma settled_drain:
  assumes "settled s" and "co_arrivals s = []" and "coord_ok s"
  shows "\<not> co_pending_snapshot (drain_audit s)"
proof -
  let ?t = "(arrive s)\<lparr>co_audit := snd (drain (co_audit (arrive s)))\<rparr>"
  let ?b = "fst (drain (co_audit (arrive s)))"
  have "audit_ok (aa_state (co_audit s))" "\<not> is_dirty (co_audit s)"
    using assms(1,3) by (auto simp: settled_def elim: coord_okE)
  note b = drain_clean_batch [OF assms(2) this(2,1)]
  have "arrive s = s" using assms(2) by (simp add: arrive_def)
  then show ?thesis
    using assms(1) b unfolding drain_audit_alt
    by (simp add: merge_batch_fields merged_paths_def settled_def)
qed

lemma settle_terminates_fresh:
  assumes "coord_ok s" and "co_pending_snapshot_event s = None"
  shows "\<exists>y. settle cx s = Some y"
  using assms
proof (induction "length (co_arrivals s)" arbitrary: s rule: less_induct)
  case less
  show ?case
  proof (cases "co_pending_snapshot s")
    case True
    obtain x t where d: "do_snapshot cx s = (x, t)" by (rule prod.exhaust)
    show ?thesis
    proof (cases x)
      case (Inl e)
      then show ?thesis using True d by (simp add: settle.simps)
    next
      case (Inr sn)
      have "fresh_snapshot cx s = (Inr sn, t)" using d Inr less(3) by (simp add: do_snapshot_def)
      note f = fresh_snapshot_ok [OF less(2,3) this]
      have t: "coord_ok t" by (rule coord_ok_do_snapshot [OF less(2) d])
      have step: "settle cx s = settle cx (drain_audit t)"
        using True d Inr by (simp add: settle.simps)
      show ?thesis
      proof (cases "co_arrivals s")
        case Nil
        then have "\<not> co_pending_snapshot (drain_audit t)"
          using settled_drain [OF f(1) _ t] f(2) by simp
        then show ?thesis unfolding step by (simp add: settle.simps)
      next
        case (Cons a as)
        then have "length (co_arrivals (drain_audit t)) < length (co_arrivals s)"
          using f(2) by simp
        moreover have "co_pending_snapshot_event (drain_audit t) = None"
          using f(1) by (simp add: settled_def)
        ultimately show ?thesis
          unfolding step by (rule less(1) [OF _ coord_ok_drain_audit [OF t]])
      qed
    qed
  next
    case False
    then show ?thesis by (simp add: settle.simps)
  qed
qed

lemma retry_clears_event:
  "retry_snapshot cx e sn s = (Inr x, t) \<Longrightarrow> co_pending_snapshot_event t = None"
  by (auto elim: retry_snapshot_cases)

lemma settle_total:
  assumes "coord_ok s"
  shows "\<exists>y. settle cx s = Some y"
proof (cases "co_pending_snapshot_event s")
  case None
  then show ?thesis by (rule settle_terminates_fresh [OF assms])
next
  case (Some e)
  then obtain sn where sn: "ev_body e = Snapshot sn" using coord_okE [OF assms] by metis
  obtain x t where d: "do_snapshot cx s = (x, t)" by (rule prod.exhaust)
  have ok: "coord_ok (drain_audit t)"
    by (rule coord_ok_drain_audit [OF coord_ok_do_snapshot [OF assms d]])
  show ?thesis
  proof (cases "co_pending_snapshot s \<and> (\<exists>y. x = Inr y)")
    case True
    then have "co_pending_snapshot_event (drain_audit t) = None"
      using d Some sn retry_clears_event by (auto simp: do_snapshot_def)
    then have "\<exists>y. settle cx (drain_audit t) = Some y"
      by (rule settle_terminates_fresh [OF ok])
    then show ?thesis using True d by (auto simp: settle.simps [of cx s])
  next
    case False
    then show ?thesis using d by (cases x) (auto simp: settle.simps)
  qed
qed

section \<open>Control operations\<close>

lemma after_settle_cases:
  assumes "after_settle cx act s = Some (r, s')"
  obtains (fail) e where "r = Inl e" "settle cx s = Some (Inl e, s')"
  | (act) t where "settle cx s = Some (Inr (), t)" "act t = (r, s')" "\<not> co_pending_snapshot t"
proof (cases "settle cx s")
  case None
  then show thesis using assms by (simp add: after_settle_def)
next
  case (Some y)
  obtain x t where y: "y = (x, t)" by (rule prod.exhaust)
  show thesis
  proof (cases x)
    case (Inl e)
    then show thesis using assms Some y fail [of e] by (simp add: after_settle_def)
  next
    case (Inr u)
    then have "settle cx s = Some (Inr (), t)" using Some y by simp
    then show thesis using assms act [of t] settle_ok by (auto simp: after_settle_def)
  qed
qed

lemma after_settle_total: "coord_ok s \<Longrightarrow> \<exists>y. after_settle cx act s = Some y"
  using settle_total [of s cx] by (auto simp: after_settle_def split: sum.splits)

lemma coord_ok_after_settle:
  assumes "after_settle cx act s = Some (r, s')" and "coord_ok s"
    and "\<And>t r s'. coord_ok t \<Longrightarrow> act t = (r, s') \<Longrightarrow> coord_ok s'"
  shows "coord_ok s'"
  using assms(1) by (cases rule: after_settle_cases) (auto dest!: coord_ok_settle intro: assms)

lemma coord_ok_flush_durable:
  "flush_durable cx s = (r, s') \<Longrightarrow> coord_ok s \<Longrightarrow> coord_ok s'"
  unfolding flush_durable_def
  by (auto simp: Let_def split: prod.splits sum.splits dest: coord_ok_emit)

lemma coord_ok_do_mark:
  "do_mark cx label meta s = Some (r, s') \<Longrightarrow> coord_ok s \<Longrightarrow> coord_ok s'"
  unfolding do_mark_def
  by (erule coord_ok_after_settle) (auto intro: coord_ok_drain_audit dest: coord_ok_emit)

lemma coord_ok_do_flush: "do_flush cx s = Some (r, s') \<Longrightarrow> coord_ok s \<Longrightarrow> coord_ok s'"
  unfolding do_flush_def
  by (erule coord_ok_after_settle)
    (auto intro: coord_ok_drain_audit simp: bindE_def split: prod.splits sum.splits
      dest: coord_ok_flush_durable)

lemma coord_ok_finish: "finish cx reason s = Some (r, s') \<Longrightarrow> coord_ok s \<Longrightarrow> coord_ok s'"
  unfolding finish_def end_session_def
  by (erule coord_ok_after_settle)
    (auto intro: coord_ok_drain_audit simp: bindE_def split: prod.splits sum.splits
      dest: coord_ok_flush_durable coord_ok_emit)

lemma coord_ok_do_resume: "do_resume cx s = Some (r, s') \<Longrightarrow> coord_ok s \<Longrightarrow> coord_ok s'"
  unfolding do_resume_def
  by (erule coord_ok_after_settle) (auto intro: coord_ok_drain_audit)

lemma map_reply_total: "\<exists>y. m = Some y \<Longrightarrow> \<exists>y. map_reply f m = Some y"
  by (auto simp: map_reply_def)

lemma handle_command_total: "coord_ok s \<Longrightarrow> \<exists>y. handle_command cx c s = Some y"
  by (cases c)
    (simp_all only: handle_command.simps do_mark_def do_flush_def do_resume_def finish_def Let_def
      option.inject simp_thms coord_ok_update coord_ok_drain_audit
      map_reply_total after_settle_total)

lemma coord_ok_handle_command:
  "handle_command cx c s = Some (r, s') \<Longrightarrow> coord_ok s \<Longrightarrow> coord_ok s'"
  by (cases c)
    (auto simp: map_reply_def Let_def intro: coord_ok_do_mark coord_ok_do_flush coord_ok_do_resume
      coord_ok_finish coord_ok_do_snapshot split: prod.splits)

lemma coord_ok_notify: "coord_ok s \<Longrightarrow> coord_ok (s\<lparr>co_audit := apply_input n (co_audit s)\<rparr>)"
proof (elim coord_okE)
  assume "audit_ok (aa_state (co_audit s))"
  then have "audit_ok (aa_state (apply_input n (co_audit s)))"
    using audit_ok_inputs [of "co_audit s" "[n]"] by (simp add: apply_inputs_def)
  moreover assume "touch_map_ok (co_touched_paths s)"
    "co_touched_paths s \<noteq> [] \<longleftrightarrow> co_audit_started_at s \<noteq> None"
    "\<And>e. co_pending_snapshot_event s = Some e \<Longrightarrow> \<exists>sn. ev_body e = Snapshot sn"
    "co_touched_paths s \<noteq> [] \<or> co_pending_overflows s \<noteq> [] \<Longrightarrow> co_pending_snapshot s"
  ultimately show ?thesis by (simp add: coord_ok_def)
qed

end
