(* ===== verification/Coordinator_Steps.thy ===== *)
theory Coordinator_Steps
  imports Coordinator_Inv
begin

text \<open>
  The coordinator as a state machine: a step relation over its state and the log of the events
  the sink has accepted. Every operation of the coordinator is a sequence of these steps
  (\<open>*_steps\<close>), so an invariant of the steps, proved by rule induction, is an invariant of all
  of them.
\<close>

section \<open>The step relation\<close>

text \<open>Events that concern neither the audit nor a snapshot.\<close>

fun plain_body :: "event_body \<Rightarrow> bool" where
  "plain_body (Mark m) = True"
| "plain_body (Flush f) = True"
| "plain_body (Session_end e) = True"
| "plain_body _ = False"

definition overflow_body :: "overflow_notice \<Rightarrow> event_body" where
  "overflow_body n =
     Overflow \<lparr>of_source = on_source n, of_raw_events = on_raw_events n,
               of_recovery = Full_scan_snapshot\<rparr>"

inductive cstep ::
  "('s, 't, 'j) ctx \<Rightarrow> ('s, 't, 'j) coordinator \<times> event list
     \<Rightarrow> ('s, 't, 'j) coordinator \<times> event list \<Rightarrow> bool" for cx where
  notify: "cstep cx (s, es) (s\<lparr>co_audit := apply_input n (co_audit s)\<rparr>, es)"
| drain: "cstep cx (s, es) (drain_audit s, es)"
| pause: "cstep cx (s, es) (s\<lparr>co_paused := p\<rparr>, es)"
| reject: "so_emit (cx_sink cx) e (co_sink s) = (Inl x, k) \<Longrightarrow>
     cstep cx (s, es) (s\<lparr>co_sink := k, co_clock := c\<rparr>, es)"
| flush_sink: "so_flush_session (cx_sink cx) fr (co_sink s) = (y, k) \<Longrightarrow>
     cstep cx (s, es) (s\<lparr>co_sink := k\<rparr>, es)"
| plain: "plain_body b \<Longrightarrow>
     e = event_at (cf_session_id (co_config s)) (co_seq s) ts b \<Longrightarrow>
     so_emit (cx_sink cx) e (co_sink s) = (Inr u, k) \<Longrightarrow>
     cstep cx (s, es) (s\<lparr>co_sink := k, co_seq := co_seq s + 1, co_clock := c\<rparr>, es @ [e])"
| overflow: "co_pending_overflows s = notice # rest \<Longrightarrow>
     e = event_at (cf_session_id (co_config s)) (co_seq s) ts (overflow_body notice) \<Longrightarrow>
     so_emit (cx_sink cx) e (co_sink s) = (Inr u, k) \<Longrightarrow>
     cstep cx (s, es)
       (s\<lparr>co_sink := k, co_seq := co_seq s + 1, co_clock := c, co_pending_overflows := rest\<rparr>, es @ [e])"
| audit: "co_audit_started_at s = Some started \<Longrightarrow>
     e = event_at (cf_session_id (co_config s)) (co_seq s) ts
           (Touched_paths (touched_event cx started s)) \<Longrightarrow>
     so_emit (cx_sink cx) e (co_sink s) = (Inr u, k) \<Longrightarrow>
     cstep cx (s, es)
       (clear_audit (s\<lparr>co_sink := k, co_seq := co_seq s + 1, co_clock := c\<rparr>), es @ [e])"
| capture_fails: "capture (cx_jj cx) (co_force_full_scan s)
       (cf_max_changes_per_event (co_config s)) (co_recorder s) = (Inl x, rec) \<Longrightarrow>
     cstep cx (s, es) (s\<lparr>co_recorder := rec\<rparr>, es)"
| captures: "co_pending_snapshot_event s = None \<Longrightarrow>
     capture (cx_jj cx) (co_force_full_scan s)
       (cf_max_changes_per_event (co_config s)) (co_recorder s) = (Inr sn, rec) \<Longrightarrow>
     e = event_at (cf_session_id (co_config s)) (co_seq s) ts (Snapshot sn) \<Longrightarrow>
     cstep cx (s, es)
       (s\<lparr>co_recorder := rec, co_clock := c, co_pending_snapshot_event := Some e\<rparr>, es)"
| publishes: "co_pending_snapshot_event s = Some e \<Longrightarrow> ev_body e = Snapshot sn \<Longrightarrow>
     ev_seq e = co_seq s \<Longrightarrow> so_emit (cx_sink cx) e (co_sink s) = (Inr u, k) \<Longrightarrow>
     cstep cx (s, es)
       (s\<lparr>co_sink := k, co_seq := co_seq s + 1, co_pending_snapshot_event := None,
          co_force_full_scan := (co_pending_overflows s \<noteq> []),
          co_pending_snapshot := (co_audit_started_at s \<noteq> None \<or> co_pending_overflows s \<noteq> []),
          co_snapshots := co_snapshots s + 1\<rparr>, es @ [e])"

abbreviation csteps where "csteps cx \<equiv> (cstep cx)\<^sup>*\<^sup>*"

text \<open>An invariant of the steps is one of their sequences.\<close>

lemma csteps_invariant:
  assumes "csteps cx (s, es) (s', es')" and "P s es"
    and "\<And>s es s' es'. cstep cx (s, es) (s', es') \<Longrightarrow> P s es \<Longrightarrow> P s' es'"
  shows "P s' es'"
  using assms(1,2) by (induction rule: rtranclp_induct2) (auto intro: assms(3))

lemma cstep_extends: "cstep cx (s, es) (s', es') \<Longrightarrow> \<exists>fs. es' = es @ fs"
  by (erule cstep.cases) auto

lemma csteps_extends: "csteps cx (s, es) (s', es') \<Longrightarrow> \<exists>fs. es' = es @ fs"
  by (induction rule: rtranclp_induct2) (fastforce dest: cstep_extends)+

text \<open>Steps do not depend on the log: they extend any log by the same events.\<close>

lemma cstep_relog: "cstep cx (s, es) (s', es') \<Longrightarrow> \<exists>fs. es' = es @ fs \<and> cstep cx (s, gs) (s', gs @ fs)"
  by (erule cstep.cases) (auto simp del: not_None_eq disj_not1 intro: cstep.intros)

lemma csteps_relog:
  "csteps cx (s, es) (s', es') \<Longrightarrow> \<exists>fs. es' = es @ fs \<and> csteps cx (s, gs) (s', gs @ fs)"
proof (induction rule: rtranclp_induct2)
  case refl
  then show ?case by simp
next
  case (step s1 es1 s2 es2)
  then obtain fs where fs: "es1 = es @ fs" "csteps cx (s, gs) (s1, gs @ fs)" by blast
  from cstep_relog [OF step(2), of "gs @ fs"] obtain hs where
    "es2 = es1 @ hs" "cstep cx (s1, gs @ fs) (s2, (gs @ fs) @ hs)" by blast
  then show ?case using fs by (intro exI [of _ "fs @ hs"]) (auto intro: rtranclp.rtrancl_into_rtrancl)
qed

section \<open>The operations are sequences of steps\<close>

lemma emit_exact_accepts:
  assumes "emit_exact cx e s = (Inr u, s')"
  obtains k where "ev_seq e = co_seq s" "so_emit (cx_sink cx) e (co_sink s) = (Inr (), k)"
    "s' = s\<lparr>co_sink := k, co_seq := co_seq s + 1\<rparr>"
  using assms by (auto simp: emit_exact_def split: if_splits prod.splits sum.splits)

lemma emit_accepts:
  assumes "emit cx b s = (Inr u, s')"
  obtains k where "so_emit (cx_sink cx) (new_event cx b s) (co_sink s) = (Inr (), k)"
    "s' = s\<lparr>co_sink := k, co_seq := co_seq s + 1, co_clock := Suc (co_clock s)\<rparr>"
  using assms unfolding emit_def by (elim emit_exact_accepts) (auto simp: tick_def)

lemma emit_exact_rejects:
  assumes "emit_exact cx e s = (Inl x, s')"
  obtains (stale) "ev_seq e \<noteq> co_seq s" "x = Sequence_changed" "s' = s"
  | (refused) y k where "ev_seq e = co_seq s" "x = Sink_failed y"
      "so_emit (cx_sink cx) e (co_sink s) = (Inl y, k)" "s' = s\<lparr>co_sink := k\<rparr>"
  using assms by (auto simp: emit_exact_def split: if_splits prod.splits sum.splits)

lemma emit_rejects:
  assumes "emit cx b s = (Inl x, s')"
  obtains y k where "x = Sink_failed y"
    "so_emit (cx_sink cx) (new_event cx b s) (co_sink s) = (Inl y, k)"
    "s' = s\<lparr>co_sink := k, co_clock := Suc (co_clock s)\<rparr>"
  using assms unfolding emit_def
  by (elim emit_exact_rejects) (auto simp: tick_def new_event_def)

lemma emit_exact_rejects_steps:
  assumes "emit_exact cx e s = (Inl x, s')"
  shows "csteps cx (s, es) (s', es)"
  using assms
proof (cases rule: emit_exact_rejects)
  case (refused y k)
  then show ?thesis using reject [OF refused(3), of es "co_clock s"] by auto
qed simp

lemma emit_rejects_steps:
  assumes "emit cx b s = (Inl x, s')"
  shows "csteps cx (s, es) (s', es)"
  using assms
proof (cases rule: emit_rejects)
  case (1 y k)
  then show ?thesis using reject [OF 1(2), of es "Suc (co_clock s)"] by auto
qed

lemma emit_plain_steps:
  assumes "emit cx b s = (r, s')" and "plain_body b"
  shows "csteps cx (s, es)
    (s', case r of Inl _ \<Rightarrow> es | Inr _ \<Rightarrow> es @ [new_event cx b s])"
proof (cases r)
  case (Inl x)
  then show ?thesis using assms emit_rejects_steps by simp
next
  case (Inr u)
  with assms(1) have "emit cx b s = (Inr u, s')" by simp
  then obtain k where k: "so_emit (cx_sink cx) (new_event cx b s) (co_sink s) = (Inr (), k)"
    "s' = s\<lparr>co_sink := k, co_seq := co_seq s + 1, co_clock := Suc (co_clock s)\<rparr>"
    by (rule emit_accepts)
  show ?thesis
    using plain [OF assms(2) new_event_def k(1), of es "Suc (co_clock s)"] k(2) Inr by auto
qed

lemma emit_overflow_loop_steps:
  assumes "emit_overflow_loop cx ns s = (r, s')" and "ns = co_pending_overflows s"
  shows "\<exists>es'. csteps cx (s, es) (s', es')"
  using assms
proof (induction ns arbitrary: s es)
  case Nil
  then show ?case by auto
next
  case (Cons n ns)
  note body = overflow_body_def [of n, symmetric]
  obtain r1 s1 where e: "emit cx (overflow_body n) s = (r1, s1)" by (rule prod.exhaust)
  show ?case
  proof (cases r1)
    case (Inl x)
    then have "s' = s1" using Cons.prems(1) e by (simp add: body)
    then show ?thesis using e Inl emit_rejects_steps by blast
  next
    case (Inr u)
    then obtain k where k:
      "so_emit (cx_sink cx) (new_event cx (overflow_body n) s) (co_sink s) = (Inr (), k)"
      "s1 = s\<lparr>co_sink := k, co_seq := co_seq s + 1, co_clock := Suc (co_clock s)\<rparr>"
      using e by (auto elim: emit_accepts)
    have n: "co_pending_overflows s = n # ns" using Cons.prems by simp
    let ?t = "s1\<lparr>co_pending_overflows := tl (co_pending_overflows s1)\<rparr>"
    have "cstep cx (s, es) (?t, es @ [new_event cx (overflow_body n) s])"
      using overflow [OF n new_event_def k(1), of es "Suc (co_clock s)"] k(2) n by simp
    moreover have "emit_overflow_loop cx ns ?t = (r, s')"
      using Cons.prems(1) e Inr by (simp add: body)
    moreover have "ns = co_pending_overflows ?t" using k(2) n by simp
    ultimately obtain es' where "cstep cx (s, es) (?t, es @ [new_event cx (overflow_body n) s])"
      "csteps cx (?t, es @ [new_event cx (overflow_body n) s]) (s', es')"
      using Cons.IH [of ?t] by blast
    then show ?thesis by (meson converse_rtranclp_into_rtranclp)
  qed
qed

lemma emit_overflows_steps:
  "emit_overflows cx s = (r, s') \<Longrightarrow> \<exists>es'. csteps cx (s, es) (s', es')"
  unfolding emit_overflows_def by (rule emit_overflow_loop_steps) simp_all

lemma tick_audit: "new_event cx b (tick s) = event_at (cf_session_id (co_config s)) (co_seq s)
    (cx_now cx (Suc (co_clock s))) b"
  by (simp add: new_event_def tick_def)

lemma emit_audit_steps:
  assumes "emit_audit cx s = (r, s')"
  shows "\<exists>es'. csteps cx (s, es) (s', es')"
proof (cases "co_audit_started_at s")
  case None
  then show ?thesis using assms by (auto simp: emit_audit_def)
next
  case (Some started)
  let ?b = "Touched_paths (touched_event cx started s)"
  obtain r1 s1 where e: "emit cx ?b (tick s) = (r1, s1)" by (rule prod.exhaust)
  show ?thesis
  proof (cases r1)
    case (Inl x)
    with e have "emit cx ?b (tick s) = (Inl x, s1)" by simp
    then obtain y k where
      k: "so_emit (cx_sink cx) (new_event cx ?b (tick s)) (co_sink s) = (Inl y, k)"
      "s1 = s\<lparr>co_sink := k, co_clock := Suc (Suc (co_clock s))\<rparr>"
      by (elim emit_rejects) (auto simp: tick_def)
    then have "cstep cx (s, es) (s1, es)"
      using reject [OF k(1), of es "Suc (Suc (co_clock s))"] by simp
    then show ?thesis using assms Some e Inl by (auto simp: emit_audit_def)
  next
    case (Inr u)
    with e have "emit cx ?b (tick s) = (Inr u, s1)" by simp
    then obtain k where
      k: "so_emit (cx_sink cx) (new_event cx ?b (tick s)) (co_sink s) = (Inr (), k)"
      "s1 = s\<lparr>co_sink := k, co_seq := co_seq s + 1, co_clock := Suc (Suc (co_clock s))\<rparr>"
      by (elim emit_accepts) (auto simp: tick_def)
    have "cstep cx (s, es) (clear_audit s1, es @ [new_event cx ?b (tick s)])"
      using audit [OF Some tick_audit k(1), of es "Suc (Suc (co_clock s))"] k(2) by simp
    then show ?thesis using assms Some e Inr by (auto simp: emit_audit_def)
  qed
qed

lemma retry_snapshot_steps:
  assumes "retry_snapshot cx e sn s = (r, s')" and "co_pending_snapshot_event s = Some e"
    and "ev_body e = Snapshot sn"
  shows "\<exists>es'. csteps cx (s, es) (s', es')"
  using assms(1)
proof (cases rule: retry_snapshot_cases)
  case (fail x)
  then show ?thesis using emit_exact_rejects_steps by blast
next
  case (ok u t)
  from ok(2) obtain k where k: "ev_seq e = co_seq s" "so_emit (cx_sink cx) e (co_sink s) = (Inr (), k)"
    "t = s\<lparr>co_sink := k, co_seq := co_seq s + 1\<rparr>" by (rule emit_exact_accepts)
  have "s' = s\<lparr>co_sink := k, co_seq := co_seq s + 1, co_pending_snapshot_event := None,
          co_force_full_scan := (co_pending_overflows s \<noteq> []),
          co_pending_snapshot := (co_audit_started_at s \<noteq> None \<or> co_pending_overflows s \<noteq> []),
          co_snapshots := co_snapshots s + 1\<rparr>"
    unfolding ok(6) k(3) by simp
  then show ?thesis using publishes [OF assms(2,3) k(1,2), of es] by blast
qed

lemma capture_publish_steps:
  assumes "quiet s3" and c: "capture_now cx s2 = (Inr sn, s3)"
    and p: "publish_snapshot cx sn s3 = (r, s')"
  shows "\<exists>es'. csteps cx (s2, es) (s', es')"
proof -
  let ?e = "new_event cx (Snapshot sn) s3"
  let ?t = "(tick s3)\<lparr>co_pending_snapshot_event := Some ?e\<rparr>"
  have s3: "s3 = s2\<lparr>co_recorder := co_recorder s3\<rparr>" by (rule capture_now_frame [OF c])
  have f: "co_config s3 = co_config s2" "co_seq s3 = co_seq s2" "co_clock s3 = co_clock s2"
    "co_pending_snapshot_event s3 = co_pending_snapshot_event s2"
    by (subst s3; simp)+
  have none: "co_pending_snapshot_event s2 = None" using assms(1) f(4) by (simp add: quiet_def)
  have cap: "capture (cx_jj cx) (co_force_full_scan s2) (cf_max_changes_per_event (co_config s2))
      (co_recorder s2) = (Inr sn, co_recorder s3)"
    using c by (auto simp: capture_now_def split: prod.splits)
  have e: "?e = event_at (cf_session_id (co_config s2)) (co_seq s2) (cx_now cx (co_clock s2)) (Snapshot sn)"
    using f by (simp add: new_event_def)
  have "s2\<lparr>co_recorder := co_recorder s3, co_clock := Suc (co_clock s2),
      co_pending_snapshot_event := Some ?e\<rparr> = ?t"
    by (subst (2) s3) (simp add: tick_def f)
  then have 1: "cstep cx (s2, es) (?t, es)"
    using captures [OF none cap e, of es "Suc (co_clock s2)"] by simp
  show ?thesis
    using p
  proof (cases rule: publish_snapshot_cases)
    case (fail x)
    then have "csteps cx (?t, es) (s', es)" using emit_exact_rejects_steps by blast
    then show ?thesis using 1 by (meson converse_rtranclp_into_rtranclp)
  next
    case (ok u t)
    from ok(2) obtain k where k: "so_emit (cx_sink cx) ?e (co_sink ?t) = (Inr (), k)"
      "t = ?t\<lparr>co_sink := k, co_seq := co_seq ?t + 1\<rparr>" by (auto elim: emit_exact_accepts)
    have "cstep cx (?t, es) (s', es @ [?e])"
      using publishes [where cx = cx and s = ?t and e = ?e and es = es, OF _ _ _ k(1)] assms(1)
      unfolding ok(5) k(2) by (simp add: quiet_def new_event_def tick_def)
    then show ?thesis using 1 by (meson converse_rtranclp_into_rtranclp r_into_rtranclp)
  qed
qed


lemma csteps_then:
  assumes "\<exists>es1. csteps cx (s, es) (s1, es1)" and "\<And>es1. \<exists>es2. csteps cx (s1, es1) (s2, es2)"
  shows "\<exists>es2. csteps cx (s, es) (s2, es2)"
  using assms by (meson rtranclp_trans)

lemma drain_steps: "\<exists>es'. csteps cx (s, es) (drain_audit s, es')"
  using drain by (blast intro: r_into_rtranclp)

lemma capture_now_fails_steps:
  "capture_now cx s = (Inl e, s') \<Longrightarrow> \<exists>es'. csteps cx (s, es) (s', es')"
  by (auto simp: capture_now_def split: prod.splits intro!: r_into_rtranclp capture_fails)

lemma fresh_snapshot_steps:
  assumes "coord_ok s" and "co_pending_snapshot_event s = None" and "fresh_snapshot cx s = (r, s')"
  shows "\<exists>es'. csteps cx (s, es) (s', es')"
  using assms(3)
proof (cases rule: fresh_snapshot_cases)
  case (overflows e)
  show ?thesis by (rule csteps_then [OF drain_steps emit_overflows_steps [OF overflows(2)]])
next
  case (audit u s1 e)
  show ?thesis
    by (rule csteps_then [OF csteps_then [OF drain_steps emit_overflows_steps [OF audit(2)]]
          emit_audit_steps [OF audit(3)]])
next
  case (capture u s1 v s2 e)
  show ?thesis
    by (rule csteps_then [OF csteps_then [OF csteps_then [OF drain_steps
          emit_overflows_steps [OF capture(2)]] emit_audit_steps [OF capture(3)]]
          capture_now_fails_steps [OF capture(4)]])
next
  case (publish u s1 v s2 sn s3)
  have q: "quiet s3" by (rule quiet_before_publish(1) [OF assms(1,2) publish(1-3)])
  show ?thesis
    by (rule csteps_then [OF csteps_then [OF csteps_then [OF drain_steps
          emit_overflows_steps [OF publish(1)]] emit_audit_steps [OF publish(2)]]
          capture_publish_steps [OF q publish(3,4)]])
qed

lemma do_snapshot_steps:
  assumes "coord_ok s" and "do_snapshot cx s = (r, s')"
  shows "\<exists>es'. csteps cx (s, es) (s', es')"
proof (cases "co_pending_snapshot_event s")
  case None
  then show ?thesis using assms fresh_snapshot_steps by (auto simp: do_snapshot_def)
next
  case (Some e)
  then obtain sn where "ev_body e = Snapshot sn" using coord_okE [OF assms(1)] by metis
  then show ?thesis using assms Some retry_snapshot_steps by (auto simp: do_snapshot_def)
qed

lemma settle_steps:
  assumes "settle cx s = Some (r, s')" and "coord_ok s"
  shows "\<exists>es'. csteps cx (s, es) (s', es')"
proof -
  let ?P = "\<lambda>t. coord_ok t \<and> (\<exists>es'. csteps cx (s, es) (t, es'))"
  from assms(1) show ?thesis
  proof (rule settle_rule [where P = ?P and Q = "\<lambda>r t. \<exists>es'. csteps cx (s, es) (t, es')"])
    show "?P s" using assms(2) by blast
  next
    fix a x t assume a: "?P a" and d: "do_snapshot cx a = (Inr x, t)"
    then have "coord_ok (drain_audit t)" using coord_ok_do_snapshot coord_ok_drain_audit by blast
    moreover have "\<exists>es'. csteps cx (s, es) (drain_audit t, es')"
      using csteps_then [OF csteps_then [OF _ do_snapshot_steps [OF _ d]] drain_steps] a by blast
    ultimately show "?P (drain_audit t)" by blast
  next
    fix a e t assume a: "?P a" and d: "do_snapshot cx a = (Inl e, t)"
    then show "\<exists>es'. csteps cx (s, es) (t, es')"
      using csteps_then [OF _ do_snapshot_steps [OF _ d]] by blast
  qed blast
qed

lemma emit_plain_stepsE:
  "emit cx b s = (r, s') \<Longrightarrow> plain_body b \<Longrightarrow> \<exists>es'. csteps cx (s, es) (s', es')"
  using emit_plain_steps by blast

lemma flush_durable_steps:
  assumes "flush_durable cx s = (r, s')"
  shows "\<exists>es'. csteps cx (s, es) (s', es')"
proof -
  let ?b = "Flush \<lparr>fl_op = op_id (co_recorder s), fl_through_seq = co_seq s\<rparr>"
  obtain r1 s1 where e: "emit cx ?b s = (r1, s1)" by (rule prod.exhaust)
  note first = emit_plain_stepsE [OF e, of es, simplified]
  show ?thesis
  proof (cases r1)
    case (Inl x)
    then show ?thesis using assms e first by (auto simp: flush_durable_def Let_def)
  next
    case (Inr u)
    let ?fr = "\<lparr>fr_shadow_root = cf_shadow_root (co_config s1), fr_last_seq = co_seq s1 - 1,
      fr_last_op = op_id (co_recorder s), fr_checkpoint = commit_id (co_recorder s)\<rparr>"
    obtain y k where k: "so_flush_session (cx_sink cx) ?fr (co_sink s1) = (y, k)" by (rule prod.exhaust)
    have "s' = s1\<lparr>co_sink := k\<rparr>"
      using assms e Inr k by (auto simp: flush_durable_def Let_def split: sum.splits)
    then show ?thesis
      using csteps_then [OF first] flush_sink [OF k] by (blast intro: r_into_rtranclp)
  qed
qed

lemma bindE_steps:
  assumes "bindE m f s = (r, s')"
    and "\<And>r s' es. m s = (r, s') \<Longrightarrow> \<exists>es'. csteps cx (s, es) (s', es')"
    and "\<And>x t r s' es. f x t = (r, s') \<Longrightarrow> \<exists>es'. csteps cx (t, es) (s', es')"
  shows "\<exists>es'. csteps cx (s, es) (s', es')"
proof -
  obtain x t where m: "m s = (x, t)" by (rule prod.exhaust)
  show ?thesis
  proof (cases x)
    case (Inl e)
    then show ?thesis using assms(1) assms(2) [OF m] m by (simp add: bindE_def)
  next
    case (Inr y)
    then have "f y t = (r, s')" using assms(1) m by (simp add: bindE_def)
    then show ?thesis using csteps_then [OF assms(2) [OF m] assms(3) [OF \<open>f y t = (r, s')\<close>]] by blast
  qed
qed

lemma after_settle_steps:
  assumes "after_settle cx act s = Some (r, s')" and "coord_ok s"
    and "\<And>t r s' es. act t = (r, s') \<Longrightarrow> \<exists>es'. csteps cx (t, es) (s', es')"
  shows "\<exists>es'. csteps cx (s, es) (s', es')"
  using assms(1)
proof (cases rule: after_settle_cases)
  case (fail e)
  then show ?thesis using settle_steps assms(2) by blast
next
  case (act t)
  show ?thesis
    by (rule csteps_then [OF settle_steps [OF act(1) assms(2)] assms(3) [OF act(2)]])
qed

lemma do_mark_steps:
  assumes "do_mark cx label meta s = Some (r, s')" and "coord_ok s"
  shows "\<exists>es'. csteps cx (s, es) (s', es')"
proof -
  have "\<exists>es'. csteps cx (drain_audit s, es1) (s', es')" for es1
    using assms(1) unfolding do_mark_def
    by (rule after_settle_steps) (auto intro: coord_ok_drain_audit assms(2) dest: emit_plain_stepsE)
  then show ?thesis by (rule csteps_then [OF drain_steps])
qed

lemma do_flush_steps:
  assumes "do_flush cx s = Some (r, s')" and "coord_ok s"
  shows "\<exists>es'. csteps cx (s, es) (s', es')"
proof -
  have "\<exists>es'. csteps cx (drain_audit s, es1) (s', es')" for es1
    using assms(1) unfolding do_flush_def
    by (rule after_settle_steps)
      (auto intro: coord_ok_drain_audit assms(2) elim!: bindE_steps dest: flush_durable_steps)
  then show ?thesis by (rule csteps_then [OF drain_steps])
qed

lemma finish_steps:
  assumes "finish cx reason s = Some (r, s')" and "coord_ok s"
  shows "\<exists>es'. csteps cx (s, es) (s', es')"
proof -
  have "\<exists>es'. csteps cx (drain_audit s, es1) (s', es')" for es1
    using assms(1) unfolding finish_def end_session_def
    by (rule after_settle_steps)
      (auto intro: coord_ok_drain_audit assms(2) elim!: bindE_steps
        dest: flush_durable_steps emit_plain_stepsE)
  then show ?thesis by (rule csteps_then [OF drain_steps])
qed

lemma pause_steps: "\<exists>es'. csteps cx (s, es) (s\<lparr>co_paused := p\<rparr>, es')"
  using pause by (blast intro: r_into_rtranclp)

lemma do_resume_steps:
  assumes "do_resume cx s = Some (r, s')" and "coord_ok s"
  shows "\<exists>es'. csteps cx (s, es) (s', es')"
proof -
  have "\<exists>es'. csteps cx ((drain_audit s)\<lparr>co_paused := False\<rparr>, es1) (s', es')" for es1
    using assms(1) unfolding do_resume_def
    by (rule after_settle_steps) (auto intro: coord_ok_drain_audit assms(2))
  then show ?thesis by (rule csteps_then [OF csteps_then [OF drain_steps pause_steps]])
qed

lemma map_reply_SomeD: "map_reply f m = Some (r, s) \<Longrightarrow> \<exists>x. m = Some (x, s) \<and> r = f x"
  by (auto simp: map_reply_def)

lemma handle_command_steps:
  assumes "handle_command cx c s = Some (r, s')" and "coord_ok s"
  shows "\<exists>es'. csteps cx (s, es) (s', es')"
  using assms
  by (cases c)
    (auto dest!: map_reply_SomeD do_snapshot_steps do_mark_steps do_flush_steps do_resume_steps
      finish_steps simp: Let_def simp del: split_paired_Ex intro: pause_steps)

text \<open>The command loop is a sequence of steps and keeps the state invariant; it always returns.\<close>

lemma run_steps:
  "run cx inputs s = Some (rs, s') \<Longrightarrow> coord_ok s \<Longrightarrow>
     coord_ok s' \<and> (\<exists>es'. csteps cx (s, es) (s', es'))"
proof (induction inputs arbitrary: s rs es)
  case Nil
  then show ?case
    by (auto split: option.splits prod.splits simp del: split_paired_Ex
        dest: finish_steps coord_ok_finish)
next
  case (Cons i inputs)
  show ?case
  proof (cases i)
    case (Notify n)
    let ?s = "s\<lparr>co_audit := apply_input n (co_audit s)\<rparr>"
    have ok: "coord_ok ?s" by (rule coord_ok_notify [OF Cons.prems(2)])
    have "coord_ok s'" and st: "\<And>es. \<exists>es'. csteps cx (?s, es) (s', es')"
      using Cons.IH [OF _ ok] Cons.prems(1) Notify by auto
    moreover have "\<exists>es1. csteps cx (s, es) (?s, es1)"
      using notify by (blast intro: r_into_rtranclp)
    ultimately show ?thesis using csteps_then [OF _ st] by blast
  next
    case (Command c)
    obtain r t where h: "handle_command cx c s = Some (r, t)"
      using Cons.prems(1) Command by (auto split: option.splits)
    have ok: "coord_ok t" by (rule coord_ok_handle_command [OF h Cons.prems(2)])
    note st = handle_command_steps [OF h Cons.prems(2)]
    show ?thesis
    proof (cases "\<exists>reason. c = Shutdown reason")
      case True
      then show ?thesis using Cons.prems(1) Command h ok st by auto
    next
      case False
      then obtain rs1 where "run cx inputs t = Some (rs1, s')"
        using Cons.prems(1) Command h by (auto split: option.splits command.splits)
      from Cons.IH [OF this ok] have "coord_ok s'" and st': "\<And>es. \<exists>es'. csteps cx (t, es) (s', es')"
        by auto
      then show ?thesis using csteps_then [OF st st'] by blast
    qed
  qed
qed

lemma run_total_ok: "coord_ok s \<Longrightarrow> \<exists>y. run cx inputs s = Some y"
proof (induction inputs arbitrary: s)
  case Nil
  then have "\<exists>y. finish cx ''control_channel_closed'' s = Some y"
    unfolding finish_def by (intro after_settle_total coord_ok_drain_audit)
  then show ?case by auto
next
  case (Cons i inputs)
  show ?case
  proof (cases i)
    case (Notify n)
    then show ?thesis using Cons.IH [OF coord_ok_notify [OF Cons.prems]] by auto
  next
    case (Command c)
    obtain r t where h: "handle_command cx c s = Some (r, t)"
      using handle_command_total [OF Cons.prems, of cx c] by (metis surj_pair)
    obtain rs u where "run cx inputs t = Some (rs, u)"
      using Cons.IH [OF coord_ok_handle_command [OF h Cons.prems]] by (metis surj_pair)
    then show ?thesis using Command h by (cases c) auto
  qed
qed

end
