(* ===== verification/Coordinator_Log.thy ===== *)
theory Coordinator_Log
  imports Coordinator_Steps
begin

text \<open>
  Invariants of the coordinator's steps, about the log of accepted events: its numbering, the
  chain of operations its snapshots form, the snapshot counter, the commit a flush names, and
  that no observed path is forgotten.
\<close>

section \<open>Numbering\<close>

definition numbered :: "('s, 't, 'j) coordinator \<Rightarrow> event list \<Rightarrow> bool" where
  "numbered s es \<longleftrightarrow>
     stream_ok (cf_session_id (co_config s)) SCHEMA_VERSION es
     \<and> co_seq s = word_of_nat (length es)
     \<and> (\<forall>e. co_pending_snapshot_event s = Some e \<longrightarrow>
           ev_session_id e = cf_session_id (co_config s) \<and> ev_v e = SCHEMA_VERSION)"

lemma clear_audit_frame [simp]:
  "co_config (clear_audit s) = co_config s" "co_sink (clear_audit s) = co_sink s"
  "co_recorder (clear_audit s) = co_recorder s" "co_seq (clear_audit s) = co_seq s"
  "co_snapshots (clear_audit s) = co_snapshots s"
  "co_pending_snapshot_event (clear_audit s) = co_pending_snapshot_event s"
  "co_audit (clear_audit s) = co_audit s"
  "co_pending_overflows (clear_audit s) = co_pending_overflows s"
  "co_touched_paths (clear_audit s) = []"
  "co_path_limit_reported (clear_audit s) = False"
  by (simp_all add: clear_audit_def)

lemma cstep_config: "cstep cx (s, es) (s', es') \<Longrightarrow> co_config s' = co_config s"
  by (erule cstep.cases) auto

lemma cstep_numbered:
  assumes "cstep cx (s, es) (s', es')" and "numbered s es"
  shows "numbered s' es'"
  using assms by (cases rule: cstep.cases) (auto simp: numbered_def)

lemmas csteps_numbered = csteps_invariant [where P = numbered, OF _ _ cstep_numbered]

section \<open>The sink's stream\<close>

context sink_contract
begin

lemma cstep_accepted:
  assumes "cstep cx (s, es) (s', es')" and "cx_sink cx = ops" and "accepted (co_sink s) es"
  shows "accepted (co_sink s') es'"
  using assms(1)
proof (cases rule: cstep.cases)
  case (reject e x k c)
  then show ?thesis using assms(2,3) emit_err by auto
next
  case (flush_sink fr y k)
  then show ?thesis using assms(2,3) flush_session_keeps by auto
next
  case (plain b e ts u k c)
  then show ?thesis using assms(2,3) emit_ok by auto
next
  case (overflow notice rest e ts u k c)
  then show ?thesis using assms(2,3) emit_ok by auto
next
  case (audit started e ts u k c)
  then show ?thesis using assms(2,3) emit_ok by auto
next
  case (publishes e sn u k)
  then show ?thesis using assms(2,3) emit_ok by auto
qed (use assms(3) in auto)

lemma csteps_accepted:
  assumes "csteps cx (s, es) (s', es')" and "cx_sink cx = ops" and "accepted (co_sink s) es"
  shows "accepted (co_sink s') es'"
  using assms(1,3)
  by (rule csteps_invariant [where P = "\<lambda>s es. accepted (co_sink s) es"])
    (auto intro: cstep_accepted assms(2))

end

section \<open>The chain of operations\<close>

text \<open>The operation the log has published last, and the chain of parents.\<close>

definition next_published :: "event_body \<Rightarrow> string option \<Rightarrow> string option" where
  "next_published b p =
     (case b of Session_start v \<Rightarrow> Some (ss_baseline_op v) | Snapshot sn \<Rightarrow> Some (sn_op sn) | _ \<Rightarrow> p)"

definition published :: "event list \<Rightarrow> string option" where
  "published es = fold (\<lambda>e. next_published (ev_body e)) es None"

fun chained :: "string option \<Rightarrow> event list \<Rightarrow> bool" where
  "chained p [] \<longleftrightarrow> True"
| "chained p (e # es) \<longleftrightarrow>
     (case ev_body e of Snapshot sn \<Rightarrow> p = Some (sn_parent_op sn) | _ \<Rightarrow> True)
     \<and> chained (next_published (ev_body e) p) es"

lemma published_snoc [simp]: "published (es @ [e]) = next_published (ev_body e) (published es)"
  by (simp add: published_def)

lemma chained_append:
  "chained p (es @ fs) \<longleftrightarrow>
     chained p es \<and> chained (fold (\<lambda>e. next_published (ev_body e)) es p) fs"
  by (induction es arbitrary: p) auto

lemma chained_snoc [simp]:
  "chained None (es @ [e]) \<longleftrightarrow> chained None es
     \<and> (case ev_body e of Snapshot sn \<Rightarrow> published es = Some (sn_parent_op sn) | _ \<Rightarrow> True)"
  by (auto simp: chained_append published_def split: event_body.splits)

text \<open>
  The recorder never moves its operation on a failed capture when reloading the working copy
  after the transaction does not fail.
\<close>

definition finish_safe :: "('t, 'j) jj_ops \<Rightarrow> bool" where
  "finish_safe jo \<longleftrightarrow> (\<forall>p w. \<exists>u w'. jo_finish_working_copy jo p w = (Inr u, w'))"

lemma commit_capture_error:
  assumes "commit_capture jo tree cs st tr r = (Inl e, r')"
  shows "jr_previous_commit r' = jr_previous_commit r"
    "finish_safe jo \<Longrightarrow> jr_repo_op r' = jr_repo_op r"
proof -
  have "jr_previous_commit r' = jr_previous_commit r \<and> (finish_safe jo \<longrightarrow> jr_repo_op r' = jr_repo_op r)"
    using assms unfolding commit_capture_def Let_def
  proof (elim bindE_InlE)
    fix x t y u
    assume "lift_jj (jo_write_commit jo (jr_previous_commit r) tree) r = (Inr x, t)"
      "lift_jj (jo_commit_transaction jo) t = (Inr y, u)"
      and rest: "(case jo_tree_id jo tree of
         None \<Rightarrow> (Inl (Recorder_failed ''snapshot produced a conflicted root tree''), u)
       | Some tree_id \<Rightarrow>
           bindE (lift_jj (jo_finish_working_copy jo y))
            (\<lambda>_ ra. (Inr \<lparr>sn_op = ''op:'' @ y, sn_parent_op = op_id r, sn_commit = ''c:'' @ x,
                sn_tree = ''t:'' @ tree_id, sn_changes = cs, sn_stats = st, sn_truncated = tr\<rparr>,
              ra\<lparr>jr_previous_tree := tree, jr_previous_commit := Some x\<rparr>))
            (u\<lparr>jr_repo_op := y\<rparr>)) = (Inl e, r')"
    then obtain w where u: "u = r\<lparr>jr_world := w\<rparr>" by (auto dest!: lift_jj_frame)
    show ?thesis
    proof (cases "jo_tree_id jo tree")
      case None
      then show ?thesis using rest u by auto
    next
      case (Some i)
      then have f: "lift_jj (jo_finish_working_copy jo y) (u\<lparr>jr_repo_op := y\<rparr>) = (Inl e, r')"
        using rest by (auto simp: bindE_def split: prod.splits sum.splits)
      obtain w' where "r' = u\<lparr>jr_repo_op := y, jr_world := w'\<rparr>" using lift_jj_frame [OF f] by auto
      moreover have "\<not> finish_safe jo"
        using f by (auto simp: finish_safe_def lift_jj_def split: prod.splits sum.splits)
          (metis Inl_Inr_False fst_conv)
      ultimately show ?thesis using u by simp
    qed
  qed (auto dest!: lift_jj_frame)
  then show "jr_previous_commit r' = jr_previous_commit r"
    "finish_safe jo \<Longrightarrow> jr_repo_op r' = jr_repo_op r" by simp_all
qed

lemma capture_error_keeps:
  assumes "capture jo fs mx r = (Inl e, r')"
  shows "commit_id r' = commit_id r" "finish_safe jo \<Longrightarrow> op_id r' = op_id r"
proof -
  have "jr_previous_commit r' = jr_previous_commit r \<and> (finish_safe jo \<longrightarrow> jr_repo_op r' = jr_repo_op r)"
    using assms unfolding capture_def
  proof (elim bindE_InlE)
    fix u r1 tree r2
    assume "renew_working_copy jo fs r = (Inr u, r1)" "snapshot_tree jo r1 = (Inr tree, r2)"
      and rest: "(case project_diff
             (\<lambda>p. jo_metadata_len jo (jr_world r2) (path_join (jr_watched_root r2) p)) mx
             (jo_diff jo (jr_world r2) (jr_previous_tree r2) tree) of
         Inl e \<Rightarrow> (Inl e, r2)
       | Inr (changes, stats, truncated) \<Rightarrow>
           commit_capture jo tree changes stats truncated r2) = (Inl e, r')"
    then have "jr_previous_commit r2 = jr_previous_commit r" "jr_repo_op r2 = jr_repo_op r"
      by (auto dest!: renew_working_copy_frame snapshot_tree_frame)
    then show ?thesis
      using rest by (auto split: sum.splits dest: commit_capture_error)
  qed (auto dest!: renew_working_copy_frame snapshot_tree_frame)
  then show "commit_id r' = commit_id r" "finish_safe jo \<Longrightarrow> op_id r' = op_id r"
    by (simp_all add: commit_id_def op_id_def)
qed

definition op_chain :: "('s, 't, 'j) coordinator \<Rightarrow> event list \<Rightarrow> bool" where
  "op_chain s es \<longleftrightarrow>
     chained None es
     \<and> (case co_pending_snapshot_event s of
          None \<Rightarrow> published es = Some (op_id (co_recorder s))
        | Some e \<Rightarrow> \<exists>sn. ev_body e = Snapshot sn \<and> sn_op sn = op_id (co_recorder s)
            \<and> published es = Some (sn_parent_op sn))"

lemma next_published_plain [simp]: "plain_body b \<Longrightarrow> next_published b p = p"
  by (cases b) (simp_all add: next_published_def)

lemma next_published_simps [simp]:
  "next_published (overflow_body n) p = p"
  "next_published (Touched_paths t) p = p"
  "next_published (Overflow ov) p = p"
  "next_published (Snapshot sn) p = Some (sn_op sn)"
  "next_published (Session_start v) p = Some (ss_baseline_op v)"
  by (simp_all add: next_published_def overflow_body_def)

lemma plain_not_snapshot:
  "plain_body b \<Longrightarrow> (case b of Snapshot sn \<Rightarrow> P sn | _ \<Rightarrow> True)"
  by (cases b) auto

lemma cstep_op_chain:
  assumes "cstep cx (s, es) (s', es')" and "op_chain s es" and "finish_safe (cx_jj cx)"
  shows "op_chain s' es'"
  using assms(1)
proof (cases rule: cstep.cases)
  case (capture_fails x rec)
  then show ?thesis
    using assms(2) capture_error_keeps(2) [OF _ assms(3)] by (auto simp: op_chain_def split: option.splits)
next
  case (captures sn rec e ts c)
  then show ?thesis
    using assms(2) capture_ok [OF captures(4)] by (auto simp: op_chain_def)
next
  case (plain b e ts u k c)
  then show ?thesis
    using assms(2) by (auto simp: op_chain_def plain_not_snapshot split: option.splits)
next
  case (publishes e sn u k)
  then show ?thesis using assms(2) by (auto simp: op_chain_def)
qed (use assms(2) in \<open>auto simp: op_chain_def overflow_body_def split: option.splits\<close>)


section \<open>The commit a flush names\<close>

definition commit_inv :: "('s, 't, 'j) coordinator \<Rightarrow> event list \<Rightarrow> bool" where
  "commit_inv s es \<longleftrightarrow>
     (case co_pending_snapshot_event s of
        None \<Rightarrow> (\<forall>c. latest_snapshot_commit es = Some c \<longrightarrow> commit_id (co_recorder s) = Some c)
      | Some e \<Rightarrow> \<exists>sn. ev_body e = Snapshot sn \<and> commit_id (co_recorder s) = Some (sn_commit sn))"

lemma snapshot_commit_simps [simp]:
  "snapshot_commit (event_at sid n ts (Snapshot sn)) = Some (sn_commit sn)"
  "snapshot_commit (event_at sid n ts (Touched_paths t)) = None"
  "snapshot_commit (event_at sid n ts (overflow_body o')) = None"
  "plain_body b \<Longrightarrow> snapshot_commit (event_at sid n ts b) = None"
  by (auto simp: snapshot_commit_def overflow_body_def split: event_body.splits)

lemma cstep_commit_inv:
  assumes "cstep cx (s, es) (s', es')" and "commit_inv s es"
  shows "commit_inv s' es'"
  using assms(1)
proof (cases rule: cstep.cases)
  case (capture_fails x rec)
  then show ?thesis
    using assms(2) capture_error_keeps(1) [OF capture_fails(3)]
    by (auto simp: commit_inv_def split: option.splits)
next
  case (captures sn rec e ts c)
  then show ?thesis using capture_ok(3) [OF captures(4)] by (auto simp: commit_inv_def)
next
  case (publishes e sn u k)
  then show ?thesis using assms(2) by (auto simp: commit_inv_def snapshot_commit_def)
qed (use assms(2) in \<open>auto simp: commit_inv_def split: option.splits\<close>)

section \<open>The snapshot counter\<close>

fun is_snapshot :: "event \<Rightarrow> bool" where
  "is_snapshot e = (case ev_body e of Snapshot sn \<Rightarrow> True | _ \<Rightarrow> False)"

definition snapshot_count :: "event list \<Rightarrow> nat" where
  "snapshot_count es = length (filter is_snapshot es)"

lemma plain_is_snapshot [simp]:
  "plain_body b \<Longrightarrow> \<not> (case b of Snapshot sn \<Rightarrow> True | _ \<Rightarrow> False)"
  by (cases b) auto

lemma cstep_counted:
  assumes "cstep cx (s, es) (s', es')" and "co_snapshots s = word_of_nat (snapshot_count es)"
  shows "co_snapshots s' = word_of_nat (snapshot_count es')"
  using assms by (cases rule: cstep.cases) (auto simp: snapshot_count_def overflow_body_def)

section \<open>No observed path is forgotten\<close>

text \<open>
  The log accounts for a path when a \<open>touched_paths\<close> event lists it, or an overflow event of
  the path limit says that paths were dropped (and a full scan follows).
\<close>

fun reports_path :: "string \<Rightarrow> event \<Rightarrow> bool" where
  "reports_path p e =
     (case ev_body e of Touched_paths t \<Rightarrow> p \<in> tp_path ` set (tps_paths t) | _ \<Rightarrow> False)"

fun reports_limit :: "event \<Rightarrow> bool" where
  "reports_limit e = (case ev_body e of Overflow v \<Rightarrow> of_source v = path_limit_source | _ \<Rightarrow> False)"

definition reported :: "string \<Rightarrow> event list \<Rightarrow> bool" where
  "reported p es \<longleftrightarrow> (\<exists>e \<in> set es. reports_path p e \<or> reports_limit e)"

definition limit_noticed :: "('s, 't, 'j) coordinator \<Rightarrow> event list \<Rightarrow> bool" where
  "limit_noticed s es \<longleftrightarrow>
     path_limit_source \<in> on_source ` set (co_pending_overflows s) \<or> (\<exists>e \<in> set es. reports_limit e)"

definition tracked :: "string \<Rightarrow> ('s, 't, 'j) coordinator \<Rightarrow> event list \<Rightarrow> bool" where
  "tracked p s es \<longleftrightarrow>
     reported p es \<or> limit_noticed s es \<or> p \<in> keys (co_touched_paths s)
     \<or> p \<in> keys (as_paths (aa_state (co_audit s))) \<or> as_path_limit_reported (aa_state (co_audit s))"

definition audit_kept :: "string \<Rightarrow> ('s, 't, 'j) coordinator \<Rightarrow> event list \<Rightarrow> bool" where
  "audit_kept p s es \<longleftrightarrow> (co_path_limit_reported s \<longrightarrow> limit_noticed s es) \<and> tracked p s es"

lemma limit_noticed_extend: "limit_noticed s es \<Longrightarrow> limit_noticed s (es @ fs)"
  by (auto simp: limit_noticed_def)

lemma merge_path_limit:
  assumes "co_path_limit_reported s \<longrightarrow> limit_noticed s es"
  shows "co_path_limit_reported (merge_path raw po s) \<longrightarrow> limit_noticed (merge_path raw po s) es"
  using assms by (cases rule: merge_path_cases [of s po raw]) (auto simp: limit_noticed_def)

lemma merge_paths_limit_noticed:
  "(co_path_limit_reported s \<longrightarrow> limit_noticed s es) \<Longrightarrow>
     co_path_limit_reported (fold (merge_path raw) pos s) \<longrightarrow>
     limit_noticed (fold (merge_path raw) pos s) es"
  by (induction pos arbitrary: s) (simp_all add: merge_path_limit)

lemma limit_noticed_grows:
  assumes "limit_noticed s es" and "\<exists>ns. co_pending_overflows t = co_pending_overflows s @ ns"
  shows "limit_noticed t es"
  using assms by (auto simp: limit_noticed_def)

lemma merge_batch_kept:
  assumes lim: "co_path_limit_reported s \<longrightarrow> limit_noticed s es"
    and p: "p \<in> keys (ab_paths b) \<or> reported p es \<or> limit_noticed s es \<or> p \<in> keys (co_touched_paths s)
      \<or> path_limit_source \<in> on_source ` set (ab_overflows b)"
  shows "audit_kept p (merge_batch b s) es"
proof -
  let ?s = "s\<lparr>co_audit_started_at :=
    (case co_audit_started_at s of None \<Rightarrow> ab_started_at b | Some t \<Rightarrow> Some t)\<rparr>"
  have "co_path_limit_reported ?s \<longrightarrow> limit_noticed ?s es" using lim by (simp add: limit_noticed_def)
  then have m: "co_path_limit_reported (merged_paths b s) \<longrightarrow> limit_noticed (merged_paths b s) es"
    unfolding merged_paths_def by (rule merge_paths_limit_noticed)
  have g: "limit_noticed (merged_paths b s) es \<Longrightarrow> limit_noticed (merge_batch b s) es"
    by (rule limit_noticed_grows) (auto simp: merge_batch_fields)
  have g': "limit_noticed s es \<Longrightarrow> limit_noticed (merged_paths b s) es"
    using limit_noticed_grows [of ?s es "merged_paths b s"] merge_paths_overflows [of "ab_raw_events b" "ab_paths b" ?s]
    by (auto simp: merged_paths_def limit_noticed_def)
  have k: "keys (co_touched_paths s) \<subseteq> keys (co_touched_paths (merge_batch b s))"
    using merge_paths_keys(1) [of ?s "ab_raw_events b" "ab_paths b"]
    by (simp add: merge_batch_fields merged_paths_def)
  have r: "\<not> co_path_limit_reported (merge_batch b s) \<Longrightarrow>
      keys (ab_paths b) \<subseteq> keys (co_touched_paths (merge_batch b s))"
    using merge_paths_recorded [of "ab_raw_events b" "ab_paths b" ?s]
    by (simp add: merge_batch_fields merged_paths_def keys_def)
  have o: "path_limit_source \<in> on_source ` set (ab_overflows b) \<Longrightarrow> limit_noticed (merge_batch b s) es"
    by (auto simp: limit_noticed_def merge_batch_fields)
  have l: "co_path_limit_reported (merge_batch b s) \<longrightarrow> limit_noticed (merge_batch b s) es"
    using m g by (simp add: merge_batch_fields)
  have "tracked p (merge_batch b s) es"
    using p g g' k r o l by (auto simp: tracked_def)
  then show ?thesis using l by (simp add: audit_kept_def)
qed


definition audit_tracks :: "string \<Rightarrow> audit_accumulator \<Rightarrow> bool" where
  "audit_tracks p acc \<longleftrightarrow> p \<in> keys (as_paths (aa_state acc)) \<or> as_path_limit_reported (aa_state acc)"

lemma audit_tracks_input: "audit_tracks p acc \<Longrightarrow> audit_tracks p (apply_input n acc)"
proof (cases n)
  case (Observe ts i paths raw)
  assume t: "audit_tracks p acc"
  let ?st = "start_window ts i raw (aa_state acc)"
  have "p \<in> keys (as_paths (fold observe_path paths ?st)) \<or> as_path_limit_reported (fold observe_path paths ?st)"
    using t observe_paths_keys(1) [of ?st paths] observe_paths_limit [of ?st paths]
    by (auto simp: audit_tracks_def)
  then show ?thesis using t Observe by (simp add: audit_tracks_def observe_def notify_changed_def)
qed (simp add: audit_tracks_def report_overflow_def notify_changed_def Let_def)

lemma audit_tracks_inputs: "audit_tracks p acc \<Longrightarrow> audit_tracks p (apply_inputs ins acc)"
  unfolding apply_inputs_def by (induction ins arbitrary: acc) (simp_all add: audit_tracks_input)

lemma observe_tracks:
  assumes "p \<in> tp_path ` set paths"
  shows "audit_tracks p (apply_input (Observe ts i paths raw) acc)"
proof -
  let ?st = "fold observe_path paths (start_window ts i raw (aa_state acc))"
  have "p \<in> keys (as_paths ?st) \<or> as_path_limit_reported ?st"
    using observe_paths_recorded [of paths] assms by blast
  moreover have "paths \<noteq> []" using assms by auto
  ultimately show ?thesis by (simp add: audit_tracks_def observe_def notify_changed_def)
qed

lemma audit_kept_drain:
  assumes "audit_kept p s es"
  shows "audit_kept p (drain_audit s) es"
proof -
  let ?t = "(arrive s)\<lparr>co_audit := snd (drain (co_audit (arrive s)))\<rparr>"
  let ?b = "fst (drain (co_audit (arrive s)))"
  have mono: "audit_tracks p (co_audit (arrive s))" if "audit_tracks p (co_audit s)"
    using that audit_tracks_inputs by (simp add: arrive_def split: list.splits)
  have "audit_kept p (merge_batch ?b ?t) es"
  proof (rule merge_batch_kept)
    show "co_path_limit_reported ?t \<longrightarrow> limit_noticed ?t es"
      using assms by (simp add: audit_kept_def limit_noticed_def)
    show "p \<in> keys (ab_paths ?b) \<or> reported p es \<or> limit_noticed ?t es
      \<or> p \<in> keys (co_touched_paths ?t) \<or> path_limit_source \<in> on_source ` set (ab_overflows ?b)"
      using assms mono by (auto simp: audit_kept_def tracked_def audit_tracks_def limit_noticed_def)
  qed
  then show ?thesis by (simp add: drain_audit_alt)
qed

lemma reported_simps [simp]:
  "reported p (es @ [e]) \<longleftrightarrow> reported p es \<or> reports_path p e \<or> reports_limit e"
  by (auto simp: reported_def)

lemma limit_reported: "(\<exists>e \<in> set es. reports_limit e) \<Longrightarrow> reported p es"
  by (auto simp: reported_def)

lemma touched_event_reports: "p \<in> keys (co_touched_paths s) \<Longrightarrow>
    reports_path p (event_at sid n ts (Touched_paths (touched_event cx started s)))"
  by (force simp: touched_event_def keys_def)

lemma audit_kept_frame:
  assumes "audit_kept p s es"
    and "co_pending_overflows t = co_pending_overflows s" "co_touched_paths t = co_touched_paths s"
    "co_path_limit_reported t = co_path_limit_reported s" "co_audit t = co_audit s"
  shows "audit_kept p t (es @ fs)"
  using assms by (auto simp: audit_kept_def tracked_def limit_noticed_def reported_def)

lemma cstep_audit_kept:
  assumes "cstep cx (s, es) (s', es')" and "audit_kept p s es"
  shows "audit_kept p s' es'"
  using assms(1)
proof (cases rule: cstep.cases)
  case (notify n)
  then show ?thesis
    using assms(2) audit_tracks_input [of p "co_audit s" n]
    by (auto simp: audit_kept_def tracked_def limit_noticed_def audit_tracks_def)
next
  case drain
  then show ?thesis using audit_kept_drain [OF assms(2)] by simp
next
  case (overflow notice rest e ts u k c)
  have "limit_noticed s' es'" if "limit_noticed s es"
    using that overflow by (auto simp: limit_noticed_def overflow_body_def)
  then show ?thesis using assms(2) overflow by (auto simp: audit_kept_def tracked_def)
next
  case (audit started e ts u k c)
  have "limit_noticed s' es'" if "limit_noticed s es"
    using that audit by (auto simp: limit_noticed_def)
  then show ?thesis
    using assms(2) audit touched_event_reports [of p s] by (auto simp: audit_kept_def tracked_def)
qed (use audit_kept_frame [OF assms(2), of s' "[]"] audit_kept_frame [OF assms(2), of s'] in auto)

text \<open>When nothing is held any more, every tracked path has been reported.\<close>

lemma tracked_reported:
  assumes "tracked p s es" and "co_touched_paths s = []" and "co_pending_overflows s = []"
    and "aa_state (co_audit s) = audit_state_default"
  shows "reported p es"
  using assms limit_reported
  by (auto simp: tracked_def limit_noticed_def keys_def audit_state_default_def)


text \<open>The flag of the path limit is set only while the log or the pending notices tell of it.\<close>

definition limit_inv :: "('s, 't, 'j) coordinator \<Rightarrow> event list \<Rightarrow> bool" where
  "limit_inv s es \<longleftrightarrow> (co_path_limit_reported s \<longrightarrow> limit_noticed s es)"

lemma audit_kept_iff: "audit_kept p s es \<longleftrightarrow> limit_inv s es \<and> tracked p s es"
  by (simp add: audit_kept_def limit_inv_def)

lemma limit_inv_merge_batch:
  assumes "limit_inv s es"
  shows "limit_inv (merge_batch b s) es"
proof -
  let ?s = "s\<lparr>co_audit_started_at :=
    (case co_audit_started_at s of None \<Rightarrow> ab_started_at b | Some t \<Rightarrow> Some t)\<rparr>"
  have "co_path_limit_reported ?s \<longrightarrow> limit_noticed ?s es"
    using assms by (simp add: limit_noticed_def limit_inv_def)
  then have "co_path_limit_reported (merged_paths b s) \<longrightarrow> limit_noticed (merged_paths b s) es"
    unfolding merged_paths_def by (rule merge_paths_limit_noticed)
  then show ?thesis by (auto simp: limit_inv_def limit_noticed_def merge_batch_fields)
qed

lemma cstep_limit_inv:
  assumes "cstep cx (s, es) (s', es')" and "limit_inv s es"
  shows "limit_inv s' es'"
  using assms(1)
proof (cases rule: cstep.cases)
  case drain
  have "limit_inv ((arrive s)\<lparr>co_audit := snd (drain (co_audit (arrive s)))\<rparr>) es"
    using assms(2) by (simp add: limit_inv_def limit_noticed_def)
  then show ?thesis using limit_inv_merge_batch drain by (simp add: drain_audit_alt)
next
  case (overflow notice rest e ts u k c)
  then show ?thesis
    using assms(2) by (auto simp: limit_inv_def limit_noticed_def overflow_body_def)
qed (use assms(2) in \<open>auto simp: limit_inv_def limit_noticed_def\<close>)

section \<open>The start of a session\<close>

definition start_event ::
  "('s, 't, 'j) ctx \<Rightarrow> config \<Rightarrow> snapshot \<Rightarrow> event" where
  "start_event cx config baseline =
     event_at (cf_session_id config) 0 (cx_now cx 0) (start_body cx config baseline)"

lemma initialize_cases:
  assumes "initialize cx config sink acc arrivals w = Inr s"
  obtains baseline rec0 rec k where
    "capture (cx_jj cx) True (cf_max_changes_per_event config) rec0 = (Inr baseline, rec)"
    "so_emit (cx_sink cx) (start_event cx config baseline) sink = (Inr (), k)"
    "s = (coordinator_new config k acc arrivals rec)\<lparr>co_seq := 1, co_clock := 1\<rparr>"
proof -
  obtain x w' where i: "recorder_init (cx_jj cx) (cf_watched_root config) (cf_shadow_root config)
      (cf_ignore config) w = (x, w')" by (rule prod.exhaust)
  then obtain rec0 where r: "x = Inr rec0" using assms by (cases x) (auto simp: initialize_def)
  obtain y rec where c: "capture (cx_jj cx) True (cf_max_changes_per_event config) rec0 = (y, rec)"
    by (rule prod.exhaust)
  then obtain baseline where y: "y = Inr baseline"
    using assms i r by (cases y) (auto simp: initialize_def)
  let ?s0 = "coordinator_new config sink acc arrivals rec"
  obtain z t where e: "emit cx (start_body cx config baseline) ?s0 = (z, t)" by (rule prod.exhaust)
  then have "z = Inr () \<and> t = s" using assms i r c y by (cases z) (auto simp: initialize_def)
  with e have e': "emit cx (start_body cx config baseline) ?s0 = (Inr (), s)" by simp
  have ev: "new_event cx (start_body cx config baseline) ?s0 = start_event cx config baseline"
    by (simp add: new_event_def start_event_def coordinator_new_def)
  from e' show thesis
  proof (rule emit_accepts)
    fix k
    assume "so_emit (cx_sink cx) (new_event cx (start_body cx config baseline) ?s0) (co_sink ?s0) = (Inr (), k)"
      "s = ?s0\<lparr>co_sink := k, co_seq := co_seq ?s0 + 1, co_clock := Suc (co_clock ?s0)\<rparr>"
    then show thesis using that c [unfolded y] ev by (simp add: coordinator_new_def)
  qed
qed

text \<open>The states and logs a session goes through, from a successful start.\<close>

inductive reachable :: "('s, 't, 'j) ctx \<Rightarrow> ('s, 't, 'j) coordinator \<Rightarrow> event list \<Rightarrow> bool" for cx where
  start: "audit_ok (aa_state acc) \<Longrightarrow> initialize cx config sink acc arrivals w = Inr s \<Longrightarrow>
     capture (cx_jj cx) True (cf_max_changes_per_event config) rec0 = (Inr baseline, co_recorder s) \<Longrightarrow>
     so_emit (cx_sink cx) (start_event cx config baseline) sink = (Inr (), co_sink s) \<Longrightarrow>
     reachable cx s [start_event cx config baseline]"
| notified: "reachable cx s es \<Longrightarrow> reachable cx (s\<lparr>co_audit := apply_input n (co_audit s)\<rparr>) es"
| commanded: "reachable cx s es \<Longrightarrow> handle_command cx c s = Some (r, s') \<Longrightarrow>
     csteps cx (s, es) (s', es') \<Longrightarrow> reachable cx s' es'"

lemma initialize_reachable:
  assumes "audit_ok (aa_state acc)" and "initialize cx config sink acc arrivals w = Inr s"
  obtains baseline where "reachable cx s [start_event cx config baseline]"
    "so_emit (cx_sink cx) (start_event cx config baseline) sink = (Inr (), co_sink s)"
    "co_config s = config"
proof (rule initialize_cases [OF assms(2)])
  fix baseline rec0 rec k
  assume *: "capture (cx_jj cx) True (cf_max_changes_per_event config) rec0 = (Inr baseline, rec)"
    "so_emit (cx_sink cx) (start_event cx config baseline) sink = (Inr (), k)"
    "s = coordinator_new config k acc arrivals rec\<lparr>co_seq := 1, co_clock := 1\<rparr>"
  then have "co_recorder s = rec" "co_sink s = k" "co_config s = config"
    by (simp_all add: coordinator_new_def)
  then show thesis using that * reachable.start [OF assms, of rec0 baseline] by simp
qed

text \<open>What holds in every reachable state.\<close>

definition session_inv :: "('s, 't, 'j) ctx \<Rightarrow> ('s, 't, 'j) coordinator \<Rightarrow> event list \<Rightarrow> bool" where
  "session_inv cx s es \<longleftrightarrow>
     numbered s es \<and> commit_inv s es \<and> co_snapshots s = word_of_nat (snapshot_count es)
     \<and> limit_inv s es \<and> (finish_safe (cx_jj cx) \<longrightarrow> op_chain s es)
     \<and> (\<exists>v fs e. es = e # fs \<and> ev_body e = Session_start v)"

lemma cstep_session_inv:
  assumes "cstep cx (s, es) (s', es')" and "session_inv cx s es"
  shows "session_inv cx s' es'"
  using assms cstep_numbered [OF assms(1)] cstep_commit_inv [OF assms(1)] cstep_counted [OF assms(1)]
    cstep_limit_inv [OF assms(1)] cstep_op_chain [OF assms(1)] cstep_extends [OF assms(1)]
  by (auto simp: session_inv_def)

lemma csteps_session_inv:
  "csteps cx (s, es) (s', es') \<Longrightarrow> session_inv cx s es \<Longrightarrow> session_inv cx s' es'"
  by (erule csteps_invariant [where P = "session_inv cx"]) (auto intro: cstep_session_inv)

lemma coordinator_new_ok:
  "audit_ok (aa_state acc) \<Longrightarrow> coord_ok (coordinator_new config sink acc arrivals rec)"
  by (simp add: coord_ok_def coordinator_new_def)

lemma start_session_inv:
  assumes "audit_ok (aa_state acc)" and "initialize cx config sink acc arrivals w = Inr s"
    and c: "capture (cx_jj cx) True (cf_max_changes_per_event config) rec0 = (Inr baseline, co_recorder s)"
  shows "coord_ok s" "session_inv cx s [start_event cx config baseline]"
proof -
  from assms(2) obtain k rec where
    s: "s = coordinator_new config k acc arrivals rec\<lparr>co_seq := 1, co_clock := 1\<rparr>"
    by (auto elim: initialize_cases)
  show "coord_ok s" using coordinator_new_ok [OF assms(1)] s by simp
  have "sn_op baseline = op_id (co_recorder s)" using capture_ok(2) [OF c] .
  then show "session_inv cx s [start_event cx config baseline]"
    using s
    by (simp add: session_inv_def numbered_def commit_inv_def limit_inv_def op_chain_def
        start_event_def start_body_def coordinator_new_def snapshot_count_def published_def
        latest_snapshot_commit_def snapshot_commit_def)
qed

lemma reachable_inv:
  assumes "reachable cx s es"
  shows "coord_ok s" "session_inv cx s es"
  using assms
proof (induction rule: reachable.induct)
  case (start acc config sink arrivals w s rec0 baseline)
  { case 1 show ?case by (rule start_session_inv(1) [OF start(1-3)])
  next
    case 2 show ?case by (rule start_session_inv(2) [OF start(1-3)]) }
next
  case (notified s es n)
  { case 1 show ?case using notified.IH(1) by (rule coord_ok_notify)
  next
    case 2 show ?case using notify notified.IH(2) by (rule cstep_session_inv) }
next
  case (commanded s es c r s' es')
  { case 1 show ?case using commanded.hyps(2) commanded.IH(1) by (rule coord_ok_handle_command)
  next
    case 2 show ?case using commanded.hyps(3) commanded.IH(2) by (rule csteps_session_inv) }
qed

end
