(* ===== verification/Session_Example.thy ===== *)
theory Session_Example
  imports Coordinator_Log "HOL-Library.Code_Target_Nat"
begin

text \<open>
  A concrete session the witnesses of the coordinator's properties run on: a sink that keeps the
  events in memory and refuses those its script tells it to, and a minimal repository whose
  world is the number of transactions.
\<close>

section \<open>The parameters\<close>

definition script_emit :: "event \<Rightarrow> (bool list \<times> event list, sink_error, unit) op" where
  "script_emit e s =
     (case s of
        (True # refusals, es) \<Rightarrow> (Inl (Failed ''refused''), (refusals, es))
      | (refusals, es) \<Rightarrow> (Inr (), (tl refusals, es @ [e])))"

lemma script_emit_simps [simp]:
  "script_emit e ([], es) = (Inr (), ([], es @ [e]))"
  "script_emit e (True # fs, es) = (Inl (Failed ''refused''), (fs, es))"
  "script_emit e (False # fs, es) = (Inr (), (fs, es @ [e]))"
  by (simp_all add: script_emit_def)

definition script_sink :: "(bool list \<times> event list) sink_ops" where
  "script_sink =
     \<lparr>so_emit = script_emit, so_flush = (\<lambda>s. (Inr (), s)), so_flush_session = (\<lambda>r s. (Inr (), s))\<rparr>"

interpretation script: sink_contract script_sink "\<lambda>s es. snd s = es"
  by unfold_locales
    (auto simp: script_sink_def script_emit_def split: prod.splits list.splits bool.splits)

definition demo_jj :: "(nat, nat) jj_ops" where
  "demo_jj =
     \<lparr>jo_create_dir_all = (\<lambda>p w. (Inr (), w)), jo_set_private = (\<lambda>p w. (Inr (), w)),
      jo_exists = (\<lambda>w p. False), jo_create_dir = (\<lambda>p w. (Inr (), w)),
      jo_init_repo = (\<lambda>p w. (Inr ''root'', w)),
      jo_init_working_copy = (\<lambda>root p op w. (Inr (), w)),
      jo_parse_ignores = (\<lambda>t. Inr ()), jo_empty_tree = 0,
      jo_snapshot = (\<lambda>ig op w. (Inr w, w)), jo_diff = (\<lambda>w t t'. []),
      jo_metadata_len = (\<lambda>w p. None),
      jo_write_commit = (\<lambda>parent t w. (Inr (replicate w (CHR ''c'')), w)),
      jo_commit_transaction = (\<lambda>w. (Inr (replicate (Suc w) (CHR ''o'')), Suc w)),
      jo_tree_id = (\<lambda>t. Some ''tree''), jo_finish_working_copy = (\<lambda>op w. (Inr (), w))\<rparr>"

definition demo_cx :: "(bool list \<times> event list, nat, nat) ctx" where
  "demo_cx = \<lparr>cx_sink = script_sink, cx_jj = demo_jj, cx_now = (\<lambda>k. ''now''), cx_version = ''0''\<rparr>"

definition demo_config :: config where
  "demo_config = \<lparr>cf_session_id = ''demo'', cf_watched_root = ''/w'', cf_shadow_root = ''/s'',
     cf_ignore = [], cf_excluded_paths = [], cf_max_changes_per_event = 10,
     cf_quiescence = 1, cf_max_delay = 2\<rparr>"

definition demo_input :: audit_input where
  "demo_input = Observe ''now'' 0 [\<lparr>tp_path = ''a'', tp_operations = [Modify]\<rparr>] 1"

text \<open>The state after a start with the refusals of \<open>script\<close>, and after the demo notification.\<close>

definition demo_start :: "bool list \<Rightarrow> (bool list \<times> event list, nat, nat) coordinator" where
  "demo_start script = projr (initialize demo_cx demo_config (False # script, []) accumulator_new [] 0)"

lemmas demo_defs = demo_start_def initialize_def recorder_init_def capture_def demo_cx_def
  bindE_def demo_jj_def demo_config_def script_sink_def new_working_copy_def
  path_join_def starts_with_def ends_with_def lift_jj_def renew_working_copy_def snapshot_tree_def
  project_diff_def commit_capture_def emit_def emit_exact_def tick_def coordinator_new_def
  new_event_def start_body_def accumulator_new_def Let_def

lemma demo_init:
  "initialize demo_cx demo_config (False # script, []) accumulator_new [] 0 = Inr (demo_start script)"
  by (simp add: demo_defs)

lemma demo_accumulator: "audit_ok (aa_state accumulator_new)"
  by (simp add: accumulator_new_def)

lemma demo_contract: "sink_contract (cx_sink demo_cx) (\<lambda>s es. snd s = es)"
  using script.sink_contract_axioms by (simp add: demo_cx_def)

lemma demo_finish_safe: "finish_safe (cx_jj demo_cx)"
  by (simp add: finish_safe_def demo_cx_def demo_jj_def)

lemma demo_reachable: "reachable demo_cx (demo_start script) (snd (co_sink (demo_start script)))"
proof (rule initialize_reachable [OF demo_accumulator demo_init])
  fix baseline
  assume "reachable demo_cx (demo_start script) [start_event demo_cx demo_config baseline]"
    "so_emit (cx_sink demo_cx) (start_event demo_cx demo_config baseline) (False # script, [])
       = (Inr (), co_sink (demo_start script))"
  then show ?thesis
    using sink_contract.emit_ok [OF demo_contract, of "(False # script, [])" "[]"] by simp
qed

lemma demo_no_event: "co_pending_snapshot_event (demo_start script) = None"
  by (simp add: demo_defs)

text \<open>What the control operations return there.\<close>

lemma demo_mark:
  "\<exists>s. do_mark demo_cx ''m'' [] (demo_start []) = Some (Inr (), s)"
proof -
  have "(case do_mark demo_cx ''m'' [] (demo_start []) of Some (Inr u, s) \<Rightarrow> True | _ \<Rightarrow> False)"
    by code_simp
  then show ?thesis by (auto split: option.splits sum.splits)
qed

lemma demo_flush:
  "\<exists>st s. do_flush demo_cx (demo_start []) = Some (Inr st, s)"
proof -
  have "(case do_flush demo_cx (demo_start []) of Some (Inr u, s) \<Rightarrow> True | _ \<Rightarrow> False)"
    by code_simp
  then show ?thesis by (auto split: option.splits sum.splits)
qed

lemma demo_finish:
  "\<exists>s. finish demo_cx ''bye'' (demo_start []) = Some (Inr (), s)"
proof -
  have "(case finish demo_cx ''bye'' (demo_start []) of Some (Inr u, s) \<Rightarrow> True | _ \<Rightarrow> False)"
    by code_simp
  then show ?thesis by (auto split: option.splits sum.splits)
qed

lemma demo_session:
  "\<exists>s. run demo_cx [Notify demo_input, Command (Mark_cmd ''m'' []), Command (Shutdown ''bye'')] (demo_start [])
     = Some ([R_unit (Inr ()), R_unit (Inr ())], s)"
proof -
  have "(case run demo_cx [Notify demo_input, Command (Mark_cmd ''m'' []), Command (Shutdown ''bye'')] (demo_start [])
    of Some (rs, s) \<Rightarrow> rs = [R_unit (Inr ()), R_unit (Inr ())] | None \<Rightarrow> False)"
    by code_simp
  then show ?thesis by (auto split: option.splits)
qed

text \<open>A state with an overflow notice in the accumulator.\<close>

definition demo_overflow :: "(bool list \<times> event list, nat, nat) coordinator" where
  "demo_overflow = (demo_start [])\<lparr>co_audit :=
     apply_input (Report_overflow 0 ''fsevents'' 7) (co_audit (demo_start []))\<rparr>"

lemma demo_overflow_reachable: "reachable demo_cx demo_overflow (snd (co_sink demo_overflow))"
  using reachable.notified [OF demo_reachable [of "[]"], of "Report_overflow 0 ''fsevents'' 7"]
  by (simp add: demo_overflow_def)

lemma demo_overflow_state:
  "co_pending_snapshot_event demo_overflow = None"
  "as_overflows (aa_state (co_audit demo_overflow)) \<noteq> []"
  by (simp_all add: demo_overflow_def demo_no_event report_overflow_def notify_changed_def
      push_overflow_def MAX_OVERFLOW_REPORTS_def Let_def)
    (simp add: demo_defs audit_state_default_def)

lemma demo_overflow_snapshot:
  "\<exists>sn s. do_snapshot demo_cx demo_overflow = (Inr sn, s)"
proof -
  have "(case do_snapshot demo_cx demo_overflow of (Inr u, s) \<Rightarrow> True | _ \<Rightarrow> False)"
    by code_simp
  then show ?thesis by (auto split: prod.splits sum.splits)
qed

end
