(* ===== verification/Coordinator_Props.thy ===== *)
theory Coordinator_Props
  imports Session_Example
begin

text \<open>
  What the control operations of the coordinator promise: the ordering of marks, flushes and the
  end of a session after everything observed before them, the retry of a snapshot, and the
  places where the promise is broken.
\<close>

section \<open>After a settle loop\<close>

definition held_nothing :: "('s, 't, 'j) coordinator \<Rightarrow> bool" where
  "held_nothing s \<longleftrightarrow> co_touched_paths s = [] \<and> co_pending_overflows s = []
     \<and> aa_state (co_audit s) = audit_state_default"

text \<open>A session is stuck-free when a kept snapshot event is always due for a retry.\<close>

definition retry_due :: "('s, 't, 'j) coordinator \<Rightarrow> bool" where
  "retry_due s \<longleftrightarrow> co_pending_snapshot_event s = None \<or> co_pending_snapshot s"

lemma demo_retry_due: "retry_due (demo_start script)"
  by (simp add: retry_due_def demo_no_event)

lemma do_snapshot_ok_event:
  assumes "coord_ok s" and "do_snapshot cx s = (Inr sn, t)"
  shows "co_pending_snapshot_event t = None"
proof (cases "co_pending_snapshot_event s")
  case None
  then show ?thesis
    using assms fresh_snapshot_ok(1) by (fastforce simp: do_snapshot_def settled_def)
next
  case (Some e)
  then obtain sn where "ev_body e = Snapshot sn" using coord_okE [OF assms(1)] by metis
  then show ?thesis using assms(2) Some by (auto simp: do_snapshot_def dest: retry_clears_event)
qed

lemma settle_event_none:
  assumes "settle cx s = Some (Inr u, t)" and "coord_ok s" and "retry_due s"
  shows "co_pending_snapshot_event t = None"
proof -
  have "\<forall>w. (Inr u :: core_error + unit) = Inr w \<longrightarrow> co_pending_snapshot_event t = None"
    using assms(1)
  proof (rule settle_rule [where P = "\<lambda>s. coord_ok s \<and> retry_due s"
        and Q = "\<lambda>r t. \<forall>w. r = Inr w \<longrightarrow> co_pending_snapshot_event t = None"])
    show "coord_ok s \<and> retry_due s" using assms by simp
  next
    fix s x t assume "coord_ok s \<and> retry_due s" "do_snapshot cx s = (Inr x, t)"
    then show "coord_ok (drain_audit t) \<and> retry_due (drain_audit t)"
      using do_snapshot_ok_event coord_ok_do_snapshot coord_ok_drain_audit
      by (fastforce simp: retry_due_def)
  qed (auto simp: retry_due_def)
  then show ?thesis by blast
qed

lemma settle_audit_default:
  assumes "settle cx s = Some (Inr u, t)" and "aa_state (co_audit s) = audit_state_default"
  shows "aa_state (co_audit t) = audit_state_default"
proof -
  have "\<forall>w. (Inr u :: core_error + unit) = Inr w \<longrightarrow> aa_state (co_audit t) = audit_state_default"
    using assms(1)
    by (rule settle_rule [where P = "\<lambda>s. aa_state (co_audit s) = audit_state_default"
          and Q = "\<lambda>r t. \<forall>w. r = Inr w \<longrightarrow> aa_state (co_audit t) = audit_state_default"])
      (simp_all add: assms(2))
  then show ?thesis by blast
qed

lemma settle_held_nothing:
  assumes "settle cx s = Some (Inr u, t)" and "coord_ok s"
    and "aa_state (co_audit s) = audit_state_default"
  shows "held_nothing t"
proof -
  have "coord_ok t" "\<not> co_pending_snapshot t"
    using coord_ok_settle [OF assms(1,2)] settle_ok [OF assms(1)] by simp_all
  then show ?thesis
    using settle_audit_default [OF assms(1,3)] by (auto simp: held_nothing_def coord_ok_def)
qed

lemma retry_due_drain: "retry_due s \<Longrightarrow> retry_due (drain_audit s)"
  by (auto simp: retry_due_def drain_audit_alt merge_batch_fields)

text \<open>
  The shape of a control operation that settles first: from a reachable state it passes through
  a state \<open>t\<close> that holds nothing, whose log reports every path tracked before, and then does
  its own part.
\<close>

lemma settled_operation:
  assumes "reachable cx s es" and "after_settle cx act (drain_audit s) = Some (Inr x, s')"
  obtains t fs where "csteps cx (s, es) (t, es @ fs)" "act t = (Inr x, s')" "held_nothing t"
    "coord_ok t" "session_inv cx t (es @ fs)" "retry_due s \<longrightarrow> co_pending_snapshot_event t = None"
    "\<forall>p. tracked p s es \<longrightarrow> reported p (es @ fs)"
proof -
  note inv = reachable_inv [OF assms(1)]
  have d: "coord_ok (drain_audit s)" by (rule coord_ok_drain_audit [OF inv(1)])
  from assms(2) obtain t where t: "settle cx (drain_audit s) = Some (Inr (), t)" "act t = (Inr x, s')"
    by (auto elim: after_settle_cases)
  obtain es' where st: "csteps cx (s, es) (t, es')"
    using csteps_then [OF drain_steps settle_steps [OF t(1) d]] by blast
  then obtain fs where es': "es' = es @ fs" using csteps_extends by blast
  have hn: "held_nothing t" by (rule settle_held_nothing [OF t(1) d]) simp
  have si: "session_inv cx t (es @ fs)"
    using csteps_session_inv [OF st inv(2)] es' by simp
  have rep: "reported p (es @ fs)" if "tracked p s es" for p
  proof -
    have "audit_kept p s es" using inv(2) that by (simp add: audit_kept_iff session_inv_def)
    with st have "audit_kept p t es'"
      by (rule csteps_invariant [where P = "audit_kept p"]) (rule cstep_audit_kept)
    then have "tracked p t (es @ fs)" using es' by (simp add: audit_kept_iff)
    then show ?thesis using hn by (auto simp: held_nothing_def intro: tracked_reported)
  qed
  show thesis
    using that [of t fs] st es' t(2) hn coord_ok_settle [OF t(1) d] si rep
      settle_event_none [OF t(1) d] retry_due_drain by blast
qed

context sink_contract
begin

lemma settled_accepted:
  assumes "csteps cx (s, es) (t, es @ fs)" and "cx_sink cx = ops" and "accepted (co_sink s) es"
  shows "accepted (co_sink t) (es @ fs)"
  using csteps_accepted [OF assms] .

end

section \<open>Marks\<close>

lemma mark_shape:
  assumes "reachable cx s es" and "do_mark cx label meta s = Some (Inr u, s')"
  obtains fs e t where "csteps cx (s, es) (s', es @ fs @ [e])"
    "ev_body e = Mark \<lparr>mk_label = label, mk_meta = meta, mk_ref_op = op_id (co_recorder t)\<rparr>"
    "session_inv cx t (es @ fs)" "retry_due s \<longrightarrow> co_pending_snapshot_event t = None"
    "\<forall>p. tracked p s es \<longrightarrow> reported p (es @ fs)"
proof -
  obtain t fs where
    t: "csteps cx (s, es) (t, es @ fs)"
      "emit cx (Mark \<lparr>mk_label = label, mk_meta = meta, mk_ref_op = op_id (co_recorder t)\<rparr>) t = (Inr u, s')"
      "held_nothing t" "coord_ok t"
      "session_inv cx t (es @ fs)" "retry_due s \<longrightarrow> co_pending_snapshot_event t = None"
      "\<forall>p. tracked p s es \<longrightarrow> reported p (es @ fs)"
    by (rule settled_operation [OF assms(1) assms(2) [unfolded do_mark_def]])
  let ?b = "Mark \<lparr>mk_label = label, mk_meta = meta, mk_ref_op = op_id (co_recorder t)\<rparr>"
  have "csteps cx (s, es) (s', es @ fs @ [new_event cx ?b t])"
    using rtranclp_trans [OF t(1) emit_plain_steps [OF t(2)]] by simp
  moreover have "ev_body (new_event cx ?b t) = ?b" by (simp add: new_event_def)
  ultimately show thesis using that t(5-7) by blast
qed




section \<open>Flushes\<close>

lemma flush_durable_shape:
  assumes "flush_durable cx t = (Inr u, s')"
  obtains e k where "csteps cx (t, es) (s', es @ [e])" "ev_seq e = co_seq t"
    "ev_body e = Flush \<lparr>fl_op = op_id (co_recorder t), fl_through_seq = co_seq t\<rparr>"
    "csteps cx (t, es) (k, es @ [e])"
    "so_flush_session (cx_sink cx)
       \<lparr>fr_shadow_root = cf_shadow_root (co_config t), fr_last_seq = co_seq t,
        fr_last_op = op_id (co_recorder t), fr_checkpoint = commit_id (co_recorder t)\<rparr> (co_sink k)
       = (Inr (), co_sink s')" "co_recorder s' = co_recorder t"
    "co_seq s' = co_seq t + 1" "co_snapshots s' = co_snapshots t" "held_nothing s' = held_nothing t"
proof -
  let ?b = "Flush \<lparr>fl_op = op_id (co_recorder t), fl_through_seq = co_seq t\<rparr>"
  obtain r1 s1 where e: "emit cx ?b t = (r1, s1)" by (rule prod.exhaust)
  then have "r1 = Inr ()" using assms by (cases r1) (auto simp: flush_durable_def Let_def)
  with e have e: "emit cx ?b t = (Inr (), s1)" by simp
  from e obtain k0 where s1: "s1 = t\<lparr>co_sink := k0, co_seq := co_seq t + 1, co_clock := Suc (co_clock t)\<rparr>"
    by (rule emit_accepts)
  let ?fr = "\<lparr>fr_shadow_root = cf_shadow_root (co_config t), fr_last_seq = co_seq t,
      fr_last_op = op_id (co_recorder t), fr_checkpoint = commit_id (co_recorder t)\<rparr>"
  obtain y k where k: "so_flush_session (cx_sink cx) ?fr (co_sink s1) = (y, k)" by (rule prod.exhaust)
  then have ok: "y = Inr ()" "s' = s1\<lparr>co_sink := k\<rparr>"
    using assms e s1 by (cases y; auto simp: flush_durable_def Let_def)+
  have st: "csteps cx (t, es) (s1, es @ [new_event cx ?b t])" using emit_plain_steps [OF e, of es] by simp
  also have "cstep cx (s1, es @ [new_event cx ?b t]) (s', es @ [new_event cx ?b t])"
    using flush_sink [OF k] ok by simp
  finally have "csteps cx (t, es) (s', es @ [new_event cx ?b t])" .
  moreover have "ev_body (new_event cx ?b t) = ?b" "ev_seq (new_event cx ?b t) = co_seq t"
    by (simp_all add: new_event_def)
  moreover have "so_flush_session (cx_sink cx) ?fr (co_sink s1) = (Inr (), co_sink s')"
    using k ok by simp
  moreover have "co_seq s' = co_seq t + 1" "co_snapshots s' = co_snapshots t" "held_nothing s' = held_nothing t"
    "co_recorder s' = co_recorder t"
    using ok s1 by (simp_all add: held_nothing_def)
  ultimately show thesis using that st by blast
qed



section \<open>The end of a session\<close>

lemma finish_shape:
  assumes "reachable cx s es" and "finish cx reason s = Some (Inr u, s')"
  obtains fs e1 e2 t k r where "csteps cx (s, es) (s', es @ fs @ [e1, e2])"
    "ev_body e1 = Session_end \<lparr>se_final_op = op_id (co_recorder t), se_reason = reason,
       se_snapshots = co_snapshots t, se_events = co_seq t\<rparr>"
    "ev_body e2 = Flush \<lparr>fl_op = op_id (co_recorder t), fl_through_seq = co_seq t + 1\<rparr>"
    "session_inv cx t (es @ fs)" "retry_due s \<longrightarrow> co_pending_snapshot_event t = None"
    "\<forall>p. tracked p s es \<longrightarrow> reported p (es @ fs)" "held_nothing s'"
    "csteps cx (s, es) (k, es @ fs @ [e1, e2])"
    "so_flush_session (cx_sink cx) r (co_sink k) = (Inr (), co_sink s')"
    "fr_checkpoint r = commit_id (co_recorder s')"
proof -
  obtain t fs where
    t: "csteps cx (s, es) (t, es @ fs)" "end_session cx reason t = (Inr u, s')" "held_nothing t"
      "coord_ok t" "session_inv cx t (es @ fs)" "retry_due s \<longrightarrow> co_pending_snapshot_event t = None"
      "\<forall>p. tracked p s es \<longrightarrow> reported p (es @ fs)"
    by (rule settled_operation [OF assms(1) assms(2) [unfolded finish_def]])
  let ?b = "Session_end \<lparr>se_final_op = op_id (co_recorder t), se_reason = reason,
       se_snapshots = co_snapshots t, se_events = co_seq t\<rparr>"
  from t(2) obtain v t1 where e: "emit cx ?b t = (Inr v, t1)" and f: "flush_durable cx t1 = (Inr u, s')"
    unfolding end_session_def by (auto elim!: bindE_InrE)
  from e obtain k0 where t1: "t1 = t\<lparr>co_sink := k0, co_seq := co_seq t + 1, co_clock := Suc (co_clock t)\<rparr>"
    by (rule emit_accepts)
  from flush_durable_shape [OF f] obtain e2 k r where
    e2: "csteps cx (t1, es @ fs @ [new_event cx ?b t]) (s', (es @ fs @ [new_event cx ?b t]) @ [e2])"
      "ev_body e2 = Flush \<lparr>fl_op = op_id (co_recorder t1), fl_through_seq = co_seq t1\<rparr>"
      "held_nothing s' = held_nothing t1"
      "csteps cx (t1, es @ fs @ [new_event cx ?b t]) (k, (es @ fs @ [new_event cx ?b t]) @ [e2])"
      "so_flush_session (cx_sink cx) r (co_sink k) = (Inr (), co_sink s')"
      "fr_checkpoint r = commit_id (co_recorder s')"
    by (metis flush_request.select_convs(4))
  have "csteps cx (t, es @ fs) (t1, (es @ fs) @ [new_event cx ?b t])"
    using emit_plain_steps [OF e, of "es @ fs"] by simp
  with t(1) have "csteps cx (s, es) (t1, (es @ fs) @ [new_event cx ?b t])" by (rule rtranclp_trans)
  with e2(1,4) have "csteps cx (s, es) (s', es @ fs @ [new_event cx ?b t, e2])"
    "csteps cx (s, es) (k, es @ fs @ [new_event cx ?b t, e2])"
    using rtranclp_trans by fastforce+
  moreover have "ev_body (new_event cx ?b t) = ?b" by (simp add: new_event_def)
  moreover have "held_nothing s'" using e2(3) t(3) t1 by (simp add: held_nothing_def)
  moreover have "ev_body e2 = Flush \<lparr>fl_op = op_id (co_recorder t), fl_through_seq = co_seq t + 1\<rparr>"
    using e2(2) t1 by simp
  ultimately show thesis using that t(5-7) e2(5,6) by blast
qed




section \<open>Whole sessions\<close>

lemma session_log:
  assumes "sink_contract (cx_sink cx) accepted" and "accepted sink []"
    and "audit_ok (aa_state acc)" and "initialize cx config sink acc arrivals w = Inr s0"
    and "run cx inputs s0 = Some (replies, s)"
  obtains es where "accepted (co_sink s) es" "session_inv cx s es" "co_config s = config"
proof -
  obtain baseline where b: "reachable cx s0 [start_event cx config baseline]"
    "so_emit (cx_sink cx) (start_event cx config baseline) sink = (Inr (), co_sink s0)"
    "co_config s0 = config"
    by (rule initialize_reachable [OF assms(3,4)])
  let ?e = "start_event cx config baseline"
  note inv = reachable_inv [OF b(1)]
  have acc: "accepted (co_sink s0) [?e]"
    using sink_contract.emit_ok [OF assms(1,2) b(2)] by simp
  from run_steps [OF assms(5) inv(1)] obtain es' where st: "csteps cx (s0, [?e]) (s, es')" by blast
  have "co_config s = config"
    using csteps_invariant [where P = "\<lambda>s es. co_config s = config", OF st b(3)] cstep_config by metis
  then show thesis
    using that csteps_session_inv [OF st inv(2)]
      sink_contract.csteps_accepted [OF assms(1) st refl acc] by blast
qed

text \<open>
  C1: The log of a whole session, for every sequence of commands and notifications: the accepted
  events are numbered 0, 1, 2, ... without a gap, all belong to the session and to the schema
  version, start with \<open>session_start\<close>, and the coordinator's counters agree with them.
\<close>

theorem session_log_contiguous:
  assumes "sink_contract (cx_sink cx) accepted" and "accepted sink []"
    and "audit_ok (aa_state acc)" and "initialize cx config sink acc arrivals w = Inr s0"
    and "run cx inputs s0 = Some (replies, s)"
  shows "\<exists>e es. accepted (co_sink s) (e # es) \<and> (\<exists>v. ev_body e = Session_start v)
    \<and> stream_ok (cf_session_id config) SCHEMA_VERSION (e # es)
    \<and> co_seq s = word_of_nat (length (e # es))
    \<and> co_snapshots s = word_of_nat (snapshot_count (e # es))"
proof -
  obtain es where es: "accepted (co_sink s) es" "session_inv cx s es" "co_config s = config"
    by (rule session_log [OF assms])
  then obtain e fs where e: "es = e # fs" "\<exists>v. ev_body e = Session_start v"
    by (auto simp: session_inv_def)
  from es(2) have "numbered s (e # fs)" "co_snapshots s = word_of_nat (snapshot_count (e # fs))"
    unfolding session_inv_def e(1) by blast+
  then show ?thesis
    using es(1,3) e by (intro exI [of _ e] exI [of _ fs]) (simp only: numbered_def simp_thms)
qed

theorem session_log_contiguous_witness:
  "\<exists>s. run demo_cx [Notify demo_input, Command (Mark_cmd ''m'' []), Command (Shutdown ''bye'')]
      (demo_start []) = Some ([R_unit (Inr ()), R_unit (Inr ())], s)
    \<and> (\<exists>e es. snd (co_sink s) = e # es \<and> (\<exists>v. ev_body e = Session_start v)
        \<and> stream_ok (cf_session_id demo_config) SCHEMA_VERSION (e # es)
        \<and> co_seq s = word_of_nat (length (e # es))
        \<and> co_snapshots s = word_of_nat (snapshot_count (e # es)))"
proof -
  obtain s where s: "run demo_cx [Notify demo_input, Command (Mark_cmd ''m'' []), Command (Shutdown ''bye'')]
      (demo_start []) = Some ([R_unit (Inr ()), R_unit (Inr ())], s)"
    using demo_session by blast
  show ?thesis
    using s session_log_contiguous [OF demo_contract snd_conv demo_accumulator demo_init s]
    by (intro exI [of _ s] conjI)
qed

text \<open>
  The snapshots of a session form one chain: the parent operation of every snapshot event is
  the operation of the snapshot (or the baseline) published last before it, whatever failed and
  was retried in between.
\<close>

theorem snapshots_chain:
  assumes "sink_contract (cx_sink cx) accepted" and "accepted sink []"
    and "audit_ok (aa_state acc)" and "initialize cx config sink acc arrivals w = Inr s0"
    and "run cx inputs s0 = Some (replies, s)" and "finish_safe (cx_jj cx)"
  shows "\<exists>es. accepted (co_sink s) es \<and> chained None es"
proof -
  obtain es where "accepted (co_sink s) es" "session_inv cx s es" "co_config s = config"
    by (rule session_log [OF assms(1-5)])
  then show ?thesis using assms(6) by (auto simp: session_inv_def op_chain_def)
qed

theorem snapshots_chain_witness:
  "\<exists>s replies. run demo_cx [Notify demo_input, Command (Mark_cmd ''m'' []), Command (Shutdown ''bye'')]
      (demo_start []) = Some (replies, s) \<and> chained None (snd (co_sink s))"
proof -
  obtain s where s: "run demo_cx [Notify demo_input, Command (Mark_cmd ''m'' []), Command (Shutdown ''bye'')]
      (demo_start []) = Some ([R_unit (Inr ()), R_unit (Inr ())], s)"
    using demo_session by blast
  show ?thesis
    using snapshots_chain [OF demo_contract _ demo_accumulator demo_init s demo_finish_safe] s by auto
qed

text \<open>
  C2: The coordinator never hangs: from a successful start, every finite sequence of commands,
  with every finite schedule of file notifications arriving in between, is processed to the end
  (the settle loops of mark, flush, resume and shutdown all return).
\<close>

theorem coordinator_returns:
  assumes "audit_ok (aa_state acc)" and "initialize cx config sink acc arrivals w = Inr s0"
  shows "\<exists>replies s. run cx inputs s0 = Some (replies, s)"
proof -
  obtain baseline where "reachable cx s0 [start_event cx config baseline]"
    by (rule initialize_reachable [OF assms])
  then have "coord_ok s0" by (rule reachable_inv)
  then show ?thesis using run_total_ok [of s0 cx inputs] by (metis surj_pair)
qed

theorem coordinator_returns_witness:
  "\<exists>replies s. run demo_cx [Command Snap, Command Flush_cmd] (demo_start [True, False, True]) = Some (replies, s)"
  by (rule coordinator_returns [OF demo_accumulator demo_init])

lemma run_shutdown_clean:
  assumes "run cx (ins @ [Command (Shutdown reason)]) s = Some (rs, s')" and "coord_ok s"
    and "\<forall>r. Command (Shutdown r) \<notin> set ins"
  shows "\<exists>rs0 x. rs = rs0 @ [R_unit x] \<and> (\<forall>u. x = Inr u \<longrightarrow> held_nothing s')"
  using assms
proof (induction ins arbitrary: s rs)
  case Nil
  then obtain x where f: "finish cx reason s = Some (x, s')" "rs = [R_unit x]"
    by (auto simp: map_reply_def split: option.splits)
  have "held_nothing s'" if "x = Inr u" for u
  proof -
    have d: "coord_ok (drain_audit s)" by (rule coord_ok_drain_audit [OF Nil.prems(2)])
    from f(1) that obtain t where
      t: "settle cx (drain_audit s) = Some (Inr (), t)" "end_session cx reason t = (Inr u, s')"
      by (auto simp: finish_def elim: after_settle_cases)
    have "held_nothing t" by (rule settle_held_nothing [OF t(1) d]) simp
    from t(2) obtain v t1 b where e: "emit cx b t = (Inr v, t1)" and g: "flush_durable cx t1 = (Inr u, s')"
      unfolding end_session_def by (auto elim!: bindE_InrE)
    have "held_nothing t1"
      using emit_frame [OF e] \<open>held_nothing t\<close> by (simp add: held_nothing_def emits_only_def)
    then show ?thesis using flush_durable_shape [OF g] by metis
  qed
  then show ?case using f(2) by simp
next
  case (Cons i ins)
  show ?case
  proof (cases i)
    case (Notify n)
    then show ?thesis
      using Cons.IH [of "s\<lparr>co_audit := apply_input n (co_audit s)\<rparr>" rs] Cons.prems
        coord_ok_notify [OF Cons.prems(2)] by simp
  next
    case (Command c)
    obtain r t where h: "handle_command cx c s = Some (r, t)"
      using Cons.prems(1) Command by (auto split: option.splits)
    have ok: "coord_ok t" by (rule coord_ok_handle_command [OF h Cons.prems(2)])
    have ns: "\<nexists>reason. c = Shutdown reason" using Cons.prems(3) Command by auto
    then obtain rs1 where rs1: "run cx (ins @ [Command (Shutdown reason)]) t = Some (rs1, s')" "rs = r # rs1"
      using Cons.prems(1) Command h by (cases c) (auto split: option.splits)
    then show ?thesis using Cons.IH [OF rs1(1) ok] Cons.prems(3) by auto
  qed
qed

text \<open>
  C6: Nothing observed is lost: if a notification for a path reaches the recorder, and the
  session is later shut down successfully, then the log accounts for that path (a
  \<open>touched_paths\<close> event lists it, or the overflow of the path limit is reported), whatever
  commands and failures lie in between.
\<close>

theorem observed_paths_reported:
  assumes "sink_contract (cx_sink cx) accepted" and "reachable cx s es" and "accepted (co_sink s) es"
    and "p \<in> tp_path ` set paths"
    and "\<forall>r. Command (Shutdown r) \<notin> set ins"
    and "run cx (Notify (Observe ts i paths raw) # ins @ [Command (Shutdown reason)]) s
           = Some (replies @ [R_unit (Inr u)], s')"
  shows "\<exists>fs. accepted (co_sink s') (es @ fs) \<and> reported p (es @ fs)"
proof -
  let ?n = "Observe ts i paths raw"
  let ?s = "s\<lparr>co_audit := apply_input ?n (co_audit s)\<rparr>"
  note inv = reachable_inv [OF assms(2)]
  have ok: "coord_ok ?s" by (rule coord_ok_notify [OF inv(1)])
  have r: "run cx (ins @ [Command (Shutdown reason)]) ?s = Some (replies @ [R_unit (Inr u)], s')"
    using assms(6) by simp
  have "audit_kept p ?s es"
    using inv(2) observe_tracks [OF assms(4), of ts i raw "co_audit s"]
    by (auto simp: audit_kept_iff session_inv_def limit_inv_def limit_noticed_def tracked_def audit_tracks_def)
  moreover obtain es' where st: "csteps cx (?s, es) (s', es')" using run_steps [OF r ok] by blast
  ultimately have "audit_kept p s' es'"
    using csteps_invariant [where P = "audit_kept p", OF st] cstep_audit_kept by blast
  moreover have "held_nothing s'" using run_shutdown_clean [OF r ok assms(5)] by auto
  ultimately have "reported p es'"
    by (auto simp: audit_kept_iff held_nothing_def intro: tracked_reported)
  moreover have "accepted (co_sink s') es'"
    using sink_contract.csteps_accepted [OF assms(1) st refl] assms(3) by simp
  moreover obtain fs where "es' = es @ fs" using csteps_extends [OF st] by blast
  ultimately show ?thesis by blast
qed

theorem observed_paths_reported_witness:
  "\<exists>s replies. run demo_cx [Notify demo_input, Command (Mark_cmd ''m'' []), Command (Shutdown ''bye'')]
      (demo_start []) = Some (replies, s) \<and> reported ''a'' (snd (co_sink s))"
proof -
  obtain s where s: "run demo_cx [Notify demo_input, Command (Mark_cmd ''m'' []), Command (Shutdown ''bye'')]
      (demo_start []) = Some ([R_unit (Inr ()), R_unit (Inr ())], s)"
    using demo_session by blast
  have "\<exists>fs. snd (co_sink s) = snd (co_sink (demo_start [])) @ fs
      \<and> reported ''a'' (snd (co_sink (demo_start [])) @ fs)"
    by (rule observed_paths_reported [OF demo_contract demo_reachable refl, where
          paths = "[\<lparr>tp_path = ''a'', tp_operations = [Modify]\<rparr>]" and ts = "''now''" and i = 0 and raw = 1
          and ins = "[Command (Mark_cmd ''m'' [])]" and reason = "''bye''" and replies = "[R_unit (Inr ())]"
          and u = "()"])
      (use s in \<open>simp_all add: demo_input_def\<close>)
  then show ?thesis using s by auto
qed

section \<open>Retrying a snapshot\<close>



section \<open>A manual snapshot can wedge the session\<close>

text \<open>Draining a state that holds nothing changes nothing.\<close>

lemma drain_audit_id:
  assumes "co_arrivals s = []" and "held_nothing s" and "co_audit_started_at s = None"
  shows "drain_audit s = s"
proof -
  have a: "arrive s = s" using assms(1) by (simp add: arrive_def)
  have b: "drain (co_audit s) = (\<lparr>ab_paths = [], ab_raw_events = 0, ab_started_at = None, ab_overflows = []\<rparr>, co_audit s)"
    using assms(2) by (simp add: drain_def held_nothing_def audit_state_default_def)
  show ?thesis
    unfolding drain_audit_def using assms(2,3)
    by (simp add: a b merge_batch_def held_nothing_def)
qed

lemma settle_not_pending: "\<not> co_pending_snapshot s \<Longrightarrow> settle cx s = Some (Inr (), s)"
  by (simp add: settle.simps)

definition wedged :: "('s, 't, 'j) coordinator \<Rightarrow> bool" where
  "wedged s \<longleftrightarrow> (\<exists>e sn. co_pending_snapshot_event s = Some e \<and> ev_body e = Snapshot sn
     \<and> ev_seq e \<noteq> co_seq s)"

lemma wedged_snapshot: "wedged s \<Longrightarrow> do_snapshot cx s = (Inl Sequence_changed, s)"
  by (auto simp: wedged_def do_snapshot_def retry_snapshot_def emit_exact_def)

lemma wedged_drain [simp]: "wedged (drain_audit s) = wedged s"
  by (simp add: wedged_def)



lemma after_settle_wedged:
  assumes "wedged s" and "co_pending_snapshot (drain_audit s)"
  shows "after_settle cx act (drain_audit s) = Some (Inl Sequence_changed, drain_audit s)"
  using assms wedged_snapshot [of "drain_audit s" cx] by (simp add: after_settle_def settle.simps)

text \<open>
  The consequence for a wedged session: as soon as any file change is observed, marks,
  flushes and the shutdown itself fail, so the session can no longer be closed.
\<close>

theorem wedged_session_cannot_close:
  assumes "wedged s" and "co_pending_snapshot (drain_audit s)"
  shows "do_mark cx label meta s = Some (Inl Sequence_changed, drain_audit s)
    \<and> do_flush cx s = Some (Inl Sequence_changed, drain_audit s)
    \<and> finish cx reason s = Some (Inl Sequence_changed, drain_audit s)"
  unfolding do_mark_def do_flush_def finish_def by (intro conjI after_settle_wedged [OF assms])

theorem wedged_session_cannot_close_witness:
  "\<exists>s :: (bool list \<times> event list, nat, nat) coordinator. wedged s
    \<and> finish demo_cx ''bye'' s = Some (Inl Sequence_changed, drain_audit s)"
proof -
  let ?s = "(demo_start [])\<lparr>co_pending_snapshot_event :=
    Some (event_at ''demo'' 0 ''t'' (Snapshot undefined)), co_pending_snapshot := True\<rparr>"
  have "co_seq (demo_start []) = 1" by (simp add: demo_defs)
  then have "wedged ?s" by (simp add: wedged_def)
  moreover have "co_pending_snapshot (drain_audit ?s)" by (simp add: drain_audit_alt merge_batch_fields)
  ultimately show ?thesis using wedged_session_cannot_close [of ?s demo_cx] by blast
qed

lemma do_snapshot_err_retry_due:
  assumes "coord_ok s" and "retry_due s" and "co_pending_snapshot (drain_audit s)"
    and "do_snapshot cx s = (Inl e, t)"
  shows "retry_due t"
proof (cases "co_pending_snapshot_event s")
  case (Some ev)
  then obtain sn where sn: "ev_body ev = Snapshot sn" using coord_okE [OF assms(1)] by metis
  have "co_pending_snapshot s" using assms(2) Some by (simp add: retry_due_def)
  moreover have "retry_snapshot cx ev sn s = (Inl e, t)" using assms(4) Some sn by (simp add: do_snapshot_def)
  ultimately have "co_pending_snapshot t"
    by (auto elim!: retry_snapshot_cases simp: emits_only_def)
  then show ?thesis by (simp add: retry_due_def)
next
  case None
  with assms(4) have "fresh_snapshot cx s = (Inl e, t)" by (simp add: do_snapshot_def)
  then have "co_pending_snapshot t"
    using assms(3)
    by (cases rule: fresh_snapshot_cases)
      (auto elim!: emit_overflows_cases emit_audit_cases publish_snapshot_cases
        dest!: capture_now_frame simp: emits_only_def clear_audit_def
        dest: arg_cong [where f = co_pending_snapshot])
  then show ?thesis by (simp add: retry_due_def)
qed


lemma do_snapshot_retry_due:
  assumes "coord_ok s" and "retry_due s" and "co_pending_snapshot (drain_audit s)"
    and "do_snapshot cx s = (r, t)"
  shows "retry_due t"
  using assms do_snapshot_err_retry_due do_snapshot_ok_event
  by (cases r) (auto simp: retry_due_def)

lemma settle_retry_due:
  assumes "settle cx s = Some (r, t)" and "coord_ok s" and "retry_due s"
  shows "retry_due t"
  using assms(1)
proof (rule settle_rule [where P = "\<lambda>s. coord_ok s \<and> retry_due s" and Q = "\<lambda>r. retry_due"])
  show "coord_ok s \<and> retry_due s" using assms by simp
next
  fix s x t
  assume s: "coord_ok s \<and> retry_due s" "co_pending_snapshot s" and d: "do_snapshot cx s = (Inr x, t)"
  then show "coord_ok (drain_audit t) \<and> retry_due (drain_audit t)"
    using coord_ok_drain_audit [OF coord_ok_do_snapshot [OF _ d]] do_snapshot_ok_event [OF _ d]
    by (auto simp: retry_due_def)
next
  fix s e t
  assume s: "coord_ok s \<and> retry_due s" "co_pending_snapshot s" and d: "do_snapshot cx s = (Inl e, t)"
  then have "co_pending_snapshot (drain_audit s)" by (simp add: drain_audit_alt merge_batch_fields)
  then show "retry_due t" using s d do_snapshot_err_retry_due by blast
qed blast

lemma after_settle_retry_due:
  assumes "after_settle cx act s = Some (r, s')" and "coord_ok s" and "retry_due s"
    and "\<And>t r s'. retry_due t \<Longrightarrow> act t = (r, s') \<Longrightarrow> retry_due s'"
  shows "retry_due s'"
  using assms(1) by (cases rule: after_settle_cases) (auto dest: settle_retry_due intro: assms)

lemma emit_retry_due: "emit cx b s = (r, s') \<Longrightarrow> retry_due s' = retry_due s"
  by (drule emit_frame) (simp add: retry_due_def emits_only_def)

lemma flush_durable_retry_due: "flush_durable cx s = (r, s') \<Longrightarrow> retry_due s \<Longrightarrow> retry_due s'"
  unfolding flush_durable_def
  by (auto simp: Let_def split: prod.splits sum.splits dest!: emit_retry_due) (simp_all add: retry_due_def)

text \<open>
  Only a manual snapshot of a clean session can wedge it: status, pause, resume, marks,
  flushes and the shutdown, and a snapshot taken while file changes are pending, keep every
  retained snapshot event due for a retry, on success and on every error.
\<close>

theorem only_clean_snap_wedges:
  assumes "reachable cx s es" and "retry_due s"
    and "c = Snap \<Longrightarrow> co_pending_snapshot (drain_audit s)"
    and "handle_command cx c s = Some (r, s')"
  shows "retry_due s'"
proof -
  note ok = reachable_inv(1) [OF assms(1)]
  note d = coord_ok_drain_audit [OF ok] retry_due_drain [OF assms(2)]
  have paused: "retry_due (s\<lparr>co_paused := p\<rparr>) = retry_due s" for s :: "('a, 'b, 'c) coordinator" and p
    by (simp add: retry_due_def)
  show ?thesis
  proof (cases c)
    case (Mark_cmd label meta)
    then have "\<exists>x. do_mark cx label meta s = Some (x, s')" using assms(4) by (auto dest: map_reply_SomeD)
    then show ?thesis
      unfolding do_mark_def by (auto elim!: after_settle_retry_due simp: d dest: emit_retry_due)
  next
    case Flush_cmd
    then have "\<exists>x. do_flush cx s = Some (x, s')" using assms(4) by (auto dest: map_reply_SomeD)
    then show ?thesis
      unfolding do_flush_def
      by (auto elim!: after_settle_retry_due simp: d bindE_def split: prod.splits sum.splits
          dest: flush_durable_retry_due)
  next
    case (Shutdown reason)
    then have "\<exists>x. finish cx reason s = Some (x, s')" using assms(4) by (auto dest: map_reply_SomeD)
    then show ?thesis
      unfolding finish_def end_session_def
      by (auto elim!: after_settle_retry_due simp: d bindE_def split: prod.splits sum.splits
          dest: flush_durable_retry_due dest!: emit_retry_due)
  next
    case Resume
    then have "\<exists>x. do_resume cx s = Some (x, s')" using assms(4) by (auto dest: map_reply_SomeD)
    then show ?thesis
      unfolding do_resume_def by (auto elim!: after_settle_retry_due simp: d paused)
  next
    case Snap
    then have "\<exists>x. do_snapshot cx s = (x, s')" using assms(4) by (auto dest: map_reply_SomeD)
    then show ?thesis using do_snapshot_retry_due [OF ok assms(2) assms(3) [OF Snap]] by blast
  qed (use assms(2,4) paused in \<open>auto simp: Let_def\<close>)
qed

theorem only_clean_snap_wedges_witness:
  "\<exists>s. do_mark demo_cx ''m'' [] (demo_start []) = Some (Inr (), s) \<and> retry_due s"
proof -
  obtain s where s: "do_mark demo_cx ''m'' [] (demo_start []) = Some (Inr (), s)"
    using demo_mark by blast
  then have h: "handle_command demo_cx (Mark_cmd ''m'' []) (demo_start []) = Some (R_unit (Inr ()), s)"
    by (simp add: map_reply_def)
  show ?thesis
    using only_clean_snap_wedges [OF demo_reachable demo_retry_due _ h] s by simp
qed

section \<open>Overflows and full scans\<close>

lemma commit_capture_generation:
  "commit_capture jo tree cs st tr r = (Inr sn, r') \<Longrightarrow> jr_state_generation r' = jr_state_generation r"
  unfolding commit_capture_def Let_def
  by (auto elim!: bindE_InrE split: option.splits dest!: lift_jj_frame)

lemma capture_generation:
  assumes "capture jo fs mx r = (Inr sn, r')"
  shows "jr_state_generation r' = jr_state_generation r + (if fs then 1 else 0)"
  using assms unfolding capture_def
  by (auto elim!: bindE_InrE split: sum.splits
      dest!: renew_working_copy_frame snapshot_tree_frame commit_capture_generation)

text \<open>An overflow notice waits in the accumulator or the coordinator until an event reports it.\<close>

definition notice_kept ::
  "overflow_notice \<Rightarrow> ('s, 't, 'j) coordinator \<Rightarrow> event list \<Rightarrow> bool" where
  "notice_kept n s es \<longleftrightarrow>
     n \<in> set (as_overflows (aa_state (co_audit s))) \<or> n \<in> set (co_pending_overflows s)
     \<or> (\<exists>e \<in> set es. ev_body e = overflow_body n)"

lemma apply_input_overflows:
  "set (as_overflows (aa_state acc)) \<subseteq> set (as_overflows (aa_state (apply_input i acc)))"
  by (cases i)
    (auto simp: observe_def notify_changed_def report_overflow_def push_overflow_def Let_def)

lemma apply_inputs_overflows:
  "set (as_overflows (aa_state acc)) \<subseteq> set (as_overflows (aa_state (apply_inputs is acc)))"
  unfolding apply_inputs_def
proof (induction "is" arbitrary: acc)
  case (Cons i "is")
  then show ?case using apply_input_overflows [of acc i] by fastforce
qed simp

lemma drain_audit_overflows:
  "set (as_overflows (aa_state (co_audit s))) \<union> set (co_pending_overflows s)
     \<subseteq> set (co_pending_overflows (drain_audit s))"
  "co_force_full_scan s \<or> as_overflows (aa_state (co_audit s)) \<noteq> [] \<Longrightarrow> co_force_full_scan (drain_audit s)"
proof -
  have a: "set (as_overflows (aa_state (co_audit s))) \<subseteq> set (as_overflows (aa_state (co_audit (arrive s))))"
    using apply_inputs_overflows by (simp add: arrive_def split: list.splits)
  let ?t = "(arrive s)\<lparr>co_audit := snd (drain (co_audit (arrive s)))\<rparr>"
  let ?b = "fst (drain (co_audit (arrive s)))"
  let ?w = "?t\<lparr>co_audit_started_at :=
    (case co_audit_started_at ?t of None \<Rightarrow> ab_started_at ?b | Some t \<Rightarrow> Some t)\<rparr>"
  obtain ns where "co_pending_overflows (merged_paths ?b ?t) = co_pending_overflows s @ ns"
    using merge_paths_overflows [of "ab_raw_events ?b" "ab_paths ?b" ?w] by (auto simp: merged_paths_def)
  then show "set (as_overflows (aa_state (co_audit s))) \<union> set (co_pending_overflows s)
     \<subseteq> set (co_pending_overflows (drain_audit s))"
    using a by (auto simp: drain_audit_alt merge_batch_fields)
  show "co_force_full_scan (drain_audit s)"
    if "co_force_full_scan s \<or> as_overflows (aa_state (co_audit s)) \<noteq> []"
    using that a by (auto simp: drain_audit_alt merge_batch_fields)
qed

lemma cstep_notice_kept:
  assumes "cstep cx (s, es) (s', es')" and "notice_kept n s es"
  shows "notice_kept n s' es'"
  using assms(1)
proof (cases rule: cstep.cases)
  case (notify i)
  then show ?thesis using assms(2) apply_input_overflows [of "co_audit s" i] by (auto simp: notice_kept_def)
next
  case drain
  then show ?thesis using assms(2) drain_audit_overflows(1) [of s] by (auto simp: notice_kept_def)
qed (use assms(2) in \<open>auto simp: notice_kept_def\<close>)



text \<open>
  A divergence from the documented recovery. When the coordinator's own path table is full,
  the path a drain cannot keep is announced by an overflow notice whose event promises a full
  scan as its recovery, but (unlike the accumulator's overflows) it does not force one.
\<close>

theorem own_path_limit_forces_no_scan:
  assumes "length (co_touched_paths s) = MAX_AUDIT_PATHS" and "\<not> co_path_limit_reported s"
    and "co_arrivals s = []" and "\<not> co_force_full_scan s"
    and "as_paths (aa_state (co_audit s)) = [(p, ops)]"
    and "as_overflows (aa_state (co_audit s)) = []" and "\<not> as_path_limit_reported (aa_state (co_audit s))"
    and "p \<notin> keys (co_touched_paths s)"
  shows "path_limit_source \<in> on_source ` set (co_pending_overflows (drain_audit s))
    \<and> p \<notin> keys (co_touched_paths (drain_audit s))
    \<and> co_pending_snapshot (drain_audit s) \<and> \<not> co_force_full_scan (drain_audit s)"
proof -
  have a: "arrive s = s" using assms(3) by (simp add: arrive_def)
  have p: "map_of (co_touched_paths s) p = None" using assms(8) by (simp add: keys_def map_of_eq_None_iff)
  show ?thesis
    using assms(1,2,4-8) p
    by (simp add: drain_audit_alt a merge_batch_fields merged_paths_def merge_path_def)
qed

theorem own_path_limit_forces_no_scan_witness:
  "\<exists>s :: (bool list \<times> event list, nat, nat) coordinator.
     path_limit_source \<in> on_source ` set (co_pending_overflows (drain_audit s))
     \<and> \<not> co_force_full_scan (drain_audit s)"
proof -
  let ?m = "map (\<lambda>n. (replicate n (CHR ''a''), [Modify])) [0..<MAX_AUDIT_PATHS]"
  let ?acc = "accumulator_new\<lparr>aa_state := audit_state_default\<lparr>as_paths := [(''b'', [Modify])]\<rparr>\<rparr>"
  let ?s = "(demo_start [])\<lparr>co_touched_paths := ?m, co_audit := ?acc\<rparr>"
  have "''b'' \<noteq> replicate n (CHR ''a'')" for n by (cases n) auto
  then have "''b'' \<notin> (\<lambda>n. replicate n (CHR ''a'')) ` {0..<MAX_AUDIT_PATHS}" by blast
  then have "''b'' \<notin> keys ?m" by (simp add: keys_def image_image)
  moreover have "co_arrivals (demo_start []) = []" "\<not> co_force_full_scan (demo_start [])"
    "\<not> co_path_limit_reported (demo_start [])"
    by (simp_all add: demo_defs)
  ultimately show ?thesis
    using own_path_limit_forces_no_scan [of ?s "''b''" "[Modify]"] by (auto simp: audit_state_default_def)
qed

end
