(* ===== verification/Fs_Path.thy ===== *)
theory Fs_Path
  imports Sink_Util
begin

text \<open>
  \<open>std::path::Path\<close> as the core and the reader use it: the components of an absolute or a
  relative path, as \<open>Path::components\<close> lists them (no \<open>.\<close>, but \<open>..\<close> as it is written).
\<close>

datatype fs_path = Absolute "string list" | Relative "string list"

primrec path_components :: "fs_path \<Rightarrow> string list" where
  "path_components (Absolute cs) = cs"
| "path_components (Relative cs) = cs"

text \<open>\<open>absolute\<close>: a relative path is joined to the current directory, which may be unreadable.\<close>

definition absolute :: "io_error + string list \<Rightarrow> fs_path \<Rightarrow> io_error + string list" where
  "absolute current_dir path =
     (case path of
        Absolute cs \<Rightarrow> Inr cs
      | Relative cs \<Rightarrow>
          (case current_dir of Inl e \<Rightarrow> Inl e | Inr d \<Rightarrow> Inr (d @ filter (\<lambda>c. c \<noteq> ''.'') cs)))"

text \<open>The path a string denotes, its parent and its last component.\<close>

definition parse_path :: "string \<Rightarrow> fs_path" where
  "parse_path s =
     (let cs = filter (\<lambda>c. c \<noteq> []) (split_on (CHR ''/'') s);
          normal = filter (\<lambda>c. c \<noteq> ''.'') cs in
      if starts_with s ''/'' then Absolute normal
      else if cs \<noteq> [] \<and> hd cs = ''.'' then Relative (''.'' # normal)
      else Relative normal)"

definition parent_path :: "fs_path \<Rightarrow> fs_path option" where
  "parent_path path =
     (case path of
        Absolute cs \<Rightarrow> if cs = [] then None else Some (Absolute (butlast cs))
      | Relative cs \<Rightarrow> if cs = [] then None else Some (Relative (butlast cs)))"

definition file_name :: "fs_path \<Rightarrow> string option" where
  "file_name path =
     (let cs = path_components path in
      if cs = [] \<or> last cs = ''..'' \<or> last cs = ''.'' then None else Some (last cs))"

text \<open>\<open>Path::starts_with\<close> and \<open>Path::strip_prefix\<close>: by whole components.\<close>

definition path_starts_with :: "string list \<Rightarrow> string list \<Rightarrow> bool" where
  "path_starts_with path base \<longleftrightarrow> take (length base) path = base"

definition path_strip_prefix :: "string list \<Rightarrow> string list \<Rightarrow> string list option" where
  "path_strip_prefix path base =
     (if path_starts_with path base then Some (drop (length base) path) else None)"

lemma path_starts_with_iff: "path_starts_with p b \<longleftrightarrow> (\<exists>r. p = b @ r)"
  by (auto simp: path_starts_with_def) (metis append_take_drop_id)

lemma path_starts_with_append [simp]: "path_starts_with (b @ r) b"
  by (simp add: path_starts_with_def)

lemma path_starts_with_trans:
  "path_starts_with p q \<Longrightarrow> path_starts_with q r \<Longrightarrow> path_starts_with p r"
  by (auto simp: path_starts_with_iff)

lemma path_strip_prefix_Some [simp]: "path_strip_prefix p b = Some r \<longleftrightarrow> p = b @ r"
  by (auto simp: path_strip_prefix_def path_starts_with_iff)

text \<open>The directory a path leads to when no component is a symbolic link.\<close>

fun resolve_path :: "string list \<Rightarrow> string list \<Rightarrow> string list" where
  "resolve_path acc [] = acc"
| "resolve_path acc (c # cs) =
     (if c = ''..'' then resolve_path (butlast acc) cs else resolve_path (acc @ [c]) cs)"

lemma resolve_path_plain: "''..'' \<notin> set cs \<Longrightarrow> resolve_path acc cs = acc @ cs"
  by (induction cs arbitrary: acc) auto

end
