(* ===== verification/Watcher.thy ===== *)
theory Watcher
  imports Coordinator_Props Fs_Path
begin

text \<open>
  The watcher of \<open>crates/rrjj-core/src/lib.rs\<close>: the callback that filters file system
  notifications into the audit accumulator, and the task that decides when to take a snapshot;
  with the handle's \<open>pause\<close> and \<open>resume\<close> and the checks of \<open>start\<close>.

  The notification library and the glob library are third party: an event is its kind, its
  paths and its rescan flag; glob patterns and their compiled set are parameters.

  The task runs beside the coordinator. Its state is \<open>Watching\<close> while it waits in \<open>select!\<close> with
  the timer it armed, \<open>Looping\<close> between a branch of the \<open>select!\<close> and the next head of the loop,
  \<open>Stopped\<close> after it returned. The two \<open>watch\<close> channels are flags that say whether a change has
  not been seen yet. The relation \<open>live_step\<close> interleaves the task with notifications, commands
  of other clients and the passing of time.
\<close>

section \<open>Notifications\<close>

datatype rename_mode = Rename_any | Rename_to | Rename_from | Rename_both | Rename_other
datatype modify_kind = Modify_any | Modify_data | Modify_metadata | Modify_name rename_mode | Modify_other
datatype event_kind =
    Kind_any
  | Kind_access
  | Kind_create
  | Kind_modify modify_kind
  | Kind_remove
  | Kind_other

record notify_event =
  ne_kind :: event_kind
  ne_paths :: "fs_path list"
  ne_rescan :: bool

fun touch_operation_of :: "event_kind \<Rightarrow> touch_operation option" where
  "touch_operation_of Kind_access = None"
| "touch_operation_of Kind_create = Some Create"
| "touch_operation_of Kind_remove = Some Remove"
| "touch_operation_of (Kind_modify (Modify_name _)) = Some Rename"
| "touch_operation_of (Kind_modify _) = Some Modify"
| "touch_operation_of _ = Some Other"

record 'g glob_ops =
  go_new :: "string \<Rightarrow> string + 'g"
  go_build :: "'g list \<Rightarrow> string + (string list \<Rightarrow> bool)"

fun add_patterns :: "'g glob_ops \<Rightarrow> string list \<Rightarrow> string + 'g list" where
  "add_patterns g [] = Inr []"
| "add_patterns g (p # ps) =
     (let pattern = trim_start (CHR ''/'') p in
      case go_new g pattern of
        Inl e \<Rightarrow> Inl e
      | Inr a \<Rightarrow>
     (case go_new g (pattern @ ''/**'') of
        Inl e \<Rightarrow> Inl e
      | Inr b \<Rightarrow>
     (case add_patterns g ps of
        Inl e \<Rightarrow> Inl e
      | Inr gs \<Rightarrow> Inr (a # b # gs))))"

definition build_ignore_set :: "'g glob_ops \<Rightarrow> string list \<Rightarrow> string + (string list \<Rightarrow> bool)" where
  "build_ignore_set g patterns = (case add_patterns g patterns of Inl e \<Rightarrow> Inl e | Inr gs \<Rightarrow> go_build g gs)"

definition watcher_path ::
  "io_error + string list \<Rightarrow> string list \<Rightarrow> fs_path \<Rightarrow> string list list \<Rightarrow> (string list \<Rightarrow> bool)
     \<Rightarrow> string list \<Rightarrow> string option" where
  "watcher_path current_dir root path excluded ignores literal_ignores =
     (case absolute current_dir path of
        Inl e \<Rightarrow> None
      | Inr path \<Rightarrow>
          if list_ex (path_starts_with path) excluded then None
          else
            (case path_strip_prefix path root of
               None \<Rightarrow> None
             | Some relative \<Rightarrow>
                 if relative = [] \<or> ignores relative
                   \<or> list_ex (\<lambda>component. list_ex (\<lambda>ignore. component = trim_both (CHR ''/'') ignore)
                        literal_ignores) relative
                 then None
                 else Some (map (\<lambda>c. if c = CHR 0x5C then CHR ''/'' else c) (join_with ''/'' relative))))"

text \<open>What the watcher has captured for its callback.\<close>

record watch_setup =
  ws_root :: "string list"
  ws_excluded :: "string list list"
  ws_ignores :: "string list \<Rightarrow> bool"
  ws_literal_ignores :: "string list"
  ws_current_dir :: "io_error + string list"

definition watched_path :: "watch_setup \<Rightarrow> fs_path \<Rightarrow> string option" where
  "watched_path ws path =
     watcher_path (ws_current_dir ws) (ws_root ws) path (ws_excluded ws) (ws_ignores ws) (ws_literal_ignores ws)"

definition touched_by :: "watch_setup \<Rightarrow> touch_operation \<Rightarrow> fs_path list \<Rightarrow> touched_path list" where
  "touched_by ws operation paths =
     map (\<lambda>path. \<lparr>tp_path = path, tp_operations = [operation]\<rparr>) (List.map_filter (watched_path ws) paths)"

text \<open>The callback: what it hands to the accumulator, given the clocks it reads.\<close>

definition watch_callback :: "watch_setup \<Rightarrow> string \<Rightarrow> nat \<Rightarrow> string + notify_event \<Rightarrow> audit_input list" where
  "watch_callback ws now instant result =
     (case result of
        Inl message \<Rightarrow> [Report_overflow instant (''notify:'' @ message) 0]
      | Inr event \<Rightarrow>
          (case touch_operation_of (ne_kind event) of
             Some operation \<Rightarrow> [Observe now instant (touched_by ws operation (ne_paths event)) 1]
           | None \<Rightarrow> [])
          @ (if ne_rescan event then [Report_overflow instant ''notify:rescan'' 1] else []))"

section \<open>Starting\<close>

record root_env =
  rt_is_dir :: "string \<Rightarrow> bool"
  rt_exists :: "string \<Rightarrow> bool"
  rt_has_entries :: "string \<Rightarrow> io_error + bool"
  rt_canonicalize :: "string list \<Rightarrow> io_error + string list"
  rt_current_dir :: "io_error + string list"

definition core_io :: "(io_error \<Rightarrow> string) \<Rightarrow> io_error \<Rightarrow> core_error" where
  "core_io disp e = Recorder_failed (disp e)"

text \<open>\<open>Path::canonicalize\<close>: the empty path does not exist.\<close>

definition canonicalize :: "root_env \<Rightarrow> fs_path \<Rightarrow> io_error + string list" where
  "canonicalize env path =
     (if path = Relative [] then Inl (Os_error 2)
      else case absolute (rt_current_dir env) path of Inl e \<Rightarrow> Inl e | Inr p \<Rightarrow> rt_canonicalize env p)"

definition canonical_shadow :: "root_env \<Rightarrow> (io_error \<Rightarrow> string) \<Rightarrow> string \<Rightarrow> core_error + string list" where
  "canonical_shadow env disp shadow =
     (case parent_path (parse_path shadow) of
        None \<Rightarrow> Inl (Recorder_failed ''shadow root has no parent'')
      | Some parent \<Rightarrow>
     (case canonicalize env parent of
        Inl e \<Rightarrow> Inl (core_io disp e)
      | Inr p \<Rightarrow>
     (case file_name (parse_path shadow) of
        None \<Rightarrow> Inl (Recorder_failed ''shadow root has no name'')
      | Some name \<Rightarrow> Inr (p @ [name]))))"

definition validate_roots ::
  "root_env \<Rightarrow> (io_error \<Rightarrow> string) \<Rightarrow> string \<Rightarrow> string \<Rightarrow> core_error + unit" where
  "validate_roots env disp watched shadow =
     (if \<not> rt_is_dir env watched then
        Inl (Recorder_failed ''watched root must be an existing directory'')
      else
     (case (if rt_exists env shadow then rt_has_entries env shadow else Inr False) of
        Inl e \<Rightarrow> Inl (core_io disp e)
      | Inr True \<Rightarrow> Inl (Recorder_failed ''shadow root must be empty'')
      | Inr False \<Rightarrow>
     (case canonicalize env (parse_path watched) of
        Inl e \<Rightarrow> Inl (core_io disp e)
      | Inr w \<Rightarrow>
     (case canonical_shadow env disp shadow of
        Inl e \<Rightarrow> Inl e
      | Inr s \<Rightarrow>
          if w = s then Inl (Recorder_failed ''watched and shadow roots must differ'')
          else if path_starts_with s w \<or> path_starts_with w s then
            Inl (Recorder_failed ''watched and shadow roots must not contain each other'')
          else Inr ()))))"

text \<open>The paths of \<open>excluded_paths\<close> that can be made absolute; the others are dropped.\<close>

definition excluded_components :: "root_env \<Rightarrow> string list \<Rightarrow> string list list" where
  "excluded_components env paths =
     List.map_filter
       (\<lambda>p. case absolute (rt_current_dir env) (parse_path p) of Inl e \<Rightarrow> None | Inr cs \<Rightarrow> Some cs) paths"

definition start_watcher ::
  "root_env \<Rightarrow> (io_error \<Rightarrow> string) \<Rightarrow> 'g glob_ops \<Rightarrow> (string list \<Rightarrow> string + unit) \<Rightarrow> config
     \<Rightarrow> core_error + watch_setup" where
  "start_watcher env disp globs watch config =
     (if cf_quiescence config = 0 \<or> cf_max_delay config = 0 then
        Inl (Recorder_failed ''watch delays must be greater than zero'')
      else
     (case canonicalize env (parse_path (cf_watched_root config)) of
        Inl e \<Rightarrow> Inl (core_io disp e)
      | Inr root \<Rightarrow>
     (case build_ignore_set globs (cf_ignore config) of
        Inl m \<Rightarrow> Inl (Recorder_failed m)
      | Inr ignores \<Rightarrow>
     (case watch root of
        Inl m \<Rightarrow> Inl (Recorder_failed m)
      | Inr _ \<Rightarrow>
          Inr \<lparr>ws_root = root, ws_excluded = excluded_components env (cf_excluded_paths config),
               ws_ignores = ignores, ws_literal_ignores = cf_ignore config,
               ws_current_dir = rt_current_dir env\<rparr>))))"

section \<open>The task\<close>

definition watch_due :: "bool \<Rightarrow> nat option \<Rightarrow> nat option \<Rightarrow> nat option" where
  "watch_due paused audit_deadline retry_at =
     (let audit_due = (if paused then None else audit_deadline) in
      case (audit_due, retry_at) of
        (Some audit, Some retry) \<Rightarrow> Some (min audit retry)
      | (Some audit, None) \<Rightarrow> Some audit
      | (None, Some retry) \<Rightarrow> if \<not> paused then Some retry else None
      | (None, None) \<Rightarrow> None)"

fun fatal_capture_error :: "core_error \<Rightarrow> bool" where
  "fatal_capture_error (Sink_failed (SpoolFull _ _ _)) = True"
| "fatal_capture_error (Sink_failed (DiskExhausted _)) = True"
| "fatal_capture_error (Sink_failed (Failed _)) = True"
| "fatal_capture_error _ = False"

datatype watcher_state = Watching "nat option" | Looping | Stopped

record ('s, 't, 'j) live =
  lv_core :: "('s, 't, 'j) coordinator"
  lv_paused :: bool
  lv_retry_due :: "nat option"
  lv_now :: nat
  lv_watcher :: watcher_state
  lv_audit_changed :: bool
  lv_paused_changed :: bool
  lv_resumed :: nat

definition live_start :: "nat \<Rightarrow> ('s, 't, 'j) coordinator \<Rightarrow> ('s, 't, 'j) live" where
  "live_start now s =
     \<lparr>lv_core = s, lv_paused = False, lv_retry_due = None, lv_now = now, lv_watcher = Looping,
      lv_audit_changed = False, lv_paused_changed = False, lv_resumed = 0\<rparr>"

text \<open>
  \<open>start\<close>: the checks of the roots, the baseline capture, and the watcher; what it returns is the
  live session and the callback's setup.
\<close>

definition start ::
  "root_env \<Rightarrow> (io_error \<Rightarrow> string) \<Rightarrow> 'g glob_ops \<Rightarrow> (string list \<Rightarrow> string + unit)
     \<Rightarrow> ('s, 't, 'j) ctx \<Rightarrow> config \<Rightarrow> 's \<Rightarrow> audit_input list list \<Rightarrow> 'j \<Rightarrow> nat
     \<Rightarrow> core_error + ('s, 't, 'j) live \<times> watch_setup" where
  "start env disp globs watch cx config sink arrivals w now =
     (case validate_roots env disp (cf_watched_root config) (cf_shadow_root config) of
        Inl e \<Rightarrow> Inl e
      | Inr _ \<Rightarrow>
     (case initialize cx config sink accumulator_new arrivals w of
        Inl e \<Rightarrow> Inl e
      | Inr s \<Rightarrow>
     (case start_watcher env disp globs watch config of
        Inl e \<Rightarrow> Inl e
      | Inr setup \<Rightarrow> Inr (live_start now s, setup))))"

text \<open>Whether an input reaches \<open>notify_changed\<close>, and whether one did between two coordinators.\<close>

fun notifies :: "audit_input \<Rightarrow> bool" where
  "notifies (Observe now instant paths raw) = (paths \<noteq> [])"
| "notifies (Report_overflow instant source raw) = True"

definition arrivals_notify :: "('s, 't, 'j) coordinator \<Rightarrow> ('s, 't, 'j) coordinator \<Rightarrow> bool" where
  "arrivals_notify s s' =
     list_ex (list_ex notifies) (take (length (co_arrivals s) - length (co_arrivals s')) (co_arrivals s))"

text \<open>The coordinator has handled a command.\<close>

definition core_moved :: "('s, 't, 'j) coordinator \<Rightarrow> ('s, 't, 'j) live \<Rightarrow> ('s, 't, 'j) live" where
  "core_moved s' l =
     l\<lparr>lv_core := s', lv_audit_changed := (lv_audit_changed l \<or> arrivals_notify (lv_core l) s')\<rparr>"

text \<open>The head of the loop.\<close>

definition arm_timer :: "('s, 't, 'j) live \<Rightarrow> ('s, 't, 'j) live" where
  "arm_timer l =
     (let config = co_config (lv_core l) in
      l\<lparr>lv_watcher := Watching (watch_due (lv_paused l)
           (deadline (cf_quiescence config) (cf_max_delay config) (co_audit (lv_core l))) (lv_retry_due l))\<rparr>)"

text \<open>The branch of the timer.\<close>

definition fire :: "('s, 't, 'j) ctx \<Rightarrow> ('s, 't, 'j) live \<Rightarrow> ('s, 't, 'j) live" where
  "fire cx l =
     (case do_snapshot cx (lv_core l) of
        (Inr snapshot, s) \<Rightarrow> (core_moved s l)\<lparr>lv_watcher := Looping, lv_retry_due := None\<rparr>
      | (Inl e, s) \<Rightarrow>
          if fatal_capture_error e then (core_moved s l)\<lparr>lv_watcher := Stopped\<rparr>
          else (core_moved s l)\<lparr>lv_watcher := Looping,
                 lv_retry_due := Some (lv_now l + cf_quiescence (co_config (lv_core l)))\<rparr>)"

text \<open>The result of \<open>resume\<close>: the flag is cleared only when the command succeeded.\<close>

definition resume_replied :: "reply \<Rightarrow> ('s, 't, 'j) live \<Rightarrow> ('s, 't, 'j) live" where
  "resume_replied r l =
     (case r of R_flush (Inr _) \<Rightarrow> l\<lparr>lv_resumed := lv_resumed l + 1\<rparr> | _ \<Rightarrow> l)"

fun input_instant :: "audit_input \<Rightarrow> nat" where
  "input_instant (Observe now instant paths raw) = instant"
| "input_instant (Report_overflow instant source raw) = instant"

text \<open>What happens without a client: time passes, notifications arrive, the task runs.\<close>

inductive watch_step :: "('s, 't, 'j) ctx \<Rightarrow> ('s, 't, 'j) live \<Rightarrow> ('s, 't, 'j) live \<Rightarrow> bool" for cx where
  wait: "lv_now l \<le> t \<Longrightarrow> watch_step cx l (l\<lparr>lv_now := t\<rparr>)"
| notified: "input_instant n = lv_now l \<Longrightarrow>
     watch_step cx l (l\<lparr>lv_core := (lv_core l)\<lparr>co_audit := apply_input n (co_audit (lv_core l))\<rparr>,
                        lv_audit_changed := (lv_audit_changed l \<or> notifies n)\<rparr>)"
| arm: "lv_watcher l = Looping \<Longrightarrow> watch_step cx l (arm_timer l)"
| wake_audit: "lv_watcher l = Watching a \<Longrightarrow> lv_audit_changed l \<Longrightarrow>
     watch_step cx l (l\<lparr>lv_watcher := Looping, lv_audit_changed := False\<rparr>)"
| wake_paused: "lv_watcher l = Watching a \<Longrightarrow> lv_paused_changed l \<Longrightarrow>
     watch_step cx l (l\<lparr>lv_watcher := Looping, lv_paused_changed := False\<rparr>)"
| timer: "lv_watcher l = Watching (Some d) \<Longrightarrow> d \<le> lv_now l \<Longrightarrow> watch_step cx l (fire cx l)"

text \<open>
  The calls of the handle. \<open>pause\<close> sets the flag before its command, \<open>resume\<close> clears it after a
  successful reply.
\<close>

inductive client_step :: "('s, 't, 'j) ctx \<Rightarrow> ('s, 't, 'j) live \<Rightarrow> ('s, 't, 'j) live \<Rightarrow> bool" for cx where
  command: "c \<noteq> Resume \<Longrightarrow> \<forall>reason. c \<noteq> Shutdown reason \<Longrightarrow>
     handle_command cx c (lv_core l) = Some (r, s) \<Longrightarrow> client_step cx l (core_moved s l)"
| pause_flag: "client_step cx l (l\<lparr>lv_paused := True, lv_paused_changed := True\<rparr>)"
| resume: "handle_command cx Resume (lv_core l) = Some (r, s) \<Longrightarrow>
     client_step cx l (resume_replied r (core_moved s l))"
| resume_flag: "lv_resumed l = Suc n \<Longrightarrow>
     client_step cx l (l\<lparr>lv_paused := False, lv_paused_changed := True, lv_resumed := n\<rparr>)"

inductive_cases watch_stepE: "watch_step cx l l'"
inductive_cases client_stepE: "client_step cx l l'"

definition live_step :: "('s, 't, 'j) ctx \<Rightarrow> ('s, 't, 'j) live \<Rightarrow> ('s, 't, 'j) live \<Rightarrow> bool" where
  "live_step cx l l' \<longleftrightarrow> watch_step cx l l' \<or> client_step cx l l'"

abbreviation live_steps where "live_steps cx \<equiv> (live_step cx)\<^sup>*\<^sup>*"

section \<open>What commands do to the window of the accumulator\<close>

text \<open>
  A command leaves the accumulator as it is, or drains it: then no window is open and there is no
  deadline.
\<close>

definition window_closed :: "('s, 't, 'j) coordinator \<Rightarrow> bool" where
  "window_closed s \<longleftrightarrow> as_first (aa_state (co_audit s)) = None"

lemma closed_deadline: "window_closed s \<Longrightarrow> deadline q d (co_audit s) = None"
  by (simp add: window_closed_def deadline_def)

lemma drain_closes [simp]: "window_closed (drain_audit s)"
  by (simp add: window_closed_def audit_state_default_def)

lemma emits_only_closed: "emits_only s t \<Longrightarrow> window_closed t = window_closed s"
  by (simp add: emits_only_def window_closed_def)

lemma keeps_closed_emit: "emit cx b s = (r, t) \<Longrightarrow> window_closed t = window_closed s"
  by (drule emit_frame) (simp add: emits_only_closed)

lemma fresh_snapshot_closes:
  assumes "fresh_snapshot cx s = (r, t)"
  shows "window_closed t"
proof -
  have o: "keeps window_closed (emit_overflows cx)"
    by (rule keepsI) (auto elim: emit_overflows_cases simp: emits_only_closed)
  have a: "keeps window_closed (emit_audit cx)"
    by (rule keepsI) (erule emit_audit_cases, auto simp: emits_only_closed,
      simp add: window_closed_def emits_only_def)
  have c: "keeps window_closed (capture_now cx)"
    by (rule keepsI, drule capture_now_frame) (metis window_closed_def coordinator.select_convs(13)
        coordinator.surjective coordinator.update_convs(3))
  have p: "keeps window_closed (publish_snapshot cx sn)" for sn
    by (rule keepsI) (erule publish_snapshot_cases, auto simp: emits_only_def window_closed_def)
  have "keeps window_closed (bindE (emit_overflows cx) (\<lambda>_. bindE (emit_audit cx) (\<lambda>_.
      bindE (capture_now cx) (\<lambda>sn. publish_snapshot cx sn))))"
    by (intro keeps_bindE o a c p)
  from keepsD [OF this drain_closes assms [unfolded fresh_snapshot_def]] show ?thesis .
qed

lemma retry_keeps_audit: "retry_snapshot cx e sn s = (r, t) \<Longrightarrow> co_audit t = co_audit s"
  by (erule retry_snapshot_cases) (auto simp: emits_only_def)

lemma do_snapshot_window:
  assumes "do_snapshot cx s = (r, t)"
  shows "co_audit t = co_audit s \<or> window_closed t"
  using assms
  by (auto simp: do_snapshot_def dest: fresh_snapshot_closes retry_keeps_audit
      split: option.splits event_body.splits)

lemma do_snapshot_closed: "do_snapshot cx s = (r, t) \<Longrightarrow> window_closed s \<Longrightarrow> window_closed t"
  by (drule do_snapshot_window) (auto simp: window_closed_def)

lemma settle_closed: "settle cx s = Some (r, t) \<Longrightarrow> window_closed s \<Longrightarrow> window_closed t"
  by (erule settle_rule [where P = window_closed]) (auto dest: do_snapshot_closed)

lemma after_settle_closed:
  assumes "after_settle cx act s = Some (r, t)" and "window_closed s"
    and "\<And>u r t. act u = (r, t) \<Longrightarrow> window_closed u \<Longrightarrow> window_closed t"
  shows "window_closed t"
  using assms(1) by (cases rule: after_settle_cases) (auto dest!: settle_closed intro: assms)

lemma flush_durable_closed: "flush_durable cx s = (r, t) \<Longrightarrow> window_closed s \<Longrightarrow> window_closed t"
  unfolding flush_durable_def
  by (auto simp: Let_def window_closed_def split: prod.splits sum.splits dest!: emit_frame)
    (auto simp: emits_only_def)

lemma status_flush_closed:
  "bindE (flush_durable cx) (\<lambda>_ s. (Inr (status_of s), s)) u = (r, t) \<Longrightarrow> window_closed u \<Longrightarrow> window_closed t"
  by (auto simp: bindE_def split: prod.splits sum.splits dest: flush_durable_closed)

lemma handle_command_window:
  assumes "handle_command cx c s = Some (r, t)" and "\<forall>reason. c \<noteq> Shutdown reason"
  shows "co_audit t = co_audit s \<or> window_closed t"
proof (cases c)
  case Snap
  then show ?thesis
    using assms(1) by (auto dest!: map_reply_SomeD do_snapshot_window)
next
  case (Mark_cmd label meta)
  then obtain x where "do_mark cx label meta s = Some (x, t)"
    using assms(1) by (auto dest!: map_reply_SomeD)
  then have "window_closed t"
    unfolding do_mark_def by (rule after_settle_closed) (auto simp: keeps_closed_emit)
  then show ?thesis ..
next
  case Flush_cmd
  then obtain x where "do_flush cx s = Some (x, t)" using assms(1) by (auto dest!: map_reply_SomeD)
  then have "window_closed t"
    unfolding do_flush_def by (rule after_settle_closed) (auto dest: status_flush_closed)
  then show ?thesis ..
next
  case Resume
  then obtain x where x: "do_resume cx s = Some (x, t)" using assms(1) by (auto dest!: map_reply_SomeD)
  have "window_closed ((drain_audit s)\<lparr>co_paused := False\<rparr>)"
    using drain_closes [of s] by (simp add: window_closed_def)
  then have "window_closed t"
    using after_settle_closed [OF x [unfolded do_resume_def]] by auto
  then show ?thesis ..
qed (use assms in \<open>auto simp: Let_def\<close>)

section \<open>Live sessions\<close>

lemma core_moved_simps [simp]:
  "lv_core (core_moved s l) = s" "lv_paused (core_moved s l) = lv_paused l"
  "lv_retry_due (core_moved s l) = lv_retry_due l" "lv_now (core_moved s l) = lv_now l"
  "lv_watcher (core_moved s l) = lv_watcher l" "lv_paused_changed (core_moved s l) = lv_paused_changed l"
  "lv_resumed (core_moved s l) = lv_resumed l" "lv_audit_changed l \<Longrightarrow> lv_audit_changed (core_moved s l)"
  by (simp_all add: core_moved_def)

lemma resume_replied_simps [simp]:
  "lv_core (resume_replied r l) = lv_core l" "lv_paused (resume_replied r l) = lv_paused l"
  "lv_retry_due (resume_replied r l) = lv_retry_due l" "lv_now (resume_replied r l) = lv_now l"
  "lv_watcher (resume_replied r l) = lv_watcher l"
  "lv_audit_changed (resume_replied r l) = lv_audit_changed l"
  "lv_paused_changed (resume_replied r l) = lv_paused_changed l"
  by (simp_all add: resume_replied_def split: reply.splits sum.splits)

lemma arm_timer_simps [simp]:
  "lv_core (arm_timer l) = lv_core l" "lv_paused (arm_timer l) = lv_paused l"
  "lv_retry_due (arm_timer l) = lv_retry_due l" "lv_now (arm_timer l) = lv_now l"
  "lv_audit_changed (arm_timer l) = lv_audit_changed l"
  "lv_paused_changed (arm_timer l) = lv_paused_changed l" "lv_resumed (arm_timer l) = lv_resumed l"
  by (simp_all add: arm_timer_def Let_def)

text \<open>The coordinator's part of a step is a sequence of its own steps, or a notification.\<close>

lemma fire_core: "\<exists>r. do_snapshot cx (lv_core l) = (r, lv_core (fire cx l))"
  by (auto simp: fire_def split: prod.splits sum.splits)

lemma watch_step_core:
  assumes "watch_step cx l l'"
  obtains (same) "lv_core l' = lv_core l"
  | (input) n where "lv_core l' = (lv_core l)\<lparr>co_audit := apply_input n (co_audit (lv_core l))\<rparr>"
  | (snapped) r where "do_snapshot cx (lv_core l) = (r, lv_core l')"
  using assms
proof (cases rule: watch_step.cases)
  case (timer d)
  obtain r where "do_snapshot cx (lv_core l) = (r, lv_core l')"
    using fire_core [of cx l] timer by auto
  then show thesis by (rule snapped)
next
  case (notified n)
  show thesis by (rule input [of n]) (simp add: notified(1))
next
  case (wait t)
  show thesis by (rule same) (simp add: wait(1))
next
  case arm
  show thesis by (rule same) (simp add: arm(1))
next
  case (wake_audit a)
  show thesis by (rule same) (simp add: wake_audit(1))
next
  case (wake_paused a)
  show thesis by (rule same) (simp add: wake_paused(1))
qed

lemma live_step_core:
  assumes "live_step cx l l'"
  obtains (same) "lv_core l' = lv_core l"
  | (input) n where "lv_core l' = (lv_core l)\<lparr>co_audit := apply_input n (co_audit (lv_core l))\<rparr>"
  | (handled) c r where "handle_command cx c (lv_core l) = Some (r, lv_core l')"
      "\<forall>reason. c \<noteq> Shutdown reason"
proof (cases "watch_step cx l l'")
  case True
  then show thesis
  proof (cases rule: watch_step_core)
    case (snapped r)
    show thesis by (rule handled [of Snap "R_snapshot r"]) (use snapped in \<open>simp_all add: map_reply_def\<close>)
  next
    case same
    then show thesis by (rule that(1))
  next
    case (input n)
    then show thesis by (rule that(2))
  qed
next
  case False
  then have "client_step cx l l'" using assms by (simp add: live_step_def)
  then show thesis
  proof (cases rule: client_step.cases)
    case (command c r s)
    show thesis by (rule handled [of c r]) (use command in simp_all)
  next
    case (resume r s)
    show thesis by (rule handled [of Resume r]) (use resume in simp_all)
  next
    case pause_flag
    show thesis by (rule same) (simp add: pause_flag)
  next
    case (resume_flag n)
    show thesis by (rule same) (simp add: resume_flag(1))
  qed
qed

lemma live_step_csteps:
  assumes "live_step cx l l'" and "coord_ok (lv_core l)"
  shows "coord_ok (lv_core l') \<and> (\<exists>es'. csteps cx (lv_core l, es) (lv_core l', es'))"
  using assms(1)
proof (cases rule: live_step_core)
  case same
  then show ?thesis using assms(2) by auto
next
  case (input n)
  then have "cstep cx (lv_core l, es) (lv_core l', es)" by (simp add: notify)
  then show ?thesis using input coord_ok_notify [OF assms(2)] by auto
next
  case (handled c r)
  then show ?thesis
    using handle_command_steps [OF handled(1) assms(2)] coord_ok_handle_command [OF handled(1) assms(2)] by blast
qed

lemma live_steps_csteps:
  assumes "live_steps cx l l'" and "coord_ok (lv_core l)"
  shows "coord_ok (lv_core l') \<and> (\<exists>es'. csteps cx (lv_core l, es) (lv_core l', es'))"
  using assms
proof (induction rule: rtranclp_induct)
  case (step l1 l2)
  then obtain es1 where es1: "coord_ok (lv_core l1)" "csteps cx (lv_core l, es) (lv_core l1, es1)" by blast
  then show ?case using live_step_csteps [OF step.hyps(2) es1(1), of es1] by (meson rtranclp_trans)
qed auto

lemma live_step_config: "live_step cx l l' \<Longrightarrow> coord_ok (lv_core l) \<Longrightarrow> co_config (lv_core l') = co_config (lv_core l)"
proof -
  assume "live_step cx l l'" "coord_ok (lv_core l)"
  then obtain es' where "csteps cx (lv_core l, []) (lv_core l', es')" using live_step_csteps by blast
  then show ?thesis
    by (rule csteps_invariant [where P = "\<lambda>s es. co_config s = co_config (lv_core l)"]) (auto dest: cstep_config)
qed

section \<open>The timer\<close>

text \<open>
  Unless a change is still to be seen, a waiting task has armed a timer that is not later than
  the deadline of the accumulator and the retry; while it is paused it has armed none.
\<close>

definition timer_covers :: "('s, 't, 'j) live \<Rightarrow> nat option \<Rightarrow> bool" where
  "timer_covers l a \<longleftrightarrow>
     (if lv_paused l then a = None
      else
        (\<forall>t. deadline (cf_quiescence (co_config (lv_core l))) (cf_max_delay (co_config (lv_core l)))
               (co_audit (lv_core l)) = Some t \<longrightarrow> (\<exists>d \<le> t. a = Some d))
        \<and> (\<forall>t. lv_retry_due l = Some t \<longrightarrow> (\<exists>d \<le> t. a = Some d)))"

definition timer_ok :: "('s, 't, 'j) live \<Rightarrow> bool" where
  "timer_ok l \<longleftrightarrow>
     (\<forall>a. lv_watcher l = Watching a \<longrightarrow> lv_audit_changed l \<or> lv_paused_changed l \<or> timer_covers l a)"

lemma arm_covers: "timer_covers l (watch_due (lv_paused l)
    (deadline (cf_quiescence (co_config (lv_core l))) (cf_max_delay (co_config (lv_core l)))
      (co_audit (lv_core l))) (lv_retry_due l))"
  by (auto simp: timer_covers_def watch_due_def split: option.splits)

lemma fire_not_watching: "lv_watcher (fire cx l) \<noteq> Watching a"
  by (auto simp: fire_def split: prod.splits sum.splits)

lemma timer_ok_moved:
  assumes "timer_ok l" and "handle_command cx c (lv_core l) = Some (r, s)"
    and "\<forall>reason. c \<noteq> Shutdown reason" and "coord_ok (lv_core l)"
  shows "timer_ok (core_moved s l)"
proof -
  obtain es' where "csteps cx (lv_core l, []) (s, es')"
    using handle_command_steps [OF assms(2,4)] by blast
  then have config: "co_config s = co_config (lv_core l)"
    by (rule csteps_invariant [where P = "\<lambda>s es. co_config s = co_config (lv_core l)"]) (auto dest: cstep_config)
  have "timer_covers (core_moved s l) a" if "timer_covers l a" for a
    using that config handle_command_window [OF assms(2,3)]
    by (auto simp: timer_covers_def closed_deadline split: if_splits)
  then show ?thesis using assms(1) by (auto simp: timer_ok_def)
qed

lemma apply_input_silent: "\<not> notifies n \<Longrightarrow> apply_input n acc = acc"
  by (cases n) (simp_all add: observe_def)

lemma watch_step_timer:
  assumes "watch_step cx l l'" and "timer_ok l"
  shows "timer_ok l'"
  using assms(1)
proof (cases rule: watch_step.cases)
  case (wait t)
  then show ?thesis using assms(2) by (auto simp: timer_ok_def timer_covers_def)
next
  case (notified n)
  then show ?thesis
    using assms(2) by (cases "notifies n") (auto simp: timer_ok_def timer_covers_def apply_input_silent)
next
  case arm
  then show ?thesis
    using arm_covers [of l] by (auto simp: timer_ok_def arm_timer_def Let_def timer_covers_def)
next
  case (timer d)
  then show ?thesis by (simp add: timer_ok_def fire_not_watching)
qed (simp_all add: timer_ok_def)

lemma timer_ok_resume [simp]: "timer_ok (resume_replied r l) = timer_ok l"
  unfolding timer_ok_def timer_covers_def resume_replied_simps by (rule refl)

lemma client_step_timer:
  assumes "client_step cx l l'" and "timer_ok l" and "coord_ok (lv_core l)"
  shows "timer_ok l'"
  using assms(1)
proof (cases rule: client_step.cases)
  case (command c r s)
  then show ?thesis using timer_ok_moved [OF assms(2) command(4,3) assms(3)] by simp
next
  case (resume r s)
  have "timer_ok (core_moved s l)" by (rule timer_ok_moved [OF assms(2) resume(2) _ assms(3)]) simp
  then show ?thesis using resume(1) by simp
qed (simp_all add: timer_ok_def)

lemma live_steps_timer:
  assumes "live_steps cx (live_start now s) l" and "coord_ok s"
  shows "timer_ok l \<and> coord_ok (lv_core l)"
  using assms
proof (induction rule: rtranclp_induct)
  case base
  then show ?case by (simp add: timer_ok_def live_start_def)
next
  case (step l1 l2)
  then show ?case
    using live_step_csteps [OF step.hyps(2)] watch_step_timer client_step_timer by (auto simp: live_step_def)
qed

section \<open>Properties of live sessions\<close>


text \<open>
  C31: The timer is never lost: in every reachable state of a live session, when the watcher's task
  waits and has no change left to see, it has armed no timer while it is paused; otherwise, if
  the accumulator holds anything, it has armed a timer no later than the accumulator's deadline,
  and after a failed snapshot one no later than the retry.
\<close>

theorem timer_never_lost:
  assumes "audit_ok (aa_state acc)" and "initialize cx config sink acc arrivals w = Inr s0"
    and "live_steps cx (live_start now s0) l" and "lv_watcher l = Watching a"
    and "\<not> lv_audit_changed l" and "\<not> lv_paused_changed l"
  shows "if lv_paused l then a = None
    else (is_dirty (co_audit (lv_core l)) \<longrightarrow>
            (\<exists>d t. a = Some d \<and> d \<le> t \<and>
               deadline (cf_quiescence config) (cf_max_delay config) (co_audit (lv_core l)) = Some t))
         \<and> (\<forall>t. lv_retry_due l = Some t \<longrightarrow> (\<exists>d \<le> t. a = Some d))"
proof -
  obtain baseline where b: "reachable cx s0 [start_event cx config baseline]" "co_config s0 = config"
    by (rule initialize_reachable [OF assms(1,2)])
  note ok = reachable_inv(1) [OF b(1)]
  from live_steps_timer [OF assms(3) ok] have t: "timer_covers l a" "coord_ok (lv_core l)"
    using assms(4-6) by (auto simp: timer_ok_def)
  obtain log where "csteps cx (s0, []) (lv_core l, log)"
    using live_steps_csteps [OF assms(3), of "[]"] ok by (auto simp: live_start_def)
  then have c: "co_config (lv_core l) = config"
    using csteps_invariant [where P = "\<lambda>s es. co_config s = config"] b(2) cstep_config by metis
  have "deadline q d (co_audit (lv_core l)) \<noteq> None" if "is_dirty (co_audit (lv_core l))" for q d
    using t(2) that dirty_has_deadline by (auto elim!: coord_okE)
  then show ?thesis using t(1) c by (fastforce simp: timer_covers_def)
qed


section \<open>Behaviour the task should not have\<close>

lemma keeps_unpaused_fresh:
  assumes "fresh_snapshot cx s = (r, t)"
  shows "co_paused t = co_paused s"
proof -
  let ?P = "\<lambda>u. co_paused u = co_paused s"
  have o: "keeps ?P (emit_overflows cx)"
    by (rule keepsI) (auto elim: emit_overflows_cases simp: emits_only_def)
  have a: "keeps ?P (emit_audit cx)"
    by (rule keepsI) (erule emit_audit_cases, auto simp: emits_only_def clear_audit_def)
  have c: "keeps ?P (capture_now cx)"
    by (rule keepsI) (auto simp: capture_now_def split: prod.splits)
  have p: "keeps ?P (publish_snapshot cx sn)" for sn
    by (rule keepsI) (erule publish_snapshot_cases, auto simp: emits_only_def)
  have "keeps ?P (bindE (emit_overflows cx) (\<lambda>_. bindE (emit_audit cx) (\<lambda>_.
      bindE (capture_now cx) (\<lambda>sn. publish_snapshot cx sn))))"
    by (intro keeps_bindE o a c p)
  from keepsD [OF this _ assms [unfolded fresh_snapshot_def]] show ?thesis by simp
qed

lemma do_snapshot_paused: "do_snapshot cx s = (r, t) \<Longrightarrow> co_paused t = co_paused s"
  by (auto simp: do_snapshot_def emits_only_def dest: keeps_unpaused_fresh elim!: retry_snapshot_cases
      split: option.splits event_body.splits)

lemma settle_paused: "settle cx s = Some (r, t) \<Longrightarrow> co_paused t = co_paused s"
  by (erule settle_rule [where P = "\<lambda>u. co_paused u = co_paused s"]) (auto dest: do_snapshot_paused)

lemma failed_resume_unpauses:
  assumes "handle_command cx Resume s = Some (R_flush (Inl e), t)"
  shows "\<not> co_paused t"
proof -
  from assms have "do_resume cx s = Some (Inl e, t)" by (auto dest!: map_reply_SomeD)
  then show ?thesis
    unfolding do_resume_def by (cases rule: after_settle_cases) (auto dest!: settle_paused)
qed

text \<open>While the flag is set and no timer is armed, the task does nothing.\<close>

definition idle :: "('s, 't, 'j) live \<Rightarrow> bool" where
  "idle l \<longleftrightarrow> lv_paused l \<and> (lv_watcher l = Watching None \<or> lv_watcher l = Looping)"

lemma idle_step:
  assumes "watch_step cx l l'" and "idle l"
  shows "idle l' \<and> co_sink (lv_core l') = co_sink (lv_core l) \<and> co_paused (lv_core l') = co_paused (lv_core l)"
  using assms(1)
  by (cases rule: watch_step.cases)
    (use assms(2) in \<open>auto simp: idle_def arm_timer_def watch_due_def Let_def split: option.splits\<close>)

lemma idle_steps:
  assumes "(watch_step cx)\<^sup>*\<^sup>* l l'" and "idle l"
  shows "idle l' \<and> co_sink (lv_core l') = co_sink (lv_core l) \<and> co_paused (lv_core l') = co_paused (lv_core l)"
  using assms
proof (induction rule: rtranclp_induct)
  case (step l1 l2)
  then show ?case using idle_step [OF step.hyps(2)] by simp
qed simp

text \<open>
  C32: A resume that fails stops the recording for good: the coordinator has already left the
  paused state and reports so, but the flag the watcher reads is not cleared; from then on, as
  long as no client calls, however many notifications arrive and however long one waits, no
  timer is armed and nothing is emitted.
\<close>

theorem failed_resume_stalls:
  assumes "handle_command cx Resume (lv_core l) = Some (R_flush (Inl e), s)" and "lv_paused l"
    and "lv_watcher l = Watching None \<or> lv_watcher l = Looping"
    and "(watch_step cx)\<^sup>*\<^sup>* (resume_replied (R_flush (Inl e)) (core_moved s l)) l'"
  shows "\<not> st_paused (status_of (lv_core l')) \<and> lv_paused l' \<and> (\<forall>d. lv_watcher l' \<noteq> Watching (Some d))
    \<and> co_sink (lv_core l') = co_sink s"
proof -
  have "idle (resume_replied (R_flush (Inl e)) (core_moved s l))" using assms(2,3) by (simp add: idle_def)
  from idle_steps [OF assms(4) this] failed_resume_unpauses [OF assms(1)]
  show ?thesis by (auto simp: idle_def status_of_def)
qed

text \<open>
  A retry can spin: when a kept snapshot event is refused again while an observation's
  deadline has passed, the accumulator is not drained, so that the next timer of the watcher is
  due at once: the delay set for the retry has no effect, and the state is one where the same
  happens again, for as long as the sink refuses.
\<close>

theorem retry_spins:
  assumes "lv_watcher l = Watching (Some d)" and "d \<le> lv_now l" and "\<not> lv_paused l"
    and "co_pending_snapshot_event (lv_core l) = Some event" and "ev_body event = Snapshot sn"
    and "ev_seq event = co_seq (lv_core l)"
    and "so_emit (cx_sink cx) event (co_sink (lv_core l)) = (Inl e, k)"
    and "\<not> fatal_capture_error (Sink_failed e)"
    and "deadline (cf_quiescence (co_config (lv_core l))) (cf_max_delay (co_config (lv_core l)))
           (co_audit (lv_core l)) = Some t" and "t \<le> lv_now l"
  shows "\<exists>l'. (watch_step cx)\<^sup>*\<^sup>* l l' \<and> lv_now l' = lv_now l
    \<and> lv_retry_due l' = Some (lv_now l + cf_quiescence (co_config (lv_core l)))
    \<and> lv_watcher l' = Watching (Some t)
    \<and> lv_core l' = (lv_core l)\<lparr>co_sink := k\<rparr>"
proof -
  have s: "do_snapshot cx (lv_core l) = (Inl (Sink_failed e), (lv_core l)\<lparr>co_sink := k\<rparr>)"
    using assms(4-7) by (simp add: do_snapshot_def retry_snapshot_def emit_exact_def)
  let ?f = "fire cx l"
  have f: "lv_core ?f = (lv_core l)\<lparr>co_sink := k\<rparr>" "lv_watcher ?f = Looping" "lv_now ?f = lv_now l"
    "lv_retry_due ?f = Some (lv_now l + cf_quiescence (co_config (lv_core l)))" "lv_paused ?f = lv_paused l"
    using s assms(8) by (simp_all add: fire_def)
  have "watch_step cx l ?f" by (rule timer [OF assms(1,2)])
  moreover have "watch_step cx ?f (arm_timer ?f)" by (rule arm [OF f(2)])
  ultimately have "(watch_step cx)\<^sup>*\<^sup>* l (arm_timer ?f)"
    by (meson converse_rtranclp_into_rtranclp r_into_rtranclp)
  moreover have "lv_watcher (arm_timer ?f) = Watching (Some t)"
    using f assms(3,9,10) by (simp add: arm_timer_def watch_due_def Let_def min_def)
  ultimately show ?thesis using f by (intro exI [of _ "arm_timer ?f"]) simp
qed

section \<open>Properties of the filter and of the roots\<close>

lemma path_starts_with_ex: "path_starts_with p b \<Longrightarrow> b \<in> set bs \<Longrightarrow> list_ex (path_starts_with p) bs"
  by (auto simp: list_ex_iff)

text \<open>
  The recorder does not watch itself: a notification whose paths all lie under excluded paths,
  as both are written, leaves the accumulator as it is, so that the recorder's own writes to its
  spool, its shadow repository and its session directory do not wake it.
\<close>

theorem own_writes_unobserved:
  assumes "start_watcher env disp globs watch config = Inr ws" and "\<not> ne_rescan event"
    and "\<forall>p \<in> set (ne_paths event). \<exists>own \<in> set (cf_excluded_paths config). \<exists>base rest.
           absolute (rt_current_dir env) (parse_path own) = Inr base
           \<and> absolute (rt_current_dir env) p = Inr (base @ rest)"
  shows "apply_inputs (watch_callback ws now instant (Inr event)) acc = acc"
proof -
  have ws: "ws_excluded ws = excluded_components env (cf_excluded_paths config)"
    "ws_current_dir ws = rt_current_dir env"
    using assms(1) by (auto simp: start_watcher_def split: if_splits sum.splits)
  have "watched_path ws p = None" if p: "p \<in> set (ne_paths event)" for p
  proof -
    from assms(3) p obtain own base rest where o: "own \<in> set (cf_excluded_paths config)"
      "absolute (rt_current_dir env) (parse_path own) = Inr base"
      "absolute (rt_current_dir env) p = Inr (base @ rest)" by blast
    then have "base \<in> set (ws_excluded ws)"
      unfolding ws excluded_components_def map_filter_def by (force split: sum.splits)
    then show ?thesis
      using o(3) path_starts_with_ex [of "base @ rest" base "ws_excluded ws"]
      by (simp add: watched_path_def watcher_path_def ws)
  qed
  then have "touched_by ws operation (ne_paths event) = []" for operation
    by (simp add: touched_by_def map_filter_def)
  then show ?thesis
    using assms(2)
    by (simp add: watch_callback_def apply_inputs_def observe_def split: option.splits)
qed

text \<open>No path lies under both roots, once both are canonical.\<close>

lemma roots_separate:
  assumes "validate_roots env disp watched shadow = Inr ()"
  shows "\<exists>w s. canonicalize env (parse_path watched) = Inr w \<and> canonical_shadow env disp shadow = Inr s
    \<and> (\<forall>x y. w @ x \<noteq> s @ y)
    \<and> rt_is_dir env watched \<and> (rt_exists env shadow \<longrightarrow> rt_has_entries env shadow = Inr False)"
proof -
  from assms obtain w s where ws: "canonicalize env (parse_path watched) = Inr w"
    "canonical_shadow env disp shadow = Inr s" "\<not> path_starts_with s w" "\<not> path_starts_with w s"
    "rt_is_dir env watched" "rt_exists env shadow \<longrightarrow> rt_has_entries env shadow = Inr False"
    by (auto simp: validate_roots_def split: if_splits sum.splits bool.splits)
  have "w @ x \<noteq> s @ y" for x y
    using ws(3,4) by (auto simp: path_starts_with_iff append_eq_append_conv2)
  then show ?thesis using ws by blast
qed
text \<open>
  C33: A started session watches one tree and keeps its repository in another: when \<open>start\<close> succeeds,
  the canonical watched and shadow roots have no path in common, the shadow root had no entries,
  and no path under the canonical shadow root is ever reported, whatever is excluded or ignored.
\<close>

theorem started_roots_separate:
  assumes "start env disp globs watch cx config sink arrivals w now = Inr (l, ws)"
  shows "\<exists>s. canonicalize env (parse_path (cf_watched_root config)) = Inr (ws_root ws)
    \<and> canonical_shadow env disp (cf_shadow_root config) = Inr s
    \<and> (\<forall>x y. ws_root ws @ x \<noteq> s @ y)
    \<and> (rt_exists env (cf_shadow_root config) \<longrightarrow> rt_has_entries env (cf_shadow_root config) = Inr False)
    \<and> (\<forall>y. watched_path ws (Absolute (s @ y)) = None)
    \<and> lv_watcher l = Looping"
proof -
  from assms obtain s0 where s0: "validate_roots env disp (cf_watched_root config) (cf_shadow_root config) = Inr ()"
    "start_watcher env disp globs watch config = Inr ws" "l = live_start now s0"
    by (auto simp: start_def split: sum.splits)
  have root: "canonicalize env (parse_path (cf_watched_root config)) = Inr (ws_root ws)"
    using s0(2) by (auto simp: start_watcher_def split: if_splits sum.splits)
  from roots_separate [OF s0(1)] root obtain s where
    s: "canonical_shadow env disp (cf_shadow_root config) = Inr s" "\<forall>x y. ws_root ws @ x \<noteq> s @ y"
      "rt_exists env (cf_shadow_root config) \<longrightarrow> rt_has_entries env (cf_shadow_root config) = Inr False"
    by auto
  have "path_strip_prefix (s @ y) (ws_root ws) = None" for y
    using s(2) by (auto simp: path_strip_prefix_def path_starts_with_iff) metis
  then have "watched_path ws (Absolute (s @ y)) = None" for y
    by (simp add: watched_path_def watcher_path_def absolute_def)
  then show ?thesis using root s s0(3) by (auto simp: live_start_def)
qed

text \<open>
  The exclusion compares components as they are written: a path of the recorder that is excluded
  under another spelling than the canonical one of the watched root is reported.
\<close>

lemma aliased_exclusion_observed:
  assumes "ws_excluded ws = [alias]" and "\<not> path_starts_with (ws_root ws @ rel) alias"
    and "rel \<noteq> []" and "\<not> ws_ignores ws rel" and "ws_literal_ignores ws = []"
  shows "watched_path ws (Absolute (ws_root ws @ rel)) \<noteq> None"
  using assms
  by (simp add: watched_path_def watcher_path_def absolute_def list_ex_iff path_strip_prefix_def)

section \<open>Witnesses\<close>

text \<open>The demo session: a notification, a timer that is due and fires.\<close>

definition demo_noticed :: "bool list \<Rightarrow> (bool list \<times> event list, nat, nat) live" where
  "demo_noticed script =
     (let l = live_start 0 (demo_start script) in
      l\<lparr>lv_core := (lv_core l)\<lparr>co_audit := apply_input demo_input (co_audit (lv_core l))\<rparr>,
        lv_audit_changed := (lv_audit_changed l \<or> notifies demo_input)\<rparr>)"

definition demo_armed :: "(bool list \<times> event list, nat, nat) live" where
  "demo_armed = arm_timer ((arm_timer (demo_noticed []))\<lparr>lv_watcher := Looping, lv_audit_changed := False\<rparr>)"

lemma demo_config_start: "co_config (demo_start script) = demo_config"
  by (simp add: demo_defs)

lemma demo_noticed_deadline:
  "deadline (cf_quiescence demo_config) (cf_max_delay demo_config) (co_audit (lv_core (demo_noticed script))) = Some 1"
proof -
  have "co_audit (demo_start script) = accumulator_new" by (simp add: demo_defs)
  then show ?thesis
    by (simp add: demo_noticed_def live_start_def Let_def demo_input_def observe_def notify_changed_def
        start_window_def observe_path_def accumulator_new_def audit_state_default_def MAX_AUDIT_PATHS_def
        get_or_insert_def deadline_def demo_config_def)
qed

lemma demo_noticed_fields:
  "lv_watcher (demo_noticed script) = Looping" "lv_paused (demo_noticed script) = False"
  "lv_retry_due (demo_noticed script) = None" "lv_now (demo_noticed script) = 0"
  "co_config (lv_core (demo_noticed script)) = demo_config" "lv_audit_changed (demo_noticed script)"
  "lv_paused_changed (demo_noticed script) = False"
  by (simp_all add: demo_noticed_def live_start_def Let_def demo_config_start demo_input_def)

lemma demo_noticed_armed: "lv_watcher (arm_timer (demo_noticed script)) = Watching (Some 1)"
  using demo_noticed_deadline [of script]
  by (simp add: arm_timer_def Let_def watch_due_def demo_noticed_fields)

lemma demo_noticed_steps: "live_steps demo_cx (live_start 0 (demo_start script)) (demo_noticed script)"
proof -
  have "watch_step demo_cx (live_start 0 (demo_start script)) (demo_noticed script)"
    unfolding demo_noticed_def Let_def by (rule notified) (simp add: demo_input_def live_start_def)
  then show ?thesis by (auto simp: live_step_def)
qed

lemma live_steps_watch: "live_steps cx l l1 \<Longrightarrow> watch_step cx l1 l2 \<Longrightarrow> live_steps cx l l2"
  by (erule rtranclp.rtrancl_into_rtrancl) (simp add: live_step_def)

lemma demo_armed_steps: "live_steps demo_cx (live_start 0 (demo_start [])) demo_armed"
  unfolding demo_armed_def
  by (rule live_steps_watch [OF live_steps_watch [OF live_steps_watch [OF demo_noticed_steps
        arm [OF demo_noticed_fields(1)]] wake_audit [OF demo_noticed_armed]] arm])
    (simp_all add: demo_noticed_fields)

lemma demo_armed_fields:
  "lv_watcher demo_armed = Watching (Some 1)" "\<not> lv_audit_changed demo_armed"
  "\<not> lv_paused_changed demo_armed" "\<not> lv_paused demo_armed"
  "lv_core demo_armed = lv_core (demo_noticed [])"
  using demo_noticed_deadline [of "[]"]
  by (simp_all add: demo_armed_def demo_noticed_fields arm_timer_def Let_def watch_due_def)

theorem timer_never_lost_witness:
  "is_dirty (co_audit (lv_core demo_armed))
    \<and> (\<exists>d t. Some 1 = Some d \<and> d \<le> t
        \<and> deadline (cf_quiescence demo_config) (cf_max_delay demo_config) (co_audit (lv_core demo_armed)) = Some t)"
proof -
  have "is_dirty (co_audit (lv_core demo_armed))" by code_simp
  with timer_never_lost [OF demo_accumulator demo_init demo_armed_steps demo_armed_fields(1-3)]
  show ?thesis using demo_armed_fields(4) by simp
qed

text \<open>The timer of the demo session fires a tick late.\<close>

definition demo_fired :: "(bool list \<times> event list, nat, nat) live" where
  "demo_fired = fire demo_cx (demo_armed\<lparr>lv_now := 2\<rparr>)"

lemma demo_fired_steps: "live_steps demo_cx (live_start 0 (demo_start [])) demo_fired"
proof -
  have "lv_now demo_armed = 0" by (simp add: demo_armed_def demo_noticed_fields)
  then have "watch_step demo_cx demo_armed (demo_armed\<lparr>lv_now := 2\<rparr>)" by (intro wait) simp
  moreover have "watch_step demo_cx (demo_armed\<lparr>lv_now := 2\<rparr>) demo_fired"
    unfolding demo_fired_def by (rule timer [of _ 1]) (simp_all add: demo_armed_fields)
  ultimately show ?thesis using demo_armed_steps live_steps_watch by metis
qed



text \<open>A resume whose report of the observed path is refused.\<close>

definition demo_paused :: "(bool list \<times> event list, nat, nat) live" where
  "demo_paused = (demo_noticed [True])\<lparr>lv_paused := True\<rparr>"

lemma demo_resume_fails:
  "\<exists>s. handle_command demo_cx Resume (lv_core demo_paused) = Some (R_flush (Inl (Sink_failed (Failed ''refused''))), s)"
proof -
  have "(case handle_command demo_cx Resume (lv_core demo_paused) of
      Some (r, s) \<Rightarrow> r = R_flush (Inl (Sink_failed (Failed ''refused''))) | None \<Rightarrow> False)"
    by code_simp
  then show ?thesis by (auto split: option.splits)
qed

theorem failed_resume_stalls_witness:
  "\<exists>s. handle_command demo_cx Resume (lv_core demo_paused) = Some (R_flush (Inl (Sink_failed (Failed ''refused''))), s)
    \<and> (let l' = resume_replied (R_flush (Inl (Sink_failed (Failed ''refused'')))) (core_moved s demo_paused) in
       \<not> st_paused (status_of (lv_core l')) \<and> lv_paused l' \<and> (\<forall>d. lv_watcher l' \<noteq> Watching (Some d)))"
proof -
  obtain s where s: "handle_command demo_cx Resume (lv_core demo_paused)
      = Some (R_flush (Inl (Sink_failed (Failed ''refused''))), s)"
    using demo_resume_fails by blast
  have "lv_paused demo_paused" "lv_watcher demo_paused = Looping"
    by (simp_all add: demo_paused_def demo_noticed_fields)
  then show ?thesis
    using s failed_resume_stalls [OF s _ _ rtranclp.rtrancl_refl] unfolding Let_def by blast
qed

text \<open>A sink that is busy, and a session that keeps a snapshot event for it.\<close>

definition busy_cx :: "(unit, nat, nat) ctx" where
  "busy_cx = \<lparr>cx_sink = \<lparr>so_emit = (\<lambda>e s. (Inl (Transient ''busy''), s)),
       so_flush = (\<lambda>s. (Inr (), s)), so_flush_session = (\<lambda>r s. (Inr (), s))\<rparr>,
     cx_jj = demo_jj, cx_now = (\<lambda>k. ''now''), cx_version = ''0''\<rparr>"

definition busy_snapshot :: snapshot where
  "busy_snapshot = \<lparr>sn_op = ''o'', sn_parent_op = ''p'', sn_commit = ''c'', sn_tree = ''t'',
     sn_changes = [], sn_stats = change_stats_default, sn_truncated = False\<rparr>"

definition busy_event :: event where
  "busy_event = event_at ''demo'' 0 ''now'' (Snapshot busy_snapshot)"

definition busy_live :: "(unit, nat, nat) live" where
  "busy_live =
     (live_start 5 ((coordinator_new demo_config () (apply_input demo_input accumulator_new) []
          (co_recorder (demo_start [])))\<lparr>co_pending_snapshot_event := Some busy_event\<rparr>))
       \<lparr>lv_watcher := Watching (Some 1)\<rparr>"

theorem retry_spins_witness:
  "\<exists>l'. (watch_step busy_cx)\<^sup>*\<^sup>* busy_live l' \<and> lv_now l' = 5 \<and> lv_retry_due l' = Some 6
    \<and> lv_watcher l' = Watching (Some 1) \<and> lv_core l' = (lv_core busy_live)\<lparr>co_sink := ()\<rparr>"
proof -
  have b: "lv_watcher busy_live = Watching (Some 1)" "(1 :: nat) \<le> lv_now busy_live" "\<not> lv_paused busy_live"
    "co_pending_snapshot_event (lv_core busy_live) = Some busy_event"
    "ev_body busy_event = Snapshot busy_snapshot" "ev_seq busy_event = co_seq (lv_core busy_live)"
    "so_emit (cx_sink busy_cx) busy_event (co_sink (lv_core busy_live)) = (Inl (Transient ''busy''), ())"
    "\<not> fatal_capture_error (Sink_failed (Transient ''busy''))"
    "co_config (lv_core busy_live) = demo_config" "lv_now busy_live = 5"
    by (simp_all add: busy_live_def live_start_def busy_event_def coordinator_new_def busy_cx_def)
  have d: "deadline (cf_quiescence (co_config (lv_core busy_live))) (cf_max_delay (co_config (lv_core busy_live)))
      (co_audit (lv_core busy_live)) = Some 1"
    by code_simp
  have "cf_quiescence demo_config = 1" by (simp add: demo_config_def)
  then show ?thesis
    using retry_spins [OF b(1-8) d b(2)] b(9,10) by simp
qed

text \<open>A watcher of \<open>/w\<close> whose spool is \<open>/w/spool\<close>.\<close>

definition demo_roots :: root_env where
  "demo_roots = \<lparr>rt_is_dir = (\<lambda>p. True), rt_exists = (\<lambda>p. False), rt_has_entries = (\<lambda>p. Inr False),
     rt_canonicalize = Inr, rt_current_dir = Inr [''home'']\<rparr>"

definition demo_globs :: "string glob_ops" where
  "demo_globs = \<lparr>go_new = Inr, go_build = (\<lambda>gs. Inr (\<lambda>p. join_with ''/'' p \<in> set gs))\<rparr>"

definition demo_watch_config :: config where
  "demo_watch_config = demo_config\<lparr>cf_excluded_paths := [''/w/spool''], cf_ignore := [''.git'']\<rparr>"

definition demo_setup :: watch_setup where
  "demo_setup = projr (start_watcher demo_roots (\<lambda>e. []) demo_globs (\<lambda>p. Inr ()) demo_watch_config)"

definition demo_own_write :: notify_event where
  "demo_own_write = \<lparr>ne_kind = Kind_modify Modify_data,
     ne_paths = [Absolute [''w'', ''spool'', ''events.ndjson'']], ne_rescan = False\<rparr>"

lemma demo_parsed: "absolute (Inr [''home'']) (parse_path ''/w/spool'') = Inr [''w'', ''spool'']"
  by code_simp

theorem own_writes_unobserved_witness:
  "apply_inputs (watch_callback demo_setup ''t'' 3 (Inr demo_own_write)) accumulator_new = accumulator_new"
proof (rule own_writes_unobserved)
  show "start_watcher demo_roots (\<lambda>e. []) demo_globs (\<lambda>p. Inr ()) demo_watch_config = Inr demo_setup"
    by (simp add: demo_setup_def start_watcher_def demo_watch_config_def demo_config_def canonicalize_def
        demo_roots_def build_ignore_set_def demo_globs_def absolute_def split: sum.splits)
      (simp add: parse_path_def starts_with_def Let_def)
  show "\<not> ne_rescan demo_own_write" by (simp add: demo_own_write_def)
  show "\<forall>p \<in> set (ne_paths demo_own_write). \<exists>own \<in> set (cf_excluded_paths demo_watch_config). \<exists>base rest.
      absolute (rt_current_dir demo_roots) (parse_path own) = Inr base
      \<and> absolute (rt_current_dir demo_roots) p = Inr (base @ rest)"
    using demo_parsed
    by (simp add: demo_own_write_def demo_watch_config_def demo_roots_def absolute_def)
qed

lemma demo_started:
  "\<exists>l ws. start demo_roots (\<lambda>e. []) demo_globs (\<lambda>p. Inr ()) demo_cx demo_config ([], []) [] 0 0 = Inr (l, ws)"
proof -
  have "(case start demo_roots (\<lambda>e. []) demo_globs (\<lambda>p. Inr ()) demo_cx demo_config ([], []) [] 0 0 of
      Inr (l, ws) \<Rightarrow> True | Inl e \<Rightarrow> False)"
    by code_simp
  then show ?thesis by (auto split: sum.splits)
qed

theorem started_roots_separate_witness:
  "\<exists>l ws s. start demo_roots (\<lambda>e. []) demo_globs (\<lambda>p. Inr ()) demo_cx demo_config ([], []) [] 0 0 = Inr (l, ws)
    \<and> canonical_shadow demo_roots (\<lambda>e. []) ''/s'' = Inr s
    \<and> (\<forall>y. watched_path ws (Absolute (s @ y)) = None)"
proof -
  obtain l ws where d: "start demo_roots (\<lambda>e. []) demo_globs (\<lambda>p. Inr ()) demo_cx demo_config ([], []) [] 0 0
      = Inr (l, ws)"
    using demo_started by blast
  have "cf_shadow_root demo_config = ''/s''" by (simp add: demo_config_def)
  then show ?thesis using d started_roots_separate [OF d] by metis
qed

end
