(* ===== verification/Cursor_File.thy ===== *)
theory Cursor_File
  imports Sink_Util
begin

text \<open>
  The cursor file of a publisher (\<open>write_json_atomic\<close> and \<open>write_cursor_atomic\<close> of
  \<open>crates/rrjj-sinks/src/util.rs\<close>) and the text of decimal numbers.

  The file is absent, or holds text that does not decode, or a value. Writing goes through a
  temporary file: it is written, synced and renamed, then the directory is synced. Each of the
  four calls consumes an entry of the fault script; only the rename changes the file.
\<close>

record 'c cursor_file =
  cf_content :: "(string + 'c) option"
  cf_faults :: "io_fault list"

definition file_call :: "('c cursor_file \<Rightarrow> 'c cursor_file) \<Rightarrow> ('c cursor_file, io_error, unit) op" where
  "file_call change f =
     (case cf_faults f of
        [] \<Rightarrow> (Inr (), change f)
      | None # fs \<Rightarrow> (Inr (), change (f\<lparr>cf_faults := fs\<rparr>))
      | Some (e, n) # fs \<Rightarrow> (Inl e, f\<lparr>cf_faults := fs\<rparr>))"

definition write_json_atomic :: "'c \<Rightarrow> ('c cursor_file, io_error, unit) op" where
  "write_json_atomic value =
     bindE (file_call id) (\<lambda>_.
     bindE (file_call id) (\<lambda>_.
     bindE (file_call (\<lambda>f. f\<lparr>cf_content := Some (Inr value)\<rparr>)) (\<lambda>_.
       file_call id)))"

definition write_cursor_atomic :: "sink_cursor \<Rightarrow> (sink_cursor cursor_file, io_error, unit) op" where
  "write_cursor_atomic cursor = write_json_atomic cursor"

text \<open>Reading it: \<open>fs::read\<close>, then the decoder; an absent file is no cursor.\<close>

definition read_cursor :: "'c cursor_file \<Rightarrow> sink_error + 'c option" where
  "read_cursor f =
     (case cf_faults f of
        Some (e, n) # fs \<Rightarrow> if io_not_found e then Inr None else Inl (Io e)
      | _ \<Rightarrow>
          (case cf_content f of
             None \<Rightarrow> Inr None
           | Some (Inl m) \<Rightarrow> Inl (Serialize m)
           | Some (Inr c) \<Rightarrow> Inr (Some c)))"

lemma file_call_cases:
  assumes "file_call change f = (r, g)"
  obtains (ok) fs where "r = Inr ()" "g = change (f\<lparr>cf_faults := fs\<rparr>)"
  | (err) e fs where "r = Inl e" "g = f\<lparr>cf_faults := fs\<rparr>"
proof (cases "cf_faults f")
  case Nil
  then have same: "f\<lparr>cf_faults := []\<rparr> = f" by (cases f) simp
  show thesis by (rule ok [of "[]"]) (use assms Nil in \<open>simp_all add: file_call_def same\<close>)
next
  case (Cons x fs)
  show thesis
  proof (cases x)
    case None
    show thesis by (rule ok [of fs]) (use assms Cons None in \<open>auto simp: file_call_def\<close>)
  next
    case (Some p)
    show thesis by (rule err [of "fst p" fs]) (use assms Cons Some in \<open>auto simp: file_call_def split: prod.splits\<close>)
  qed
qed

text \<open>The file holds the old content or the new one, and the new one on success.\<close>

lemma write_json_content:
  assumes "write_json_atomic c f = (r, g)"
  shows "(cf_content g = cf_content f \<or> cf_content g = Some (Inr c))
    \<and> (r = Inr () \<longrightarrow> cf_content g = Some (Inr c))"
  using assms unfolding write_json_atomic_def
  by (cases r) (auto elim!: bindE_InrE bindE_InlE file_call_cases)

lemma write_json_no_faults:
  "cf_faults f = [] \<Longrightarrow> write_json_atomic c f = (Inr (), f\<lparr>cf_content := Some (Inr c)\<rparr>)"
  by (simp add: write_json_atomic_def bindE_def file_call_def)

lemma write_cursor_no_faults:
  "cf_faults f = [] \<Longrightarrow> write_cursor_atomic c f = (Inr (), f\<lparr>cf_content := Some (Inr c)\<rparr>)"
  by (simp add: write_cursor_atomic_def write_json_no_faults)

section \<open>Decimal numbers\<close>

text \<open>\<open>str::parse::<u64>\<close>: an optional plus sign, then digits without overflow.\<close>

definition digit_value :: "char \<Rightarrow> nat option" where
  "digit_value c = (let n = (of_char c :: nat) in if 48 \<le> n \<and> n \<le> 57 then Some (n - 48) else None)"

fun parse_digits :: "nat \<Rightarrow> string \<Rightarrow> nat option" where
  "parse_digits acc [] = Some acc"
| "parse_digits acc (c # s) =
     (case digit_value c of None \<Rightarrow> None | Some d \<Rightarrow> parse_digits (10 * acc + d) s)"

definition parse_u64 :: "string \<Rightarrow> u64 option" where
  "parse_u64 s =
     (let ds = (case s of c # cs \<Rightarrow> if c = CHR ''+'' then cs else s | [] \<Rightarrow> []) in
      if ds = [] then None
      else (case parse_digits 0 ds of
              None \<Rightarrow> None
            | Some n \<Rightarrow> if n < 2 ^ 64 then Some (word_of_nat n) else None))"

end
