(* ===== verification/Http_Sink.thy ===== *)
theory Http_Sink
  imports Cursor_File
begin

text \<open>
  \<open>HttpEventSink\<close> (\<open>crates/rrjj-sinks/src/http.rs\<close>): batches of events posted to a server, with
  retries, and a cursor of the sequence number delivered.

  The network is the parameter \<open>send\<close>: a function of the batch and of the state of the world that
  answers with a transport error or a response. The JSON of events and acknowledgements and the
  text of a status are parameters too. The sink's state also logs, for the statements, the batches
  sent, those acknowledged, and the milliseconds slept; nothing reads the logs. The attempt counter
  is a natural number: the daemon allows 8 retries, so that the code's \<open>u32\<close> does not wrap.
\<close>

record http_config =
  hc_authorization :: "string option"
  hc_max_events_per_batch :: nat
  hc_max_bytes_per_batch :: nat
  hc_max_retries :: nat

record http_batch =
  hb_schema_version :: u8
  hb_session_id :: string
  hb_events :: "event list"
  hb_durable :: "durable_watermark option"

record http_response =
  hr_status :: nat
  hr_retry_after :: "string option"
  hr_text :: "string + string"

record 'w http_sink =
  hs_config :: http_config
  hs_delivered_seq :: "u64 option"
  hs_cursor :: "sink_cursor cursor_file"
  hs_world :: 'w
  hs_sent :: "http_batch list"
  hs_acked :: "http_batch list"
  hs_slept :: "nat list"

type_synonym 'w transport = "http_batch \<Rightarrow> 'w \<Rightarrow> (string + http_response) \<times> 'w"

type_synonym ('w, 'a) hop = "('w http_sink, sink_error, 'a) op"

section \<open>Opening\<close>

definition read_delivered_seq :: "sink_cursor cursor_file \<Rightarrow> sink_error + u64 option" where
  "read_delivered_seq file =
     (case read_cursor file of
        Inl e \<Rightarrow> Inl e
      | Inr None \<Rightarrow> Inr None
      | Inr (Some c) \<Rightarrow> Inr (sc_delivered_seq c))"

definition http_create :: "http_config \<Rightarrow> sink_cursor cursor_file \<Rightarrow> string option \<Rightarrow> 'w \<Rightarrow> sink_error + 'w http_sink" where
  "http_create config file client_error world =
     (if hc_max_events_per_batch config = 0 then
        Inl (InvalidConfig ''event HTTP max batch events must be greater than zero'')
      else if hc_max_bytes_per_batch config = 0 then
        Inl (InvalidConfig ''event HTTP max batch bytes must be greater than zero'')
      else
        (case read_delivered_seq file of
           Inl e \<Rightarrow> Inl e
         | Inr delivered \<Rightarrow>
             (case client_error of
                Some m \<Rightarrow> Inl (InvalidConfig (''build HTTP client: '' @ m))
              | None \<Rightarrow>
                  Inr \<lparr>hs_config = config, hs_delivered_seq = delivered, hs_cursor = file,
                       hs_world = world, hs_sent = [], hs_acked = [], hs_slept = []\<rparr>)))"

section \<open>Pure helpers\<close>

definition sanitized :: "http_config \<Rightarrow> string \<Rightarrow> string" where
  "sanitized config message =
     redact_secrets message (case hc_authorization config of None \<Rightarrow> [] | Some v \<Rightarrow> [v])"

datatype http_class = Success | Conflict | Retryable | Permanent

definition classify_http_status :: "nat \<Rightarrow> http_class" where
  "classify_http_status status =
     (if 200 \<le> status \<and> status < 300 then Success
      else if status = 409 then Conflict
      else if status = 429 \<or> 500 \<le> status \<and> status < 600 then Retryable
      else Permanent)"

fun validate_contiguous :: "event list \<Rightarrow> sink_error + unit" where
  "validate_contiguous (a # b # es) =
     (if ev_seq b \<noteq> ev_seq a + 1 then
        Inl (EventConflict (''HTTP event batch is not contiguous: '' @ show_u64 (ev_seq a)
          @ '' then '' @ show_u64 (ev_seq b)))
      else validate_contiguous (b # es))"
| "validate_contiguous _ = Inr ()"

definition validate_ack ::
  "event_acknowledgement \<Rightarrow> event list \<Rightarrow> durable_watermark option \<Rightarrow> sink_error + unit" where
  "validate_ack ack events durable =
     (if ea_accepted_through_seq ack < ev_seq (last events) then
        Inl (Failed (''HTTP acknowledgement accepted_through_seq ''
          @ show_u64 (ea_accepted_through_seq ack) @ '' is before batch end ''
          @ show_u64 (ev_seq (last events))))
      else
        (case durable of
           None \<Rightarrow> Inr ()
         | Some d \<Rightarrow>
             (case ea_durable_through_seq ack of
                Some seq \<Rightarrow>
                  if dw_seq d \<le> seq then Inr ()
                  else Inl (Failed (''HTTP acknowledgement durable_through_seq '' @ show_u64 seq
                    @ '' is before requested '' @ show_u64 (dw_seq d)))
              | None \<Rightarrow> Inl (Failed
                  ''HTTP acknowledgement missing durable_through_seq for final durable batch''))))"

text \<open>The loop of \<open>take_batch\<close>, over the events it may take.\<close>

fun batch_count ::
  "(event \<Rightarrow> string + bytes) \<Rightarrow> nat \<Rightarrow> nat \<Rightarrow> nat \<Rightarrow> event list \<Rightarrow> sink_error + nat" where
  "batch_count to_vec max_bytes bytes count [] = Inr count"
| "batch_count to_vec max_bytes bytes count (event # events) =
     (case to_vec event of
        Inl m \<Rightarrow> Inl (Serialize m)
      | Inr encoded \<Rightarrow>
          (let extra = length encoded + (if count = 0 then 0 else 1) in
           if 0 < count \<and> max_bytes < bytes + extra then Inr count
           else if count = 0 \<and> max_bytes < length encoded + 2 then
             Inl (InvalidFlush (''single event at seq '' @ show_u64 (ev_seq event)
               @ '' exceeds HTTP batch byte limit '' @ show_nat max_bytes))
           else batch_count to_vec max_bytes (bytes + extra) (count + 1) events))"

definition take_batch ::
  "(event \<Rightarrow> string + bytes) \<Rightarrow> nat \<Rightarrow> nat \<Rightarrow> event list \<Rightarrow> sink_error + event list" where
  "take_batch to_vec max_events max_bytes events =
     (case batch_count to_vec max_bytes 2 0 (take max_events events) of
        Inl e \<Rightarrow> Inl e
      | Inr count \<Rightarrow> Inr (take (min (max count 1) (length events)) events))"

section \<open>Posting one batch\<close>

definition sleep :: "nat \<Rightarrow> 'w http_sink \<Rightarrow> 'w http_sink" where
  "sleep ms s = s\<lparr>hs_slept := hs_slept s @ [ms]\<rparr>"

definition next_backoff :: "nat \<Rightarrow> nat" where
  "next_backoff backoff = min (backoff * 2) 5000"

definition retry_after_ms :: "http_response \<Rightarrow> nat option" where
  "retry_after_ms response =
     (case hr_retry_after response of
        None \<Rightarrow> None
      | Some value \<Rightarrow> map_option (\<lambda>secs. unat secs * 1000) (parse_u64 value))"

definition acknowledge :: "http_batch \<Rightarrow> 'w http_sink \<Rightarrow> 'w http_sink" where
  "acknowledge batch s = s\<lparr>hs_acked := hs_acked s @ [batch]\<rparr>"

text \<open>The http_reply to a success and to a conflict.\<close>

definition accept_success ::
  "(string \<Rightarrow> string + event_acknowledgement) \<Rightarrow> http_config \<Rightarrow> http_batch \<Rightarrow> string
     \<Rightarrow> sink_error + event_acknowledgement" where
  "accept_success parse_ack config batch text =
     (case parse_ack text of
        Inl m \<Rightarrow> Inl (Failed (sanitized config
          (''HTTP event sink returned malformed acknowledgement: '' @ m)))
      | Inr ack \<Rightarrow>
          (case validate_ack ack (hb_events batch) (hb_durable batch) of
             Inl e \<Rightarrow> Inl e
           | Inr _ \<Rightarrow> Inr ack))"

definition accept_conflict ::
  "(string \<Rightarrow> string + event_acknowledgement) \<Rightarrow> (sink_error \<Rightarrow> string) \<Rightarrow> http_config \<Rightarrow> http_batch
     \<Rightarrow> string \<Rightarrow> sink_error + event_acknowledgement" where
  "accept_conflict parse_ack display config batch text =
     (case parse_ack text of
        Inl m \<Rightarrow> Inl (EventConflict (sanitized config
          (''HTTP 409 without identical acknowledgement: '' @ m @ ''; body redacted'')))
      | Inr ack \<Rightarrow>
          (case validate_ack ack (hb_events batch) (hb_durable batch) of
             Inl e \<Rightarrow> Inl (EventConflict (sanitized config (display e)))
           | Inr _ \<Rightarrow> Inr ack))"

text \<open>What the code relies on outside it.\<close>

record 'w http_env =
  he_send :: "'w transport"
  he_to_vec :: "event \<Rightarrow> string + bytes"
  he_parse_ack :: "string \<Rightarrow> string + event_acknowledgement"
  he_display :: "sink_error \<Rightarrow> string"
  he_status_text :: "nat \<Rightarrow> string"

datatype 'a attempt = Return 'a | Retry nat

text \<open>One turn of the loop: the result, or how long to sleep before the next.\<close>

definition attempt_post ::
  "'w http_env \<Rightarrow> http_batch \<Rightarrow> nat \<Rightarrow> nat \<Rightarrow> 'w http_sink
     \<Rightarrow> (sink_error + event_acknowledgement) attempt \<times> 'w http_sink" where
  "attempt_post env batch attempt backoff s0 =
     (case he_send env batch (hs_world s0) of
        (r, w) \<Rightarrow>
          (let s = s0\<lparr>hs_world := w, hs_sent := hs_sent s0 @ [batch]\<rparr>; config = hs_config s in
           case r of
             Inl m \<Rightarrow>
               (if hc_max_retries config < attempt then (Return (Inl (Transient (sanitized config m))), s)
                else (Retry backoff, s))
           | Inr response \<Rightarrow>
               (case hr_text response of
                  Inl m \<Rightarrow> (Return (Inl (Transient (sanitized config m))), s)
                | Inr text \<Rightarrow>
                    (case classify_http_status (hr_status response) of
                       Success \<Rightarrow> (Return (accept_success (he_parse_ack env) config batch text), s)
                     | Conflict \<Rightarrow>
                         (Return (accept_conflict (he_parse_ack env) (he_display env) config batch text), s)
                     | Retryable \<Rightarrow>
                         (if hc_max_retries config < attempt then
                            (Return (Inl (Transient (sanitized config (''HTTP event sink failed with ''
                               @ he_status_text env (hr_status response))))), s)
                          else (Retry (case retry_after_ms response of Some ms \<Rightarrow> ms | None \<Rightarrow> backoff), s))
                     | Permanent \<Rightarrow>
                         (Return (Inl (Failed (sanitized config
                            (''HTTP event sink permanently rejected batch with ''
                             @ he_status_text env (hr_status response))))), s)))))"

lemma attempt_post_retry:
  "attempt_post env batch attempt backoff s = (Retry ms, t) \<Longrightarrow>
     attempt \<le> hc_max_retries (hs_config s) \<and> hs_config t = hs_config s"
  by (auto simp: attempt_post_def Let_def split: prod.splits sum.splits http_class.splits if_splits)

function post_loop ::
  "'w http_env \<Rightarrow> http_batch \<Rightarrow> nat \<Rightarrow> nat \<Rightarrow> ('w, event_acknowledgement) hop" where
  "post_loop env batch attempt backoff s =
     (case attempt_post env batch (attempt + 1) backoff s of
        (Return (Inl e), t) \<Rightarrow> (Inl e, t)
      | (Return (Inr ack), t) \<Rightarrow> (Inr ack, acknowledge batch t)
      | (Retry ms, t) \<Rightarrow> post_loop env batch (attempt + 1) (next_backoff backoff) (sleep ms t))"
  by pat_completeness auto

termination
proof (relation "measure (\<lambda>(env, batch, attempt, backoff, s). hc_max_retries (hs_config s) + 1 - attempt)")
  fix env :: "'w http_env" and batch attempt backoff ms and s t :: "'w http_sink"
    and y :: "(sink_error + event_acknowledgement) attempt"
  assume "(y, t) = attempt_post env batch (attempt + 1) backoff s" "y = Retry ms"
  then have "attempt_post env batch (attempt + 1) backoff s = (Retry ms, t)" by simp
  note r = attempt_post_retry [OF this]
  show "((env, batch, attempt + 1, next_backoff backoff, sleep ms t), env, batch, attempt, backoff, s)
      \<in> measure (\<lambda>(env, batch, attempt, backoff, s). hc_max_retries (hs_config s) + 1 - attempt)"
    using r by (auto simp: sleep_def Suc_diff_le)
qed simp

declare post_loop.simps [simp del]

definition post_batch ::
  "'w http_env \<Rightarrow> event_publish_request \<Rightarrow> event list \<Rightarrow> durable_watermark option
     \<Rightarrow> ('w, event_acknowledgement) hop" where
  "post_batch env request events durable =
     post_loop env \<lparr>hb_schema_version = ep_schema_version request, hb_session_id = ep_session_id request,
                    hb_events = events, hb_durable = durable\<rparr> 0 50"

section \<open>Publishing\<close>

text \<open>How many events of the request are delivered already, and the guards on the rest.\<close>

fun skip_delivered :: "u64 \<Rightarrow> event list \<Rightarrow> nat" where
  "skip_delivered delivered [] = 0"
| "skip_delivered delivered (e # es) =
     (if ev_seq e \<le> delivered then Suc (skip_delivered delivered es) else 0)"

definition publish_start :: "event_publish_request \<Rightarrow> u64 option \<Rightarrow> sink_error + nat" where
  "publish_start request already =
     (case already of
        Some delivered \<Rightarrow>
          (let start = skip_delivered delivered (ep_events request) in
           if start = length (ep_events request) then Inr start
           else if ev_seq (ep_events request ! start) \<noteq> delivered + 1 then
             Inl (EventConflict (''HTTP event sink sequence gap after delivered ''
               @ show_u64 delivered @ '': next is '' @ show_u64 (ev_seq (ep_events request ! start))))
           else Inr start)
      | None \<Rightarrow>
          if ev_seq (ep_events request ! 0) \<noteq> 0 then
            Inl (EventConflict (''HTTP event sink requires batches to start at seq 0, got ''
              @ show_u64 (ev_seq (ep_events request ! 0))))
          else Inr 0)"

definition record_delivery ::
  "event_publish_request \<Rightarrow> event_acknowledgement \<Rightarrow> ('w, unit) hop" where
  "record_delivery request ack s =
     (case write_cursor_atomic
             \<lparr>sc_delivered_seq = Some (ea_accepted_through_seq ack), sc_delivered_op = None,
              sc_checkpoint = map_option dw_checkpoint (ep_durable request)\<rparr> (hs_cursor s) of
        (Inl e, f) \<Rightarrow>
          (Inl (Io e), s\<lparr>hs_delivered_seq := Some (ea_accepted_through_seq ack), hs_cursor := f\<rparr>)
      | (Inr _, f) \<Rightarrow>
          (Inr (), s\<lparr>hs_delivered_seq := Some (ea_accepted_through_seq ack), hs_cursor := f\<rparr>))"

text \<open>
  The loop over the remaining events. Every batch has an event, so the events get fewer.
\<close>

lemma take_batch_nonempty:
  "take_batch tv me mb events = Inr b \<Longrightarrow> events \<noteq> [] \<Longrightarrow> \<exists>n. 0 < n \<and> n \<le> length events \<and> b = take n events"
  by (auto simp: take_batch_def split: sum.splits intro!: exI [of _ "min (max _ 1) (length events)"])

function publish_rest ::
  "'w http_env \<Rightarrow> event_publish_request \<Rightarrow> event list \<Rightarrow> event_acknowledgement
     \<Rightarrow> ('w, event_acknowledgement) hop" where
  "publish_rest env request remaining last_ack s =
     (if remaining = [] then (Inr last_ack, s)
      else
        (case take_batch (he_to_vec env) (hc_max_events_per_batch (hs_config s))
                (hc_max_bytes_per_batch (hs_config s)) remaining of
           Inl e \<Rightarrow> (Inl e, s)
         | Inr batch \<Rightarrow>
             (let rest = drop (length batch) remaining;
                  durable = (if rest = [] then ep_durable request else None) in
              case post_batch env request batch durable s of
                (Inl e, s) \<Rightarrow> (Inl e, s)
              | (Inr ack, s) \<Rightarrow>
                  (case record_delivery request ack s of
                     (Inl e, s) \<Rightarrow> (Inl e, s)
                   | (Inr _, s) \<Rightarrow> publish_rest env request rest ack s))))"
  by pat_completeness auto

termination
proof (relation "measure (\<lambda>(env, request, remaining, last_ack, s). length remaining)")
  fix env :: "'w http_env" and request and remaining :: "event list" and last_ack ack
    and s s2 :: "'w http_sink" and batch rest
  assume "remaining \<noteq> []" "take_batch (he_to_vec env) (hc_max_events_per_batch (hs_config s))
      (hc_max_bytes_per_batch (hs_config s)) remaining = Inr batch"
    and rest: "rest = drop (length batch) remaining"
  then have "0 < length batch" "remaining \<noteq> []" using take_batch_nonempty by fastforce+
  then show "((env, request, rest, ack, s2), env, request, remaining, last_ack, s)
      \<in> measure (\<lambda>(env, request, remaining, last_ack, s). length remaining)"
    using rest by simp
qed simp

declare publish_rest.simps [simp del]

definition publish_events :: "'w http_env \<Rightarrow> event_publish_request \<Rightarrow> ('w, event_acknowledgement) hop" where
  "publish_events env request s =
     (if ep_events request = [] then
        (Inl (InvalidFlush ''HTTP event sink requires a contiguous non-empty event batch''), s)
      else
        (case validate_contiguous (ep_events request) of
           Inl e \<Rightarrow> (Inl e, s)
         | Inr _ \<Rightarrow>
             (case publish_start request (hs_delivered_seq s) of
                Inl e \<Rightarrow> (Inl e, s)
              | Inr start \<Rightarrow>
                  (case hs_delivered_seq s of
                     Some delivered \<Rightarrow>
                       if start = length (ep_events request) then
                         (Inr \<lparr>ea_accepted_through_seq = delivered,
                               ea_durable_through_seq = map_option dw_seq (ep_durable request)\<rparr>, s)
                       else publish_rest env request (drop start (ep_events request))
                         \<lparr>ea_accepted_through_seq = (if delivered = 0 then 0 else delivered - 1),
                          ea_durable_through_seq = None\<rparr> s
                   | None \<Rightarrow> publish_rest env request (drop start (ep_events request))
                         \<lparr>ea_accepted_through_seq = 0, ea_durable_through_seq = None\<rparr> s))))"

section \<open>One batch\<close>

text \<open>What a post may change: the world and the logs.\<close>

definition posted ::
  "http_batch \<Rightarrow> nat \<Rightarrow> (sink_error + event_acknowledgement) \<Rightarrow> 'w http_sink \<Rightarrow> 'w http_sink \<Rightarrow> bool" where
  "posted batch bound r s t \<longleftrightarrow>
     hs_config t = hs_config s \<and> hs_delivered_seq t = hs_delivered_seq s \<and> hs_cursor t = hs_cursor s
     \<and> hs_acked t = hs_acked s @ (case r of Inl _ \<Rightarrow> [] | Inr _ \<Rightarrow> [batch])
     \<and> (\<exists>n ms. 0 < n \<and> n \<le> bound \<and> hs_sent t = hs_sent s @ replicate n batch
          \<and> hs_slept t = hs_slept s @ ms \<and> length ms = n - 1)
     \<and> (\<forall>ack. r = Inr ack \<longrightarrow> validate_ack ack (hb_events batch) (hb_durable batch) = Inr ())"

lemma attempt_post_frame:
  "attempt_post env batch attempt backoff s = (x, t) \<Longrightarrow>
     hs_config t = hs_config s \<and> hs_delivered_seq t = hs_delivered_seq s \<and> hs_cursor t = hs_cursor s
     \<and> hs_acked t = hs_acked s \<and> hs_sent t = hs_sent s @ [batch] \<and> hs_slept t = hs_slept s"
  by (auto simp: attempt_post_def Let_def split: prod.splits sum.splits http_class.splits if_splits)

lemma attempt_post_ack:
  "attempt_post env batch attempt backoff s = (Return (Inr ack), t) \<Longrightarrow>
     validate_ack ack (hb_events batch) (hb_durable batch) = Inr ()"
  by (auto simp: attempt_post_def Let_def accept_success_def accept_conflict_def
      split: prod.splits sum.splits http_class.splits if_splits)

lemma postedI:
  assumes "hs_config t = hs_config s" "hs_delivered_seq t = hs_delivered_seq s" "hs_cursor t = hs_cursor s"
    and "hs_acked t = hs_acked s @ (case r of Inl _ \<Rightarrow> [] | Inr _ \<Rightarrow> [batch])"
    and "0 < n" "n \<le> bound" "hs_sent t = hs_sent s @ replicate n batch"
    and "hs_slept t = hs_slept s @ ms" "length ms = n - 1"
    and "\<And>ack. r = Inr ack \<Longrightarrow> validate_ack ack (hb_events batch) (hb_durable batch) = Inr ()"
  shows "posted batch bound r s t"
  using assms unfolding posted_def by blast

lemma post_loop_posted:
  "post_loop env batch attempt backoff s = (r, t) \<Longrightarrow> attempt \<le> hc_max_retries (hs_config s) \<Longrightarrow>
     posted batch (hc_max_retries (hs_config s) + 1 - attempt) r s t"
proof (induction env batch attempt backoff s rule: post_loop.induct)
  case (1 env batch attempt backoff s)
  obtain x u where x: "attempt_post env batch (attempt + 1) backoff s = (x, u)" by (rule prod.exhaust)
  note f = attempt_post_frame [OF x]
  show ?case
  proof (cases x)
    case (Return y)
    show ?thesis
    proof (cases y)
      case (Inl e)
      then have "r = Inl e" "t = u" using 1(2) x Return by (simp_all add: post_loop.simps [of env])
      then show ?thesis using f 1(3)
        by (auto simp: posted_def intro!: exI [of _ "Suc 0"] exI [of _ "[]"])
    next
      case (Inr ack)
      then have "r = Inr ack" "t = acknowledge batch u"
        using 1(2) x Return by (simp_all add: post_loop.simps [of env])
      then show ?thesis using f 1(3) attempt_post_ack x Return Inr
        by (auto simp: posted_def acknowledge_def intro!: exI [of _ "Suc 0"] exI [of _ "[]"])
    qed
  next
    case (Retry ms)
    note re = attempt_post_retry [OF x [unfolded Retry]]
    have "post_loop env batch (attempt + 1) (next_backoff backoff) (sleep ms u) = (r, t)"
      using 1(2) x Retry by (simp add: post_loop.simps [of env batch attempt])
    then have p: "posted batch (hc_max_retries (hs_config (sleep ms u)) + 1 - (attempt + 1)) r (sleep ms u) t"
      by (rule 1(1) [OF x [symmetric] Retry]) (use re in \<open>simp add: sleep_def\<close>)
    then obtain n mss where n: "0 < n" "n \<le> hc_max_retries (hs_config s) - attempt"
        "hs_sent t = hs_sent s @ replicate (Suc n) batch"
        "hs_slept t = hs_slept s @ ms # mss" "length mss = n - 1"
      using f by (auto simp: posted_def sleep_def)
    show ?thesis
    proof (rule postedI [of _ _ _ _ "Suc n" _ "ms # mss"])
      show "hs_acked t = hs_acked s @ (case r of Inl _ \<Rightarrow> [] | Inr _ \<Rightarrow> [batch])"
        using p f by (simp add: posted_def sleep_def)
    qed (use p f n in \<open>auto simp: posted_def sleep_def\<close>)
  qed
qed

lemma post_batch_posted:
  assumes "post_batch env request events durable s = (r, t)"
  shows "posted \<lparr>hb_schema_version = ep_schema_version request, hb_session_id = ep_session_id request,
      hb_events = events, hb_durable = durable\<rparr> (hc_max_retries (hs_config s) + 1) r s t"
  using post_loop_posted [OF assms [unfolded post_batch_def]] by simp

section \<open>Batches\<close>

definition encoded_length :: "(event \<Rightarrow> string + bytes) \<Rightarrow> event \<Rightarrow> nat" where
  "encoded_length to_vec e = (case to_vec e of Inl _ \<Rightarrow> 0 | Inr b \<Rightarrow> length b)"

text \<open>The length of the JSON array of the events: brackets, elements and commas.\<close>

definition array_bytes :: "(event \<Rightarrow> string + bytes) \<Rightarrow> event list \<Rightarrow> nat" where
  "array_bytes to_vec es = 2 + sum_list (map (encoded_length to_vec) es) + (length es - 1)"

lemma batch_count_bounds:
  "batch_count tv mb bytes count es = Inr c \<Longrightarrow> 0 < count \<Longrightarrow> bytes \<le> mb \<Longrightarrow>
     \<exists>k. c = count + k \<and> k \<le> length es
       \<and> bytes + sum_list (map (encoded_length tv) (take k es)) + k \<le> mb"
proof (induction es arbitrary: bytes count)
  case (Cons e es)
  obtain b where b: "tv e = Inr b" using Cons.prems by (auto split: sum.splits)
  show ?case
  proof (cases "mb < bytes + (length b + 1)")
    case True
    then show ?thesis using Cons.prems b by (auto simp: Let_def)
  next
    case False
    then have "batch_count tv mb (bytes + (length b + 1)) (count + 1) es = Inr c"
      using Cons.prems b by (simp add: Let_def)
    from Cons.IH [OF this] False obtain k where
      "c = count + 1 + k" "k \<le> length es"
      "bytes + (length b + 1) + sum_list (map (encoded_length tv) (take k es)) + k \<le> mb" by auto
    moreover have "encoded_length tv e = length b" using b by (simp add: encoded_length_def)
    ultimately show ?thesis by (intro exI [of _ "Suc k"]) simp
  qed
qed simp

lemma take_batch_bounds:
  assumes "take_batch tv me mb es = Inr b" and "es \<noteq> []" and "0 < me"
  shows "b \<noteq> [] \<and> prefix b es \<and> length b \<le> me \<and> array_bytes tv b \<le> mb"
proof -
  obtain e es' where es: "es = e # es'" using assms(2) by (cases es) auto
  obtain c where c: "batch_count tv mb 2 0 (take me es) = Inr c" "b = take (min (max c 1) (length es)) es"
    using assms(1) by (auto simp: take_batch_def split: sum.splits)
  have t: "take me es = e # take (me - 1) es'" using assms(3) es by (cases me) simp_all
  obtain x where x: "tv e = Inr x" "length x + 2 \<le> mb"
    "batch_count tv mb (2 + length x) 1 (take (me - 1) es') = Inr c"
    using c(1) t by (auto simp: Let_def split: sum.splits if_splits)
  from batch_count_bounds [OF x(3)] x(2) obtain k where
    k: "c = 1 + k" "k \<le> length (take (me - 1) es')"
    "2 + length x + sum_list (map (encoded_length tv) (take k (take (me - 1) es'))) + k \<le> mb" by auto
  have kk: "k \<le> length es'" "k \<le> me - 1" using k(2) by simp_all
  then have "b = take (Suc k) es" using c(2) k(1) es by (simp add: min_def)
  then have "b = e # take k (take (me - 1) es')" "length (take k (take (me - 1) es')) = k" "length b \<le> me"
    using kk es assms(3) by (simp_all add: min_def)
  moreover have "prefix b es" using c(2) by (simp add: take_is_prefix)
  moreover have "encoded_length tv e = length x" using x(1) by (simp add: encoded_length_def)
  ultimately show ?thesis using k(3) by (simp add: array_bytes_def)
qed

section \<open>A publication\<close>

definition http_batch_ok :: "'w http_env \<Rightarrow> http_config \<Rightarrow> event_publish_request \<Rightarrow> http_batch \<Rightarrow> bool" where
  "http_batch_ok env config request b \<longleftrightarrow>
     hb_schema_version b = ep_schema_version request \<and> hb_session_id b = ep_session_id request
     \<and> hb_events b \<noteq> [] \<and> length (hb_events b) \<le> hc_max_events_per_batch config
     \<and> array_bytes (he_to_vec env) (hb_events b) \<le> hc_max_bytes_per_batch config"

text \<open>The last batch, and only the last, asks for durability, and got it.\<close>

definition durable_last ::
  "event_publish_request \<Rightarrow> http_batch list \<Rightarrow> event_acknowledgement \<Rightarrow> bool" where
  "durable_last request bs ack \<longleftrightarrow>
     hb_durable (last bs) = ep_durable request \<and> (\<forall>b \<in> set (butlast bs). hb_durable b = None)
     \<and> ev_seq (last (hb_events (last bs))) \<le> ea_accepted_through_seq ack
     \<and> (\<forall>d. ep_durable request = Some d \<longrightarrow>
          (\<exists>n. ea_durable_through_seq ack = Some n \<and> dw_seq d \<le> n))"

definition delivered ::
  "'w http_env \<Rightarrow> event_publish_request \<Rightarrow> event list \<Rightarrow> (sink_error + event_acknowledgement)
     \<Rightarrow> 'w http_sink \<Rightarrow> 'w http_sink \<Rightarrow> http_batch list \<Rightarrow> bool" where
  "delivered env request remaining r s t bs \<longleftrightarrow>
     hs_config t = hs_config s \<and> hs_acked t = hs_acked s @ bs
     \<and> prefix (concat (map hb_events bs)) remaining
     \<and> (\<forall>b \<in> set bs. http_batch_ok env (hs_config s) request b)
     \<and> (\<forall>ack. r = Inr ack \<longrightarrow>
          concat (map hb_events bs) = remaining
          \<and> (remaining \<noteq> [] \<longrightarrow> bs \<noteq> [] \<and> durable_last request bs ack
               \<and> hs_delivered_seq t = Some (ea_accepted_through_seq ack)))"

lemma validate_ack_ok:
  "validate_ack ack events durable = Inr () \<Longrightarrow>
     ev_seq (last events) \<le> ea_accepted_through_seq ack
     \<and> (\<forall>d. durable = Some d \<longrightarrow> (\<exists>n. ea_durable_through_seq ack = Some n \<and> dw_seq d \<le> n))"
  by (auto simp: validate_ack_def not_less split: if_splits option.splits)

lemma record_delivery_frame:
  "record_delivery request ack s = (r, t) \<Longrightarrow>
     hs_config t = hs_config s \<and> hs_acked t = hs_acked s
     \<and> hs_delivered_seq t = Some (ea_accepted_through_seq ack)"
  by (auto simp: record_delivery_def split: prod.splits sum.splits)

lemma delivered_Nil:
  "hs_config t = hs_config s \<Longrightarrow> hs_acked t = hs_acked s \<Longrightarrow> r = Inl e \<Longrightarrow>
     delivered env request remaining r s t []"
  by (simp add: delivered_def)

lemma publish_rest_delivers:
  "publish_rest env request remaining last_ack s = (r, t) \<Longrightarrow> 0 < hc_max_events_per_batch (hs_config s) \<Longrightarrow>
     \<exists>bs. delivered env request remaining r s t bs"
proof (induction env request remaining last_ack s rule: publish_rest.induct)
  case (1 env request remaining last_ack s)
  note step = 1(2) [unfolded publish_rest.simps [of env request remaining last_ack s]]
  show ?case
  proof (cases "remaining = []")
    case True
    then show ?thesis using step by (auto simp: delivered_def)
  next
    case nonempty: False
    show ?thesis
    proof (cases "take_batch (he_to_vec env) (hc_max_events_per_batch (hs_config s))
        (hc_max_bytes_per_batch (hs_config s)) remaining")
      case (Inl e)
      then show ?thesis using step nonempty delivered_Nil [of t s r e] by auto
    next
      case (Inr batch)
      note tb = take_batch_bounds [OF Inr nonempty 1(3)]
      let ?rest = "drop (length batch) remaining"
      let ?durable = "if ?rest = [] then ep_durable request else None"
      let ?b = "\<lparr>hb_schema_version = ep_schema_version request, hb_session_id = ep_session_id request,
          hb_events = batch, hb_durable = ?durable\<rparr>"
      have split: "remaining = batch @ ?rest" using tb by (auto simp: prefix_def)
      have ok: "http_batch_ok env (hs_config s) request ?b" using tb by (simp add: http_batch_ok_def)
      obtain x s1 where x: "post_batch env request batch ?durable s = (x, s1)" by (rule prod.exhaust)
      note p = post_batch_posted [OF x]
      show ?thesis
      proof (cases x)
        case x': (Inl e)
        then have "r = Inl e" "t = s1" using step nonempty Inr x by (simp_all add: Let_def)
        then show ?thesis using p x' delivered_Nil [of s1 s r e] by (auto simp: posted_def)
      next
        case x': (Inr ack)
        have a: "validate_ack ack batch ?durable = Inr ()" "hs_acked s1 = hs_acked s @ [?b]"
          "hs_config s1 = hs_config s"
          using p x' by (auto simp: posted_def)
        obtain y s2 where y: "record_delivery request ack s1 = (y, s2)" by (rule prod.exhaust)
        note fr = record_delivery_frame [OF y]
        show ?thesis
        proof (cases y)
          case (Inl e)
          then have "r = Inl e" "t = s2" using step nonempty Inr x x' y by (simp_all add: Let_def)
          then have "delivered env request remaining r s t [?b]"
            using a fr ok tb by (simp add: delivered_def)
          then show ?thesis by blast
        next
          case y': (Inr u)
          then have rec: "publish_rest env request ?rest ack s2 = (r, t)"
            using step nonempty Inr x x' y by (simp add: Let_def)
          have "0 < hc_max_events_per_batch (hs_config s2)" using 1(3) a fr by simp
          from 1(1) [OF nonempty Inr refl refl x [symmetric] x' y [symmetric] y' rec this]
          obtain bs where bs: "delivered env request ?rest r s2 t bs" by blast
          have "delivered env request remaining r s t (?b # bs)"
          proof (cases "?rest = []")
            case True
            then have "bs = []" "t = s2" "r = Inr ack"
              using bs rec by (auto simp: delivered_def publish_rest.simps)
            moreover have "durable_last request [?b] ack"
              using True validate_ack_ok [OF a(1)] by (simp add: durable_last_def)
            ultimately show ?thesis using True a fr ok split by (auto simp: delivered_def)
          next
            case False
            have "http_batch_ok env (hs_config s) request b" if "b \<in> set bs" for b
              using bs that a(3) fr by (simp add: delivered_def)
            moreover have "prefix (batch @ concat (map hb_events bs)) remaining"
              using bs split by (metis delivered_def same_prefix_prefix)
            moreover have "durable_last request (?b # bs) ack'"
              if "bs \<noteq> []" "durable_last request bs ack'" for ack'
              using that False by (simp add: durable_last_def)
            ultimately show ?thesis
              using bs a fr ok split False by (simp add: delivered_def)
          qed
          then show ?thesis by blast
        qed
      qed
    qed
  qed
qed

text \<open>The events a publication has still to deliver.\<close>

definition pending :: "u64 option \<Rightarrow> event list \<Rightarrow> event list" where
  "pending already events =
     (case already of None \<Rightarrow> events | Some d \<Rightarrow> dropWhile (\<lambda>e. ev_seq e \<le> d) events)"

lemma skip_delivered_drop: "drop (skip_delivered d es) es = dropWhile (\<lambda>e. ev_seq e \<le> d) es"
  by (induction es) simp_all

lemma skip_delivered_all: "skip_delivered d es = length es \<longleftrightarrow> (\<forall>e \<in> set es. ev_seq e \<le> d)"
  by (induction es) auto

lemma publish_events_cases:
  assumes "publish_events env request s = (r, t)"
  obtains (refused) e where "r = Inl e" "t = s"
  | (all_done) d where "hs_delivered_seq s = Some d" "pending (Some d) (ep_events request) = []" "t = s"
      "r = Inr \<lparr>ea_accepted_through_seq = d, ea_durable_through_seq = map_option dw_seq (ep_durable request)\<rparr>"
  | (posting) ack where "pending (hs_delivered_seq s) (ep_events request) \<noteq> []"
      "publish_rest env request (pending (hs_delivered_seq s) (ep_events request)) ack s = (r, t)"
proof -
  show thesis
  proof (cases "ep_events request = [] \<or> (\<exists>e. validate_contiguous (ep_events request) = Inl e)
      \<or> (\<exists>e. publish_start request (hs_delivered_seq s) = Inl e)")
    case True
    then have "\<exists>e. r = Inl e \<and> t = s"
      using assms by (auto simp: publish_events_def split: sum.splits if_splits)
    then show thesis using refused by blast
  next
    case False
    then obtain u start where c: "validate_contiguous (ep_events request) = Inr u"
      "publish_start request (hs_delivered_seq s) = Inr start" "ep_events request \<noteq> []"
      by (cases "validate_contiguous (ep_events request)";
          cases "publish_start request (hs_delivered_seq s)") auto
    show thesis
    proof (cases "hs_delivered_seq s")
      case None
      then have "start = 0" using c by (auto simp: publish_start_def split: if_splits)
      then show thesis using posting assms c None by (auto simp: publish_events_def pending_def)
    next
      case (Some d)
      then have st: "start = skip_delivered d (ep_events request)"
        using c by (auto simp: publish_start_def Let_def split: if_splits)
      have p: "drop start (ep_events request) = pending (Some d) (ep_events request)"
        by (simp add: st skip_delivered_drop pending_def)
      show thesis
      proof (cases "start = length (ep_events request)")
        case True
        then have "t = s" "r = Inr \<lparr>ea_accepted_through_seq = d,
            ea_durable_through_seq = map_option dw_seq (ep_durable request)\<rparr>"
          using assms c Some by (simp_all add: publish_events_def)
        moreover have "pending (Some d) (ep_events request) = []" using p [symmetric] True by simp
        ultimately show thesis by (intro all_done [of d] Some) simp_all
      next
        case False
        then have "pending (Some d) (ep_events request) \<noteq> []"
          using st skip_delivered_all by (auto simp: pending_def)
        then show thesis using posting assms c Some p False by (simp add: publish_events_def)
      qed
    qed
  qed
qed

text \<open>
  C22: The events of a publication reach the server once and in order. Whatever responses and
  errors come back, the batches acknowledged are consecutive pieces, from the first undelivered
  event on, each within the limits of events and bytes; a publication that succeeds has delivered
  every pending event, only its last batch asked for durability, and the acknowledgement of that
  batch covers both its events and the requested watermark.
\<close>

theorem http_delivers_in_order:
  assumes "publish_events env request s = (r, t)" and "0 < hc_max_events_per_batch (hs_config s)"
  shows "\<exists>bs. hs_acked t = hs_acked s @ bs
    \<and> prefix (concat (map hb_events bs)) (pending (hs_delivered_seq s) (ep_events request))
    \<and> (\<forall>b \<in> set bs. http_batch_ok env (hs_config s) request b)
    \<and> (\<forall>ack. r = Inr ack \<longrightarrow>
         concat (map hb_events bs) = pending (hs_delivered_seq s) (ep_events request)
         \<and> (bs \<noteq> [] \<longrightarrow> durable_last request bs ack
              \<and> hs_delivered_seq t = Some (ea_accepted_through_seq ack)))"
  using assms(1)
proof (cases rule: publish_events_cases)
  case (refused e)
  then show ?thesis by (intro exI [of _ "[]"]) simp
next
  case (all_done d)
  then show ?thesis by (intro exI [of _ "[]"]) simp
next
  case (posting ack)
  from publish_rest_delivers [OF posting(2) assms(2)] posting(1) show ?thesis
    by (auto simp: delivered_def)
qed

text \<open>A server that is a script of its replies, for the witnesses.\<close>

definition scripted ::
  "(event \<Rightarrow> string + bytes) \<Rightarrow> (string \<Rightarrow> string + event_acknowledgement)
     \<Rightarrow> (string + http_response) list http_env" where
  "scripted to_vec parse_ack =
     \<lparr>he_send = (\<lambda>b w. case w of [] \<Rightarrow> (Inl ''down'', []) | r # rs \<Rightarrow> (r, rs)), he_to_vec = to_vec,
      he_parse_ack = parse_ack, he_display = (\<lambda>e. []), he_status_text = (\<lambda>n. show_nat n)\<rparr>"

definition http_reply :: "nat \<Rightarrow> string + http_response" where
  "http_reply status = Inr \<lparr>hr_status = status, hr_retry_after = None, hr_text = Inr ''ack''\<rparr>"

definition http_mark :: "u64 \<Rightarrow> event" where
  "http_mark n = event_at ''s'' n ''t'' (Mark \<lparr>mk_label = ''l'', mk_meta = [], mk_ref_op = ''o''\<rparr>)"

definition http_demo :: "(string + http_response) list \<Rightarrow> (string + http_response) list http_sink" where
  "http_demo replies =
     \<lparr>hs_config = \<lparr>hc_authorization = None, hc_max_events_per_batch = 1, hc_max_bytes_per_batch = 100,
                   hc_max_retries = 0\<rparr>,
      hs_delivered_seq = None, hs_cursor = \<lparr>cf_content = None, cf_faults = []\<rparr>, hs_world = replies,
      hs_sent = [], hs_acked = [], hs_slept = []\<rparr>"

definition http_request :: event_publish_request where
  "http_request =
     \<lparr>ep_session_id = ''s'', ep_schema_version = 0, ep_events = [http_mark 0, http_mark 1],
      ep_durable = Some \<lparr>dw_seq = 1, dw_op = ''o'', dw_checkpoint = ''c''\<rparr>\<rparr>"

definition ack_one :: "string \<Rightarrow> string + event_acknowledgement" where
  "ack_one text = Inr \<lparr>ea_accepted_through_seq = 1, ea_durable_through_seq = Some 1\<rparr>"

theorem http_delivers_in_order_witness:
  "\<exists>r t bs. publish_events (scripted (\<lambda>e. Inr ''x'') ack_one) http_request (http_demo [http_reply 200, http_reply 400])
      = (r, t) \<and> hs_acked t = bs \<and> prefix (concat (map hb_events bs)) [http_mark 0, http_mark 1]"
proof -
  obtain r t where t: "publish_events (scripted (\<lambda>e. Inr ''x'') ack_one) http_request
      (http_demo [http_reply 200, http_reply 400]) = (r, t)" by (rule prod.exhaust)
  have "0 < hc_max_events_per_batch (hs_config (http_demo [http_reply 200, http_reply 400]))"
    by (simp add: http_demo_def)
  from http_delivers_in_order [OF t this] t show ?thesis
    by (auto simp: http_demo_def http_request_def pending_def)
qed

text \<open>
  Retries are bounded and always end: posting a batch returns after at least one and at most
  \<open>max_retries + 1\<close> requests, all of the same batch, with one pause between two of them; it
  acknowledges the batch exactly when it succeeds, and never touches the cursor.
\<close>

theorem retries_bounded:
  "let (r, t) = post_batch env request events durable s;
       batch = \<lparr>hb_schema_version = ep_schema_version request, hb_session_id = ep_session_id request,
                hb_events = events, hb_durable = durable\<rparr> in
   (\<exists>n ms. 0 < n \<and> n \<le> hc_max_retries (hs_config s) + 1
      \<and> hs_sent t = hs_sent s @ replicate n batch
      \<and> hs_slept t = hs_slept s @ ms \<and> length ms = n - 1)
   \<and> hs_acked t = hs_acked s @ (case r of Inl _ \<Rightarrow> [] | Inr _ \<Rightarrow> [batch])
   \<and> hs_delivered_seq t = hs_delivered_seq s \<and> hs_cursor t = hs_cursor s"
  using post_batch_posted [of env request events durable s]
  by (cases "post_batch env request events durable s") (simp add: posted_def)

text \<open>A failure the loop retries: no response, or one with a status that is retryable.\<close>

definition transient :: "string + http_response \<Rightarrow> bool" where
  "transient r \<longleftrightarrow>
     (case r of
        Inl _ \<Rightarrow> True
      | Inr response \<Rightarrow>
          (case hr_text response of Inl _ \<Rightarrow> False
           | Inr _ \<Rightarrow> classify_http_status (hr_status response) = Retryable))"

lemma post_loop_recovers:
  assumes "hr_text good = Inr body" "classify_http_status (hr_status good) = Success"
    and "parse_ack body = Inr ack" "validate_ack ack (hb_events batch) (hb_durable batch) = Inr ()"
  shows "\<forall>r \<in> set rs. transient r \<Longrightarrow> attempt + length rs \<le> hc_max_retries (hs_config s) \<Longrightarrow>
    hs_world s = rs @ Inr good # later \<Longrightarrow>
    \<exists>t. post_loop (scripted tv parse_ack) batch attempt backoff s = (Inr ack, t) \<and> hs_world t = later"
proof (induction rs arbitrary: attempt backoff s)
  case Nil
  have "attempt_post (scripted tv parse_ack) batch (attempt + 1) backoff s
      = (Return (Inr ack), s\<lparr>hs_world := later, hs_sent := hs_sent s @ [batch]\<rparr>)"
    using assms Nil by (simp add: attempt_post_def scripted_def accept_success_def)
  then show ?case by (simp add: post_loop.simps [of _ batch attempt] acknowledge_def)
next
  case (Cons r rs)
  have "\<exists>ms. attempt_post (scripted tv parse_ack) batch (attempt + 1) backoff s
      = (Retry ms, s\<lparr>hs_world := rs @ Inr good # later, hs_sent := hs_sent s @ [batch]\<rparr>)"
    using Cons.prems by (auto simp: attempt_post_def scripted_def transient_def split: sum.splits)
  then obtain ms where a: "attempt_post (scripted tv parse_ack) batch (attempt + 1) backoff s
      = (Retry ms, s\<lparr>hs_world := rs @ Inr good # later, hs_sent := hs_sent s @ [batch]\<rparr>)" by blast
  let ?s = "sleep ms (s\<lparr>hs_world := rs @ Inr good # later, hs_sent := hs_sent s @ [batch]\<rparr>)"
  have "\<exists>t. post_loop (scripted tv parse_ack) batch (attempt + 1) (next_backoff backoff) ?s = (Inr ack, t)
      \<and> hs_world t = later"
    by (rule Cons.IH) (use Cons.prems in \<open>simp_all add: sleep_def\<close>)
  then show ?case using a by (simp add: post_loop.simps [of _ batch attempt])
qed

text \<open>
  C23: Passing outages are survived: when at most \<open>max_retries\<close> transport errors, 429s and 5xx
  responses come before a success with a valid acknowledgement, the batch is posted and that
  acknowledgement returned, having consumed exactly those responses.
\<close>

theorem outage_survived:
  assumes "length rs \<le> hc_max_retries (hs_config s)" and "\<forall>r \<in> set rs. transient r"
    and "hs_world s = rs @ Inr good # later" and "hr_text good = Inr body"
    and "classify_http_status (hr_status good) = Success" and "parse_ack body = Inr ack"
    and "validate_ack ack events durable = Inr ()"
  shows "\<exists>t. post_batch (scripted tv parse_ack) request events durable s = (Inr ack, t) \<and> hs_world t = later"
  unfolding post_batch_def
  by (rule post_loop_recovers [where rs = rs and good = good and body = body and parse_ack = parse_ack])
    (use assms in simp_all)

theorem outage_survived_witness:
  "\<exists>t. post_batch (scripted (\<lambda>e. Inr ''x'') ack_one) http_request [http_mark 0] None
      ((http_demo [Inl ''timeout'', http_reply 503, http_reply 200])\<lparr>hs_config := (hs_config (http_demo []))\<lparr>hc_max_retries := 2\<rparr>\<rparr>)
    = (Inr \<lparr>ea_accepted_through_seq = 1, ea_durable_through_seq = Some 1\<rparr>, t) \<and> hs_world t = []"
  by (rule outage_survived [where rs = "[Inl ''timeout'', http_reply 503]"
        and good = "\<lparr>hr_status = 200, hr_retry_after = None, hr_text = Inr ''ack''\<rparr>" and body = "''ack''"])
    (simp_all add: http_demo_def transient_def http_reply_def classify_http_status_def ack_one_def
      validate_ack_def http_mark_def event_at_def)

text \<open>
  A code bug. When every event of the request counts as delivered, the publication succeeds
  without a request and reports the whole request durable. The server may never have acknowledged
  durability: an acknowledgement that runs ahead of its batch marks later events delivered, so that
  after the final, durable batch was refused the next flush of the same events succeeds.
\<close>

theorem durability_claimed_unasked:
  assumes "ep_events request \<noteq> []" and "validate_contiguous (ep_events request) = Inr ()"
    and "hs_delivered_seq s = Some d" and "\<forall>e \<in> set (ep_events request). ev_seq e \<le> d"
    and "ep_durable request = Some w"
  shows "publish_events env request s
    = (Inr \<lparr>ea_accepted_through_seq = d, ea_durable_through_seq = Some (dw_seq w)\<rparr>, s)"
proof -
  have "skip_delivered d (ep_events request) = length (ep_events request)"
    using assms(4) skip_delivered_all by blast
  then show ?thesis using assms by (simp add: publish_events_def publish_start_def)
qed

theorem durability_claimed_unasked_witness:
  "\<exists>t e. publish_events (scripted (\<lambda>e. Inr ''x'') ack_one) http_request (http_demo [http_reply 200, http_reply 400]) = (Inl e, t)
    \<and> (\<forall>b \<in> set (hs_acked t). hb_durable b = None)
    \<and> publish_events (scripted (\<lambda>e. Inr ''x'') ack_one) http_request t
        = (Inr \<lparr>ea_accepted_through_seq = 1, ea_durable_through_seq = Some 1\<rparr>, t)"
proof -
  let ?env = "scripted (\<lambda>e. Inr ''x'') ack_one"
  obtain t e where t: "publish_events ?env http_request (http_demo [http_reply 200, http_reply 400]) = (Inl e, t)"
    and a: "hs_delivered_seq t = Some 1" "\<forall>b \<in> set (hs_acked t). hb_durable b = None"
    by (simp add: publish_events_def http_request_def http_mark_def event_at_def publish_start_def http_demo_def
        publish_rest.simps take_batch_def scripted_def post_batch_def post_loop.simps attempt_post_def
        http_reply_def classify_http_status_def accept_success_def ack_one_def validate_ack_def
        record_delivery_def write_cursor_no_faults acknowledge_def Let_def)
  have "publish_events ?env http_request t
    = (Inr \<lparr>ea_accepted_through_seq = 1, ea_durable_through_seq = Some 1\<rparr>, t)"
    using durability_claimed_unasked [where request = http_request and s = t and d = 1 and env = ?env
        and w = "\<lparr>dw_seq = 1, dw_op = ''o'', dw_checkpoint = ''c''\<rparr>"] a(1)
    by (simp add: http_request_def http_mark_def event_at_def)
  then show ?thesis using t a(2) by blast
qed

end
