(* ===== verification/Git_Sink.thy ===== *)
theory Git_Sink
  imports Cursor_File
begin

text \<open>
  \<open>GitCheckpointSink\<close> (\<open>crates/rrjj-sinks/src/git.rs\<close>): a checkpoint commit of the shadow
  repository pushed to a recorder ref of a remote, guarded by the object id pushed last.

  libgit2 is the parameter \<open>git_env\<close>: functions of their arguments and of the state of the
  repositories, errors being their messages. \<open>ge_push\<close> answers with the status of a rejected
  reference, if the callback received one. The decisions between the calls are the code's.
\<close>

record git_config =
  gc_remote_url :: string
  gc_authorization :: "string option"
  gc_ref_prefix :: string
  gc_session_id :: string

record 'g git_sink =
  gs_config :: git_config
  gs_last_pushed :: "string option"
  gs_cursor :: "string option cursor_file"
  gs_git :: 'g

record 'g git_env =
  ge_open_bare :: "string \<Rightarrow> 'g \<Rightarrow> string + unit"
  ge_parse_oid :: "string \<Rightarrow> string + string"
  ge_find_commit :: "string \<Rightarrow> 'g \<Rightarrow> string + unit"
  ge_reference :: "string \<Rightarrow> string \<Rightarrow> 'g \<Rightarrow> (string + unit) \<times> 'g"
  ge_open_path :: "string \<Rightarrow> 'g \<Rightarrow> bool"
  ge_path_tip :: "string \<Rightarrow> string \<Rightarrow> 'g \<Rightarrow> string option"
  ge_remote_anonymous :: "string \<Rightarrow> 'g \<Rightarrow> string + unit"
  ge_fetch :: "string \<Rightarrow> string option \<Rightarrow> 'g \<Rightarrow> (string + unit) \<times> 'g"
  ge_local_tip :: "string \<Rightarrow> 'g \<Rightarrow> string option"
  ge_push :: "string \<Rightarrow> string option \<Rightarrow> 'g \<Rightarrow> (string + string option) \<times> 'g"

section \<open>Names\<close>

definition validate_ref_prefix :: "string \<Rightarrow> sink_error + unit" where
  "validate_ref_prefix ref_prefix =
     (if \<not> starts_with ref_prefix ''refs/'' \<or> starts_with ref_prefix ''refs/heads'' then
        Inl (InvalidConfig (''git ref prefix must be under refs/ and outside refs/heads: ''
          @ debug_str ref_prefix))
      else if contains ref_prefix ''//'' \<or> ends_with ref_prefix ''/'' then
        Inl (InvalidConfig (''git ref prefix must not end with '' @ [CHR 0x27] @ ''/'' @ [CHR 0x27]
          @ '' or contain '' @ [CHR 0x27] @ ''//'' @ [CHR 0x27] @ '': '' @ debug_str ref_prefix))
      else Inr ())"

definition validate_session_id :: "string \<Rightarrow> sink_error + unit" where
  "validate_session_id session_id =
     (if session_id = [] \<or> contains session_id ''/'' \<or> contains session_id [CHR 0x5C]
         \<or> contains session_id [CHR 0x00] \<or> contains session_id ''..'' then
        Inl (InvalidConfig (''session id is not safe for a git ref name: '' @ debug_str session_id))
      else Inr ())"

definition session_ref :: "git_config \<Rightarrow> string" where
  "session_ref config = trim_end (CHR ''/'') (gc_ref_prefix config) @ ''/'' @ gc_session_id config"

section \<open>Opening\<close>

definition read_pushed_oid :: "string option cursor_file \<Rightarrow> sink_error + string option" where
  "read_pushed_oid file =
     (case read_cursor file of Inl e \<Rightarrow> Inl e | Inr None \<Rightarrow> Inr None | Inr (Some value) \<Rightarrow> Inr value)"

definition git_create :: "git_config \<Rightarrow> string option cursor_file \<Rightarrow> 'g \<Rightarrow> sink_error + 'g git_sink" where
  "git_create config file git =
     (case validate_ref_prefix (gc_ref_prefix config) of
        Inl e \<Rightarrow> Inl e
      | Inr _ \<Rightarrow>
     (case validate_session_id (gc_session_id config) of
        Inl e \<Rightarrow> Inl e
      | Inr _ \<Rightarrow>
     (case read_pushed_oid file of
        Inl e \<Rightarrow> Inl e
      | Inr last_pushed \<Rightarrow>
          Inr \<lparr>gs_config = config, gs_last_pushed = last_pushed, gs_cursor = file, gs_git = git\<rparr>)))"

section \<open>The remote tip\<close>

definition connection_error :: "string \<Rightarrow> bool" where
  "connection_error message \<longleftrightarrow>
     contains message ''timed out'' \<or> contains message ''Could not connect''
     \<or> contains message ''Failed to connect''"

definition missing_ref_error :: "string \<Rightarrow> bool" where
  "missing_ref_error message \<longleftrightarrow>
     contains message ''not found''
     \<or> contains message (''couldn'' @ [CHR 0x27] @ ''t find remote ref'')
     \<or> contains message ''does not exist''"

definition fetch_remote_tip ::
  "'g git_env \<Rightarrow> git_config \<Rightarrow> string \<Rightarrow> 'g \<Rightarrow> (sink_error + string option) \<times> 'g" where
  "fetch_remote_tip env config rref g =
     (let cache_ref = ''refs/rrjj/remote-cache/'' @ gc_session_id config;
          refspec = ''+'' @ rref @ '':'' @ cache_ref in
      case ge_fetch env refspec (gc_authorization config) g of
        (Inr _, g) \<Rightarrow> (Inr (ge_local_tip env cache_ref g), g)
      | (Inl message, g) \<Rightarrow>
          (if missing_ref_error message then Inr None
           else if connection_error message then Inl (Transient message)
           else Inl (Failed message), g))"

definition remote_tip ::
  "'g git_env \<Rightarrow> git_config \<Rightarrow> string \<Rightarrow> 'g \<Rightarrow> (sink_error + string option) \<times> 'g" where
  "remote_tip env config rref g =
     (if ge_open_path env (gc_remote_url config) g then
        (Inr (ge_path_tip env (gc_remote_url config) rref g), g)
      else
        (case ge_remote_anonymous env (gc_remote_url config) g of
           Inl m \<Rightarrow> (Inl (Failed (''open git remote: '' @ m)), g)
         | Inr _ \<Rightarrow> fetch_remote_tip env config rref g))"

section \<open>Pushing\<close>

datatype lease = Already | Advance | Refused sink_error

definition check_lease :: "string \<Rightarrow> string \<Rightarrow> string option \<Rightarrow> string option \<Rightarrow> lease" where
  "check_lease rref commit expected_prior tip =
     (case tip of
        None \<Rightarrow> Advance
      | Some tip \<Rightarrow>
          if tip = commit then Already
          else
            (case expected_prior of
               Some expected \<Rightarrow>
                 if tip = expected then Advance
                 else Refused (CheckpointConflict (''remote '' @ rref @ '' is at '' @ tip
                   @ '', expected '' @ expected @ '' before advancing to '' @ commit))
             | None \<Rightarrow>
                 Refused (CheckpointConflict (''remote '' @ rref @ '' already exists at '' @ tip
                   @ ''; refusing unconditional create of '' @ commit))))"

definition push_error :: "string \<Rightarrow> sink_error" where
  "push_error message =
     (if contains message ''non-fast-forward'' \<or> contains message ''cannot lock ref''
         \<or> contains message ''rejected'' then CheckpointConflict message
      else if connection_error message then Transient message
      else Failed message)"

definition push_ref ::
  "'g git_env \<Rightarrow> git_config \<Rightarrow> string \<Rightarrow> string \<Rightarrow> 'g \<Rightarrow> (sink_error + checkpoint_publication) \<times> 'g" where
  "push_ref env config rref commit g =
     (case ge_remote_anonymous env (gc_remote_url config) g of
        Inl m \<Rightarrow> (Inl (Failed (''open git remote: '' @ m)), g)
      | Inr _ \<Rightarrow>
          (case ge_push env (rref @ '':'' @ rref) (gc_authorization config) g of
             (Inl message, g) \<Rightarrow> (Inl (push_error message), g)
           | (Inr (Some status), g) \<Rightarrow> (Inl (CheckpointConflict (rref @ '': '' @ status)), g)
           | (Inr None, g) \<Rightarrow> (Inr \<lparr>cp_checkpoint = commit\<rparr>, g)))"

text \<open>The local part: the commit must exist, and the local recorder ref is set.\<close>

definition local_ref ::
  "'g git_env \<Rightarrow> string \<Rightarrow> string \<Rightarrow> string \<Rightarrow> 'g \<Rightarrow> (sink_error + unit) \<times> 'g" where
  "local_ref env shadow_root rref commit g =
     (let git_dir = shadow_root @ ''/repo/store/git'' in
      case ge_open_bare env git_dir g of
        Inl m \<Rightarrow> (Inl (Failed (''open shadow git repository '' @ git_dir @ '': '' @ m)), g)
      | Inr _ \<Rightarrow>
     (case ge_parse_oid env commit of
        Inl m \<Rightarrow> (Inl (InvalidFlush (''invalid commit OID '' @ commit @ '': '' @ m)), g)
      | Inr oid \<Rightarrow>
     (case ge_find_commit env oid g of
        Inl m \<Rightarrow> (Inl (InvalidFlush (''checkpoint commit '' @ commit
            @ '' is missing from the local Git object store: '' @ m)), g)
      | Inr _ \<Rightarrow>
     (case ge_reference env rref oid g of
        (Inl m, g) \<Rightarrow> (Inl (Failed (''update local recorder ref: '' @ m)), g)
      | (Inr _, g) \<Rightarrow> (Inr (), g)))))"

definition push_checkpoint_from_shadow ::
  "'g git_env \<Rightarrow> git_config \<Rightarrow> string \<Rightarrow> string \<Rightarrow> string \<Rightarrow> string option \<Rightarrow> 'g
     \<Rightarrow> (sink_error + checkpoint_publication) \<times> 'g" where
  "push_checkpoint_from_shadow env config shadow_root rref commit expected_prior g =
     (if starts_with rref ''refs/heads/'' \<or> \<not> starts_with rref ''refs/'' then
        (Inl (InvalidConfig (''recorder ref must be fully qualified under refs/ and outside refs/heads: ''
           @ rref)), g)
      else
        bindE (local_ref env shadow_root rref commit) (\<lambda>_.
        bindE (remote_tip env config rref) (\<lambda>tip.
          case check_lease rref commit expected_prior tip of
            Already \<Rightarrow> (\<lambda>g. (Inr \<lparr>cp_checkpoint = commit\<rparr>, g))
          | Refused e \<Rightarrow> (\<lambda>g. (Inl e, g))
          | Advance \<Rightarrow> push_ref env config rref commit)) g)"

section \<open>Publishing\<close>

definition git_sanitized :: "git_config \<Rightarrow> string \<Rightarrow> string" where
  "git_sanitized config message =
     redact_secrets message (case gc_authorization config of None \<Rightarrow> [] | Some v \<Rightarrow> [v])"

definition sanitize_error :: "git_config \<Rightarrow> sink_error \<Rightarrow> sink_error" where
  "sanitize_error config e =
     (case e of
        CheckpointConflict m \<Rightarrow> CheckpointConflict (git_sanitized config m)
      | Failed m \<Rightarrow> Failed (git_sanitized config m)
      | Transient m \<Rightarrow> Transient (git_sanitized config m)
      | InvalidConfig m \<Rightarrow> InvalidConfig (git_sanitized config m)
      | InvalidFlush m \<Rightarrow> InvalidFlush (git_sanitized config m)
      | e \<Rightarrow> e)"

definition write_pushed_oid :: "string \<Rightarrow> (string option cursor_file, io_error, unit) op" where
  "write_pushed_oid checkpoint =
     bindE (file_call id) (\<lambda>_. write_json_atomic (Some checkpoint))"

definition publish_checkpoint :: "'g git_env \<Rightarrow> checkpoint_request \<Rightarrow> ('g git_sink, sink_error, checkpoint_publication) op" where
  "publish_checkpoint env request s =
     (case normalize_commit_oid (cr_commit request) of
        Inl e \<Rightarrow> (Inl e, s)
      | Inr commit \<Rightarrow>
          (case push_checkpoint_from_shadow env (gs_config s) (cr_shadow_root request)
                  (session_ref (gs_config s)) commit (gs_last_pushed s) (gs_git s) of
             (Inl e, g) \<Rightarrow> (Inl (sanitize_error (gs_config s) e), s\<lparr>gs_git := g\<rparr>)
           | (Inr result, g) \<Rightarrow>
               (let s = s\<lparr>gs_git := g, gs_last_pushed := Some (cp_checkpoint result)\<rparr> in
                case write_pushed_oid (cp_checkpoint result) (gs_cursor s) of
                  (Inl e, f) \<Rightarrow> (Inl (Io e), s\<lparr>gs_cursor := f\<rparr>)
                | (Inr _, f) \<Rightarrow> (Inr result, s\<lparr>gs_cursor := f\<rparr>))))"

section \<open>Lemmas\<close>

lemma trim_end_no_slash: "\<not> ends_with p [c] \<Longrightarrow> trim_end c p = p"
  by (cases "p = []") (simp_all add: ends_with_single trim_end_id, simp add: trim_end_def)

lemma starts_with_append_iff: "length q \<le> length p \<Longrightarrow> starts_with (p @ r) q = starts_with p q"
  by (simp add: starts_with_def)

lemma length_heads: "length ''refs/heads/'' = 11"
  by simp

lemma git_create_ok:
  assumes "git_create config file git = Inr s"
  shows "gs_config s = config \<and> validate_ref_prefix (gc_ref_prefix config) = Inr ()
    \<and> validate_session_id (gc_session_id config) = Inr () \<and> gs_cursor s = file \<and> gs_git s = git
    \<and> read_pushed_oid file = Inr (gs_last_pushed s)"
  using assms by (auto simp: git_create_def split: sum.splits)

text \<open>
  Checkpoints go to one ref outside the branches. A sink that could be created pushes to
  \<open>prefix/session\<close>, which lies under \<open>refs/\<close> and not under \<open>refs/heads\<close>, so that the guard of the
  push never refuses it; different session ids give different refs.
\<close>

theorem recorder_ref_outside_heads:
  assumes "git_create config file git = Inr s"
  shows "session_ref config = gc_ref_prefix config @ ''/'' @ gc_session_id config
    \<and> starts_with (session_ref config) ''refs/'' \<and> \<not> starts_with (session_ref config) ''refs/heads/''
    \<and> CHR ''/'' \<notin> set (gc_session_id config) \<and> gc_session_id config \<noteq> []"
proof -
  let ?p = "gc_ref_prefix config" and ?id = "gc_session_id config"
  have p: "starts_with ?p ''refs/''" "\<not> starts_with ?p ''refs/heads''" "\<not> ends_with ?p ''/''"
    using git_create_ok [OF assms] by (auto simp: validate_ref_prefix_def split: if_splits)
  have i: "?id \<noteq> []" "\<not> contains ?id ''/''"
    using git_create_ok [OF assms] by (auto simp: validate_session_id_def split: if_splits)
  have r: "session_ref config = ?p @ ''/'' @ ?id" using trim_end_no_slash [OF p(3)] by (simp add: session_ref_def)
  obtain q where q: "?p = ''refs/'' @ q" using p(1) by (auto simp: starts_with_prefix prefix_def)
  have "q \<noteq> []" using p(3) q by (auto simp: ends_with_single)
  have "\<not> prefix ''refs/heads/'' (?p @ ''/'' @ ?id)"
  proof
    let ?r = "?p @ ''/'' @ ?id"
    assume "prefix ''refs/heads/'' ?r"
    then have pre: "take 11 ?r = ''refs/heads/''" by (metis starts_with_def starts_with_prefix length_heads)
    show False
    proof (cases "10 \<le> length ?p")
      case True
      then have "take 10 ?p = take 10 (take 11 ?r)" by simp
      also have "\<dots> = ''refs/heads''" unfolding pre by simp
      finally have "take 10 ?p = ''refs/heads''" .
      then show False using p(2) by (simp add: starts_with_def numeral_eq_Suc)
    next
      case False
      have "5 \<le> length ?p" using q by simp
      have "take 11 ?r ! length ?p = CHR ''/''" using False by (simp add: nth_append)
      then have "''refs/heads/'' ! length ?p = CHR ''/''" using pre by simp
      moreover have "length ?p \<in> {5, 6, 7, 8, 9}" using False \<open>5 \<le> length ?p\<close> by auto
      ultimately show False by auto
    qed
  qed
  moreover have "CHR ''/'' \<notin> set ?id" using i(2) by (metis contains_iff split_list append_Cons append_Nil)
  ultimately show ?thesis using r i(1) q by (simp add: starts_with_prefix)
qed
definition demo_git_config :: git_config where
  "demo_git_config =
     \<lparr>gc_remote_url = ''https://h/r'', gc_authorization = Some ''tok'', gc_ref_prefix = ''refs/rrjj'',
      gc_session_id = ''s''\<rparr>"

definition demo_file :: "string option cursor_file" where
  "demo_file = \<lparr>cf_content = None, cf_faults = []\<rparr>"

theorem recorder_ref_outside_heads_witness:
  "\<exists>s. git_create demo_git_config demo_file (0::nat) = Inr s
     \<and> session_ref demo_git_config = ''refs/rrjj/s''"
proof -
  obtain s where s: "git_create demo_git_config demo_file (0::nat) = Inr s"
    by (simp add: git_create_def demo_git_config_def demo_file_def validate_ref_prefix_def starts_with_def
        ends_with_def validate_session_id_def read_pushed_oid_def read_cursor_def)
  from recorder_ref_outside_heads [OF s] s show ?thesis by (simp add: demo_git_config_def)
qed

lemma push_cases:
  assumes "push_checkpoint_from_shadow env config shadow rref commit expected g = (r, g')"
  obtains (early) e where "r = Inl e"
      "starts_with rref ''refs/heads/'' \<or> \<not> starts_with rref ''refs/''
       \<or> (\<exists>g1. local_ref env shadow rref commit g = (Inl e, g1))
       \<or> (\<exists>g1 g2. local_ref env shadow rref commit g = (Inr (), g1) \<and> remote_tip env config rref g1 = (Inl e, g2))"
  | (decided) g1 tip g2 where "local_ref env shadow rref commit g = (Inr (), g1)"
      "remote_tip env config rref g1 = (Inr tip, g2)"
      "(case check_lease rref commit expected tip of
          Already \<Rightarrow> (Inr \<lparr>cp_checkpoint = commit\<rparr>, g2)
        | Refused e \<Rightarrow> (Inl e, g2)
        | Advance \<Rightarrow> push_ref env config rref commit g2) = (r, g')"
proof (cases "starts_with rref ''refs/heads/'' \<or> \<not> starts_with rref ''refs/''")
  case True
  show thesis
    by (rule early) (use assms True in \<open>auto simp: push_checkpoint_from_shadow_def\<close>)
next
  case False
  obtain x g1 where x: "local_ref env shadow rref commit g = (x, g1)" by (rule prod.exhaust)
  show thesis
  proof (cases x)
    case (Inl e)
    show thesis
      by (rule early [of e]) (use assms False x Inl in \<open>auto simp: push_checkpoint_from_shadow_def bindE_def\<close>)
  next
    case (Inr u)
    obtain y g2 where y: "remote_tip env config rref g1 = (y, g2)" by (rule prod.exhaust)
    show thesis
    proof (cases y)
      case (Inl e)
      show thesis
        by (rule early [of e]) (use assms False x y Inr Inl in \<open>auto simp: push_checkpoint_from_shadow_def bindE_def\<close>)
    next
      case y': (Inr tip)
      show thesis
        by (rule decided [of g1 tip g2])
          (use assms False x y Inr y' in \<open>auto simp: push_checkpoint_from_shadow_def bindE_def split: lease.splits\<close>)
    qed
  qed
qed

lemma push_ref_ok:
  assumes "push_ref env config rref commit g = (Inr p, g')"
  shows "ge_push env (rref @ '':'' @ rref) (gc_authorization config) g = (Inr None, g') \<and> cp_checkpoint p = commit"
  using assms by (auto simp: push_ref_def split: sum.splits prod.splits option.splits)

text \<open>
  C24: The remote ref only moves from where this recorder left it. A push that succeeds found the
  ref at the commit already, or absent, or at the commit pushed last, and in the latter cases the
  remote accepted the push; when the ref is anywhere else the result is a conflict and nothing is
  pushed.
\<close>

theorem push_respects_lease:
  assumes "push_checkpoint_from_shadow env config shadow rref commit expected g = (r, g')"
  shows "(\<forall>p. r = Inr p \<longrightarrow> cp_checkpoint p = commit
      \<and> (\<exists>g1 tip g2. remote_tip env config rref g1 = (Inr tip, g2)
           \<and> (tip = Some commit \<and> g' = g2
              \<or> (tip = None \<or> tip = expected)
                \<and> ge_push env (rref @ '':'' @ rref) (gc_authorization config) g2 = (Inr None, g'))))
    \<and> (\<forall>g1 tip g2. local_ref env shadow rref commit g = (Inr (), g1) \<longrightarrow>
         remote_tip env config rref g1 = (Inr (Some tip), g2) \<longrightarrow>
         starts_with rref ''refs/'' \<longrightarrow> \<not> starts_with rref ''refs/heads/'' \<longrightarrow>
         tip \<noteq> commit \<longrightarrow> Some tip \<noteq> expected \<longrightarrow>
         (\<exists>m. r = Inl (CheckpointConflict m)) \<and> g' = g2)"
  using assms
proof (cases rule: push_cases)
  case (early e)
  then show ?thesis by auto
next
  case (decided g1 tip g2)
  show ?thesis
  proof (intro conjI allI impI)
    fix p assume r: "r = Inr p"
    have "cp_checkpoint p = commit \<and> (tip = Some commit \<and> g' = g2
              \<or> (tip = None \<or> tip = expected)
                \<and> ge_push env (rref @ '':'' @ rref) (gc_authorization config) g2 = (Inr None, g'))"
    proof (cases "check_lease rref commit expected tip")
      case Already
      then show ?thesis using decided(3) r
        by (auto simp: check_lease_def split: option.splits if_splits)
    next
      case Advance
      then have "push_ref env config rref commit g2 = (Inr p, g')" using decided(3) r by simp
      from push_ref_ok [OF this] Advance show ?thesis
        by (auto simp: check_lease_def split: option.splits if_splits)
    next
      case (Refused e)
      then show ?thesis using decided(3) r by simp
    qed
    then show "cp_checkpoint p = commit" and "\<exists>g1 tip g2. remote_tip env config rref g1 = (Inr tip, g2)
           \<and> (tip = Some commit \<and> g' = g2
              \<or> (tip = None \<or> tip = expected)
                \<and> ge_push env (rref @ '':'' @ rref) (gc_authorization config) g2 = (Inr None, g'))"
      using decided(2) by blast+
  next
    fix h1 t h2
    assume a: "local_ref env shadow rref commit g = (Inr (), h1)" "remote_tip env config rref h1 = (Inr (Some t), h2)"
      "t \<noteq> commit" "Some t \<noteq> expected"
    then have t: "tip = Some t" "h2 = g2" using decided(1,2) by auto
    then obtain m where "check_lease rref commit expected tip = Refused (CheckpointConflict m)"
      using a(3,4) by (cases expected) (auto simp: check_lease_def)
    then have rg: "r = Inl (CheckpointConflict m)" "g' = g2" using decided(3) by simp_all
    show "\<exists>m. r = Inl (CheckpointConflict m)" using rg by blast
    show "g' = h2" using rg t by simp
  qed
qed

text \<open>A remote for the witnesses: the state is the tip of the recorder ref; a push moves it.\<close>

definition demo_git_env :: "string option git_env" where
  "demo_git_env =
     \<lparr>ge_open_bare = (\<lambda>p g. Inr ()), ge_parse_oid = Inr, ge_find_commit = (\<lambda>c g. Inr ()),
      ge_reference = (\<lambda>r c g. (Inr (), g)), ge_open_path = (\<lambda>u g. True), ge_path_tip = (\<lambda>u r g. g),
      ge_remote_anonymous = (\<lambda>u g. Inr ()), ge_fetch = (\<lambda>r a g. (Inr (), g)), ge_local_tip = (\<lambda>r g. g),
      ge_push = (\<lambda>r a g. (Inl ''tok rejected'', g))\<rparr>"

theorem push_respects_lease_witness:
  "\<exists>m. push_checkpoint_from_shadow demo_git_env demo_git_config ''/x'' ''refs/rrjj/s'' ''aa'' (Some ''bb'') (Some ''cc'')
     = (Inl (CheckpointConflict m), Some ''cc'')"
proof -
  obtain r g' where p: "push_checkpoint_from_shadow demo_git_env demo_git_config ''/x'' ''refs/rrjj/s'' ''aa''
      (Some ''bb'') (Some ''cc'') = (r, g')" by (rule prod.exhaust)
  have "local_ref demo_git_env ''/x'' ''refs/rrjj/s'' ''aa'' (Some ''cc'') = (Inr (), Some ''cc'')"
    "remote_tip demo_git_env demo_git_config ''refs/rrjj/s'' (Some ''cc'') = (Inr (Some ''cc''), Some ''cc'')"
    by (simp_all add: local_ref_def remote_tip_def demo_git_env_def)
  moreover have "starts_with ''refs/rrjj/s'' ''refs/''" "\<not> starts_with ''refs/rrjj/s'' ''refs/heads/''"
    by (simp_all add: starts_with_def)
  ultimately show ?thesis using push_respects_lease [OF p] p by fastforce
qed

section \<open>Secrets\<close>

text \<open>The text of an error that carries one.\<close>

definition error_text :: "sink_error \<Rightarrow> string option" where
  "error_text e =
     (case e of
        CheckpointConflict m \<Rightarrow> Some m
      | Failed m \<Rightarrow> Some m
      | Transient m \<Rightarrow> Some m
      | InvalidConfig m \<Rightarrow> Some m
      | InvalidFlush m \<Rightarrow> Some m
      | _ \<Rightarrow> None)"

lemma error_text_sanitized:
  "error_text (sanitize_error config e) = map_option (git_sanitized config) (error_text e)"
  by (cases e) (simp_all add: sanitize_error_def error_text_def)

text \<open>Every error of the push carries a text, so that no error escapes the redaction.\<close>

lemma local_ref_text: "local_ref env shadow rref commit g = (Inl e, g') \<Longrightarrow> error_text e \<noteq> None"
  by (auto simp: local_ref_def error_text_def Let_def split: sum.splits prod.splits)

lemma remote_tip_text: "remote_tip env config rref g = (Inl e, g') \<Longrightarrow> error_text e \<noteq> None"
  by (auto simp: remote_tip_def fetch_remote_tip_def error_text_def Let_def
      split: sum.splits prod.splits if_splits)

lemma push_ref_text: "push_ref env config rref commit g = (Inl e, g') \<Longrightarrow> error_text e \<noteq> None"
  by (auto simp: push_ref_def push_error_def error_text_def split: sum.splits prod.splits option.splits if_splits)

lemma check_lease_text: "check_lease rref commit expected tip = Refused e \<Longrightarrow> error_text e \<noteq> None"
  by (auto simp: check_lease_def error_text_def split: option.splits if_splits)

lemma push_checkpoint_text:
  assumes "push_checkpoint_from_shadow env config shadow rref commit expected g = (Inl e, g')"
  shows "error_text e \<noteq> None"
proof (cases "starts_with rref ''refs/heads/'' \<or> \<not> starts_with rref ''refs/''")
  case True
  then show ?thesis using assms by (auto simp: push_checkpoint_from_shadow_def error_text_def)
next
  case False
  then show ?thesis using assms unfolding push_checkpoint_from_shadow_def
    by (auto elim!: bindE_InlE dest: local_ref_text remote_tip_text push_ref_text check_lease_text
        split: lease.splits)
qed

text \<open>
  C25: The credential never leaves in an error. Whatever libgit2 reports, an error of a publication
  that is not an I/O error of the cursor file has a text without the authorization (when that has
  no asterisk and the request's commit is well formed, so that the text is not about the request).
\<close>

theorem checkpoint_errors_redacted:
  assumes "publish_checkpoint env request s = (Inl e, t)"
    and "gc_authorization (gs_config s) = Some secret" and "star_free secret" and "secret \<noteq> []"
    and "normalize_commit_oid (cr_commit request) = Inr commit"
  shows "(\<exists>x. e = Io x) \<or> (\<exists>m. error_text e = Some m \<and> \<not> contains m secret)"
proof -
  obtain r g where p: "push_checkpoint_from_shadow env (gs_config s) (cr_shadow_root request)
      (session_ref (gs_config s)) commit (gs_last_pushed s) (gs_git s) = (r, g)" by (rule prod.exhaust)
  show ?thesis
  proof (cases r)
    case (Inl x)
    then have e: "e = sanitize_error (gs_config s) x"
      using assms(1,5) p by (simp add: publish_checkpoint_def)
    obtain m where "error_text x = Some m" using push_checkpoint_text [OF p [unfolded Inl]] by auto
    then have "error_text e = Some (git_sanitized (gs_config s) m)"
      using e by (simp add: error_text_sanitized)
    moreover have "\<not> contains (git_sanitized (gs_config s) m) secret"
      unfolding git_sanitized_def by (rule redact_removes) (use assms(2-4) in simp_all)
    ultimately show ?thesis by blast
  next
    case (Inr y)
    then show ?thesis
      using assms(1,5) p by (auto simp: publish_checkpoint_def Let_def split: prod.splits sum.splits)
  qed
qed

theorem checkpoint_errors_redacted_witness:
  "\<exists>m t. publish_checkpoint demo_git_env
       \<lparr>cr_shadow_root = ''/x'', cr_session_id = ''s'', cr_commit = replicate 40 (CHR ''a''), cr_last_seq = 0, cr_last_op = ''o''\<rparr>
       \<lparr>gs_config = demo_git_config, gs_last_pushed = None, gs_cursor = demo_file, gs_git = None\<rparr>
     = (Inl (CheckpointConflict m), t) \<and> \<not> contains m ''tok''"
proof -
  let ?r = "\<lparr>cr_shadow_root = ''/x'', cr_session_id = ''s'', cr_commit = replicate 40 (CHR ''a''), cr_last_seq = 0, cr_last_op = ''o''\<rparr>"
  let ?s = "\<lparr>gs_config = demo_git_config, gs_last_pushed = None, gs_cursor = demo_file, gs_git = None\<rparr>"
  have n: "normalize_commit_oid (cr_commit ?r) = Inr (replicate 40 (CHR ''a''))"
  proof -
    have "canonical_oid (replicate 40 (CHR ''a''))"
      by (simp add: canonical_oid_def is_ascii_hexdigit_def to_ascii_lowercase_def map_replicate
          list_all_iff Let_def)
    from normalize_of_canonical [OF this] show ?thesis by simp
  qed
  have "session_ref demo_git_config = ''refs/rrjj/s''"
    by (simp add: session_ref_def demo_git_config_def trim_end_def)
  then obtain m t where p: "publish_checkpoint demo_git_env ?r ?s = (Inl (CheckpointConflict m), t)"
    using n by (simp add: publish_checkpoint_def push_checkpoint_from_shadow_def starts_with_def local_ref_def
        remote_tip_def demo_git_env_def bindE_def check_lease_def push_ref_def push_error_def
        sanitize_error_def)
  have "gc_authorization (gs_config ?s) = Some ''tok''" by (simp add: demo_git_config_def)
  from checkpoint_errors_redacted [OF p this _ _ n] p show ?thesis by (auto simp: error_text_def)
qed

end
