(* ===== verification/Journal.thy ===== *)
theory Journal
  imports Sink_Util
begin

text \<open>
  The local event journal of \<open>crates/rrjj-sinks/src/journal.rs\<close>: \<open>NdjsonSink\<close>, an append-only
  file of one JSON line per event behind a buffered writer, synced after every event, bounded
  in size, and validated when it is reopened. \<open>to_vec\<close> and \<open>from_slice\<close> are the JSON codec.
\<close>

section \<open>State\<close>

record ndjson_sink =
  nj_path :: string
  nj_writer :: writer
  nj_bytes :: u64
  nj_max_spool_bytes :: u64
  nj_session_id :: "string option"
  nj_schema_version :: "u8 option"
  nj_accepted :: "event list"

text \<open>
  What the file system answers while a journal is opened: creating the parent directory (\<open>None\<close>
  without one, or on success), reading the file, opening it for append, setting its mode, and
  its length.
\<close>

record journal_fs =
  jf_create_parent :: "io_error option"
  jf_read :: "io_error + bytes"
  jf_open :: "io_error option"
  jf_permissions :: "io_error option"
  jf_len :: "io_error + u64"

section \<open>Opening\<close>

definition read_existing :: "io_error + bytes \<Rightarrow> sink_error + bytes" where
  "read_existing r =
     (case r of
        Inr bs \<Rightarrow> Inr bs
      | Inl e \<Rightarrow> if io_not_found e then Inr [] else Inl (Io e))"

definition existing_events ::
  "(bytes \<Rightarrow> string + event) \<Rightarrow> string \<Rightarrow> string option \<Rightarrow> u8 option \<Rightarrow> bytes
     \<Rightarrow> sink_error + event list" where
  "existing_events from_slice path session_id schema_version existing =
     (case (session_id, schema_version) of
        (Some sid, Some sv) \<Rightarrow> parse_event_spool from_slice existing path sid sv ''journal''
      | _ \<Rightarrow> Inr [])"

definition create_for_session ::
  "(bytes \<Rightarrow> string + event) \<Rightarrow> journal_fs \<Rightarrow> io_fault list \<Rightarrow> string \<Rightarrow> u64
     \<Rightarrow> string option \<Rightarrow> u8 option \<Rightarrow> sink_error + ndjson_sink" where
  "create_for_session from_slice fs faults path max_spool_bytes session_id schema_version =
     (case jf_create_parent fs of
        Some e \<Rightarrow> Inl (Io e)
      | None \<Rightarrow>
     (case read_existing (jf_read fs) of
        Inl e \<Rightarrow> Inl e
      | Inr existing \<Rightarrow>
     (case existing_events from_slice path session_id schema_version existing of
        Inl e \<Rightarrow> Inl e
      | Inr accepted \<Rightarrow>
     (case jf_open fs of
        Some e \<Rightarrow> Inl (Io e)
      | None \<Rightarrow>
     (case jf_permissions fs of
        Some e \<Rightarrow> Inl (Io e)
      | None \<Rightarrow>
     (case jf_len fs of
        Inl e \<Rightarrow> Inl (Io e)
      | Inr bytes \<Rightarrow>
          if max_spool_bytes < bytes then Inl (SpoolFull bytes 0 max_spool_bytes)
          else
            Inr \<lparr>nj_path = path,
                 nj_writer = \<lparr>wr_file = existing, wr_buf = [], wr_faults = faults\<rparr>,
                 nj_bytes = bytes, nj_max_spool_bytes = max_spool_bytes,
                 nj_session_id = session_id, nj_schema_version = schema_version,
                 nj_accepted = accepted\<rparr>))))))"

definition create_bounded ::
  "(bytes \<Rightarrow> string + event) \<Rightarrow> journal_fs \<Rightarrow> io_fault list \<Rightarrow> string \<Rightarrow> u64 \<Rightarrow> sink_error + ndjson_sink" where
  "create_bounded from_slice fs faults path max_spool_bytes =
     create_for_session from_slice fs faults path max_spool_bytes None None"

definition journal_create ::
  "(bytes \<Rightarrow> string + event) \<Rightarrow> journal_fs \<Rightarrow> io_fault list \<Rightarrow> string \<Rightarrow> sink_error + ndjson_sink" where
  "journal_create from_slice fs faults path = create_bounded from_slice fs faults path (- 1)"

section \<open>Emitting and flushing\<close>

definition next_seq :: "ndjson_sink \<Rightarrow> u64" where
  "next_seq s = word_of_nat (length (nj_accepted s))"

definition events_through :: "u64 \<Rightarrow> ndjson_sink \<Rightarrow> sink_error + event list" where
  "events_through last_seq s =
     (if nj_accepted s = [] \<or> ev_seq (last (nj_accepted s)) \<noteq> last_seq then
        Inl (InvalidFlush (''journal does not end at requested sequence '' @ show_u64 last_seq))
      else Inr (nj_accepted s))"

text \<open>The guards of \<open>emit\<close>, in order.\<close>

definition journal_refusal :: "event \<Rightarrow> ndjson_sink \<Rightarrow> sink_error option" where
  "journal_refusal event s =
     (case nj_session_id s of
        Some sid \<Rightarrow>
          if ev_session_id event \<noteq> sid then
            Some (Failed (''journal belongs to session '' @ sid @ '', got '' @ ev_session_id event))
          else None
      | None \<Rightarrow> None)"

definition schema_refusal :: "event \<Rightarrow> ndjson_sink \<Rightarrow> sink_error option" where
  "schema_refusal event s =
     (case nj_schema_version s of
        Some sv \<Rightarrow>
          if ev_v event \<noteq> sv then
            Some (Failed (''journal schema '' @ show_u64 sv
              @ '' is incompatible with event schema '' @ show_u64 (ev_v event)))
          else None
      | None \<Rightarrow> None)"

definition append_event :: "event \<Rightarrow> bytes \<Rightarrow> (ndjson_sink, sink_error, unit) op" where
  "append_event event line s =
     (let len = word_of_nat (length line) in
      if nj_max_spool_bytes s < nj_bytes s + len then
        (Inl (SpoolFull (nj_bytes s) len (nj_max_spool_bytes s)), s)
      else
        (case append_synced line (nj_writer s) of
           (Inl e, w) \<Rightarrow> (Inl (Io e), s\<lparr>nj_writer := w\<rparr>)
         | (Inr _, w) \<Rightarrow>
             (Inr (), s\<lparr>nj_writer := w, nj_bytes := nj_bytes s + len,
                        nj_accepted := nj_accepted s @ [event]\<rparr>)))"

definition nj_emit ::
  "(event \<Rightarrow> string + bytes) \<Rightarrow> event \<Rightarrow> (ndjson_sink, sink_error, unit) op" where
  "nj_emit to_vec event s =
     (case journal_refusal event s of
        Some e \<Rightarrow> (Inl e, s)
      | None \<Rightarrow>
     (case schema_refusal event s of
        Some e \<Rightarrow> (Inl e, s)
      | None \<Rightarrow>
          if ev_seq event \<noteq> next_seq s then
            (Inl (Failed (''journal sequence mismatch: expected '' @ show_u64 (next_seq s)
               @ '', got '' @ show_u64 (ev_seq event))), s)
          else
            (case to_vec event of
               Inl m \<Rightarrow> (Inl (Serialize m), s)
             | Inr b \<Rightarrow> append_event event (b @ [newline]) s)))"

definition nj_flush :: "(ndjson_sink, sink_error, unit) op" where
  "nj_flush s =
     (case flush_synced (nj_writer s) of
        (Inl e, w) \<Rightarrow> (Inl (Io e), s\<lparr>nj_writer := w\<rparr>)
      | (Inr _, w) \<Rightarrow> (Inr (), s\<lparr>nj_writer := w\<rparr>))"

definition journal_ops :: "(event \<Rightarrow> string + bytes) \<Rightarrow> ndjson_sink sink_ops" where
  "journal_ops to_vec =
     \<lparr>so_emit = nj_emit to_vec, so_flush = nj_flush,
      so_flush_session = default_flush_session nj_flush\<rparr>"

section \<open>The journal is a sink\<close>

lemma append_event_cases:
  assumes "append_event e line s = (r, s')"
  obtains (full) x where "r = Inl x" "s' = s"
  | (failed) x w where "r = Inl (Io x)" "append_synced line (nj_writer s) = (Inl x, w)"
      "s' = s\<lparr>nj_writer := w\<rparr>"
  | (accepted) w where "r = Inr ()"
      "\<not> nj_max_spool_bytes s < nj_bytes s + word_of_nat (length line)"
      "append_synced line (nj_writer s) = (Inr (), w)"
      "s' = s\<lparr>nj_writer := w, nj_bytes := nj_bytes s + word_of_nat (length line),
              nj_accepted := nj_accepted s @ [e]\<rparr>"
proof (cases "nj_max_spool_bytes s < nj_bytes s + word_of_nat (length line)")
  case True
  show thesis
    by (rule full [of "SpoolFull (nj_bytes s) (word_of_nat (length line)) (nj_max_spool_bytes s)"])
      (use assms True in \<open>auto simp: append_event_def\<close>)
next
  case False
  obtain x w where a: "append_synced line (nj_writer s) = (x, w)" by (rule prod.exhaust)
  show thesis
  proof (cases x)
    case (Inl y)
    show thesis by (rule failed [of y w]) (use assms False a Inl in \<open>simp_all add: append_event_def\<close>)
  next
    case (Inr u)
    show thesis by (rule accepted [of w]) (use assms False a Inr in \<open>simp_all add: append_event_def\<close>)
  qed
qed

lemma nj_emit_cases:
  assumes "nj_emit to_vec e s = (r, s')"
  obtains (refused) x where "r = Inl x" "s' = s"
  | (append) b where "journal_refusal e s = None" "schema_refusal e s = None" "ev_seq e = next_seq s"
      "to_vec e = Inr b" "append_event e (b @ [newline]) s = (r, s')"
proof (cases "journal_refusal e s = None \<and> schema_refusal e s = None \<and> ev_seq e = next_seq s")
  case True
  show thesis
  proof (cases "to_vec e")
    case (Inl m)
    show thesis
      by (rule refused [of "Serialize m"]) (use assms True Inl in \<open>simp_all add: nj_emit_def\<close>)
  next
    case (Inr b)
    show thesis
      by (rule append [of b]) (use assms True Inr in \<open>simp_all add: nj_emit_def\<close>)
  qed
next
  case False
  then have "\<exists>x. r = Inl x \<and> s' = s"
    using assms by (auto simp: nj_emit_def split: option.splits)
  then show thesis using refused by blast
qed

lemma nj_emit_err: "nj_emit to_vec e s = (Inl x, s') \<Longrightarrow> nj_accepted s' = nj_accepted s"
  by (elim nj_emit_cases append_event_cases) auto

lemma nj_emit_ok: "nj_emit to_vec e s = (Inr u, s') \<Longrightarrow> nj_accepted s' = nj_accepted s @ [e]"
  by (elim nj_emit_cases append_event_cases) auto

lemma nj_flush_accepted: "nj_flush s = (r, s') \<Longrightarrow> nj_accepted s' = nj_accepted s"
  by (auto simp: nj_flush_def split: prod.splits sum.splits)

interpretation journal: sink_contract "journal_ops to_vec" "\<lambda>s es. nj_accepted s = es" for to_vec
proof unfold_locales
  show "nj_accepted t = es @ [e]" if "nj_accepted s = es" "so_emit (journal_ops to_vec) e s = (Inr u, t)"
    for to_vec s es e u t
    using that nj_emit_ok by (fastforce simp: journal_ops_def)
  show "nj_accepted t = es" if "nj_accepted s = es" "so_emit (journal_ops to_vec) e s = (Inl x, t)"
    for to_vec s es e x t
    using that nj_emit_err by (fastforce simp: journal_ops_def)
qed (auto simp: journal_ops_def default_flush_session_def dest: nj_flush_accepted)


section \<open>The file and the accepted events\<close>

text \<open>
  \<open>journal_ok\<close>: the journal of a session, with no I/O fault ahead, whose file is exactly the
  lines of the accepted events.
\<close>

definition journal_ok ::
  "(event \<Rightarrow> string + bytes) \<Rightarrow> string \<Rightarrow> u8 \<Rightarrow> ndjson_sink \<Rightarrow> bool" where
  "journal_ok to_vec sid sv s \<longleftrightarrow>
     nj_session_id s = Some sid \<and> nj_schema_version s = Some sv
     \<and> stream_ok sid sv (nj_accepted s)
     \<and> wr_file (nj_writer s) = event_lines to_vec (nj_accepted s)
     \<and> wr_buf (nj_writer s) = [] \<and> wr_faults (nj_writer s) = []
     \<and> nj_bytes s = word_of_nat (length (wr_file (nj_writer s)))"

lemma journal_checks:
  assumes "nj_session_id s = Some sid" and "nj_schema_version s = Some sv"
    and "journal_refusal e s = None" and "schema_refusal e s = None" and "ev_seq e = next_seq s"
    and "stream_ok sid sv (nj_accepted s)"
  shows "stream_ok sid sv (nj_accepted s @ [e])"
  using assms by (auto simp: journal_refusal_def schema_refusal_def next_seq_def split: if_splits)

lemma journal_ok_emit:
  assumes "journal_ok to_vec sid sv s" and "nj_emit to_vec e s = (r, s')"
  shows "journal_ok to_vec sid sv s'"
  using assms(2)
proof (cases rule: nj_emit_cases)
  case (refused x)
  then show ?thesis using assms(1) by simp
next
  case (append b)
  let ?line = "b @ [newline]"
  have nf: "append_synced ?line (nj_writer s)
      = (Inr (), (nj_writer s)\<lparr>wr_file := wr_file (nj_writer s) @ ?line, wr_buf := []\<rparr>)"
    using append_synced_no_faults [of "nj_writer s" ?line] assms(1) by (simp add: journal_ok_def)
  have st: "stream_ok sid sv (nj_accepted s @ [e])"
    using assms(1) append by (intro journal_checks) (simp_all add: journal_ok_def)
  have el: "event_line to_vec e = ?line" using append(4) by (simp add: event_line_def)
  from append(5) show ?thesis
  proof (cases rule: append_event_cases)
    case (full x)
    then show ?thesis using assms(1) by simp
  next
    case (failed x w)
    then show ?thesis using nf by simp
  next
    case (accepted w)
    have "w = (nj_writer s)\<lparr>wr_file := wr_file (nj_writer s) @ ?line, wr_buf := []\<rparr>"
      using nf accepted(3) by simp
    then show ?thesis
      using assms(1) st el unfolding journal_ok_def accepted(4) by simp
  qed
qed

text \<open>A sequence of emits, each accepted or refused.\<close>

fun emit_each ::
  "(event \<Rightarrow> string + bytes) \<Rightarrow> event list \<Rightarrow> ndjson_sink \<Rightarrow> ndjson_sink" where
  "emit_each to_vec [] s = s"
| "emit_each to_vec (e # es) s = emit_each to_vec es (snd (nj_emit to_vec e s))"

lemma journal_ok_emit_each: "journal_ok to_vec sid sv s \<Longrightarrow> journal_ok to_vec sid sv (emit_each to_vec es s)"
  by (induction es arbitrary: s) (auto intro: journal_ok_emit [OF _ surjective_pairing])

lemma emit_each_accepted:
  "set (nj_accepted (emit_each to_vec es s)) \<subseteq> set (nj_accepted s) \<union> set es"
proof (induction es arbitrary: s)
  case (Cons e es)
  obtain r t where "nj_emit to_vec e s = (r, t)" by (rule prod.exhaust)
  moreover from this have "set (nj_accepted t) \<subseteq> insert e (set (nj_accepted s))"
    using nj_emit_ok nj_emit_err by (cases r) auto
  ultimately show ?case using Cons [of t] by auto
qed simp

text \<open>The journal a new session starts with.\<close>

definition fresh_fs :: "bytes \<Rightarrow> journal_fs" where
  "fresh_fs contents =
     \<lparr>jf_create_parent = None, jf_read = Inr contents, jf_open = None, jf_permissions = None,
      jf_len = Inr (word_of_nat (length contents))\<rparr>"

definition open_journal ::
  "(bytes \<Rightarrow> string + event) \<Rightarrow> bytes \<Rightarrow> u64 \<Rightarrow> string \<Rightarrow> u8 \<Rightarrow> sink_error + ndjson_sink" where
  "open_journal from_slice contents cap sid sv =
     create_for_session from_slice (fresh_fs contents) [] ''events.ndjson'' cap (Some sid) (Some sv)"

lemma open_journal_ok:
  assumes "list_all (codec_ok to_vec from_slice) es" and "stream_ok sid sv es"
    and "word_of_nat (length (event_lines to_vec es)) \<le> cap"
  shows "\<exists>s. open_journal from_slice (event_lines to_vec es) cap sid sv = Inr s
    \<and> journal_ok to_vec sid sv s \<and> nj_accepted s = es \<and> nj_max_spool_bytes s = cap"
  using assms parse_event_spool_lines [OF assms(1,2)]
  by (simp add: open_journal_def create_for_session_def fresh_fs_def read_existing_def
      existing_events_def journal_ok_def not_less)

lemma nj_emit_bounded:
  "nj_emit to_vec e s = (r, s') \<Longrightarrow> nj_bytes s \<le> nj_max_spool_bytes s \<Longrightarrow>
     nj_bytes s' \<le> nj_max_spool_bytes s' \<and> nj_max_spool_bytes s' = nj_max_spool_bytes s"
  by (elim nj_emit_cases append_event_cases) (auto simp: not_less)

lemma emit_each_bounded:
  "nj_bytes s \<le> nj_max_spool_bytes s \<Longrightarrow>
     nj_bytes (emit_each to_vec es s) \<le> nj_max_spool_bytes s
     \<and> nj_max_spool_bytes (emit_each to_vec es s) = nj_max_spool_bytes s"
proof (induction es arbitrary: s)
  case (Cons e es)
  obtain r t where e: "nj_emit to_vec e s = (r, t)" by (rule prod.exhaust)
  from nj_emit_bounded [OF e Cons.prems] have "nj_bytes t \<le> nj_max_spool_bytes t"
    and "nj_max_spool_bytes t = nj_max_spool_bytes s" by blast+
  then show ?case using Cons.IH [of t] e by simp
qed simp

text \<open>
  C14: A session journal survives a restart: after any sequence of emits (some refused), closing
  the journal and opening its file again gives the same accepted events in the same order, so
  the next sequence number continues where it stopped; the stream is contiguous and the spool
  cap holds throughout.
\<close>

theorem journal_reopen:
  assumes "open_journal from_slice [] cap sid sv = Inr s0"
    and "list_all (codec_ok to_vec from_slice) es"
  shows "\<exists>s1. open_journal from_slice (wr_file (nj_writer (emit_each to_vec es s0))) cap sid sv = Inr s1
    \<and> nj_accepted s1 = nj_accepted (emit_each to_vec es s0)
    \<and> next_seq s1 = next_seq (emit_each to_vec es s0)
    \<and> stream_ok sid sv (nj_accepted s1) \<and> nj_bytes s1 \<le> cap"
proof -
  let ?s = "emit_each to_vec es s0"
  obtain s where "open_journal from_slice (event_lines to_vec []) cap sid sv = Inr s"
    "journal_ok to_vec sid sv s" "nj_accepted s = []" "nj_max_spool_bytes s = cap"
    using open_journal_ok [of to_vec from_slice "[]" sid sv cap] by auto
  then have s0: "journal_ok to_vec sid sv s0" "nj_accepted s0 = []" "nj_max_spool_bytes s0 = cap"
    using assms(1) by simp_all
  have ok: "journal_ok to_vec sid sv ?s" by (rule journal_ok_emit_each [OF s0(1)])
  have "nj_bytes s0 \<le> nj_max_spool_bytes s0" using s0 by (simp add: journal_ok_def)
  then have lim: "nj_bytes ?s \<le> cap" using emit_each_bounded s0(3) by metis
  have codec: "list_all (codec_ok to_vec from_slice) (nj_accepted ?s)"
    using emit_each_accepted [of to_vec es s0] s0(2) assms(2) by (auto simp: list_all_iff)
  have str: "stream_ok sid sv (nj_accepted ?s)" using ok by (simp add: journal_ok_def)
  have len: "word_of_nat (length (event_lines to_vec (nj_accepted ?s))) \<le> cap"
    using lim ok by (simp add: journal_ok_def)
  from open_journal_ok [OF codec str len] obtain s1 where
    "open_journal from_slice (wr_file (nj_writer ?s)) cap sid sv = Inr s1"
    "journal_ok to_vec sid sv s1" "nj_accepted s1 = nj_accepted ?s"
    using ok by (auto simp: journal_ok_def)
  moreover from this have "nj_bytes s1 \<le> cap" using len ok by (simp add: journal_ok_def)
  ultimately show ?thesis using str by (auto simp: next_seq_def)
qed


theorem journal_reopen_witness:
  "\<exists>s0 s1 e. open_journal (\<lambda>b. Inr e) [] 100 ''s'' 0 = Inr s0
    \<and> open_journal (\<lambda>b. Inr e) (wr_file (nj_writer (emit_each (\<lambda>e. Inr ''x'') [e] s0))) 100 ''s'' 0 = Inr s1
    \<and> nj_accepted s1 = nj_accepted (emit_each (\<lambda>e. Inr ''x'') [e] s0)"
proof -
  let ?e = "event_at ''s'' 0 ''t'' (Mark \<lparr>mk_label = ''l'', mk_meta = [], mk_ref_op = ''o''\<rparr>)"
  have c: "list_all (codec_ok (\<lambda>e. Inr ''x'') (\<lambda>b. Inr ?e)) [?e]" by (simp add: codec_ok_def)
  obtain s0 where s0: "open_journal (\<lambda>b. Inr ?e) [] 100 ''s'' 0 = Inr s0"
    using open_journal_ok [of "\<lambda>e. Inr ''x''" "\<lambda>b. Inr ?e" "[]" "''s''" 0 100] by auto
  show ?thesis using journal_reopen [OF s0 c] s0 by blast
qed

text \<open>
  What the journal accepts: on a healthy session journal an event is accepted exactly when
  it belongs to the session and schema, carries the next number and still fits the spool limit;
  then its line is at the end of the file (synced before the return), and otherwise neither the
  file nor the accepted events change.
\<close>

theorem journal_accepts_iff:
  assumes "journal_ok to_vec sid sv s" and "to_vec e = Inr b" and "nj_emit to_vec e s = (r, s')"
  shows "(r = Inr () \<longleftrightarrow> ev_session_id e = sid \<and> ev_v e = sv \<and> ev_seq e = next_seq s
      \<and> nj_bytes s + word_of_nat (length b + 1) \<le> nj_max_spool_bytes s)
    \<and> (r = Inr () \<longrightarrow> wr_file (nj_writer s') = wr_file (nj_writer s) @ b @ [newline]
        \<and> nj_accepted s' = nj_accepted s @ [e])
    \<and> (r \<noteq> Inr () \<longrightarrow> s' = s)"
proof -
  have nf: "append_synced (b @ [newline]) (nj_writer s)
      = (Inr (), (nj_writer s)\<lparr>wr_file := wr_file (nj_writer s) @ b @ [newline], wr_buf := []\<rparr>)"
    using append_synced_no_faults [of "nj_writer s" "b @ [newline]"] assms(1) by (simp add: journal_ok_def)
  show ?thesis
  proof (cases "ev_session_id e = sid \<and> ev_v e = sv \<and> ev_seq e = next_seq s")
    case False
    then have "\<exists>x. r = Inl x \<and> s' = s"
      using assms by (auto simp: nj_emit_def journal_ok_def journal_refusal_def schema_refusal_def
          split: option.splits if_splits)
    then show ?thesis using False by auto
  next
    case True
    then have "nj_emit to_vec e s = append_event e (b @ [newline]) s"
      using assms by (simp add: nj_emit_def journal_ok_def journal_refusal_def schema_refusal_def)
    then have a: "append_event e (b @ [newline]) s = (r, s')" using assms(3) by simp
    show ?thesis
    proof (cases "nj_bytes s + word_of_nat (length b + 1) \<le> nj_max_spool_bytes s")
      case fits: True
      then have "\<not> nj_max_spool_bytes s < nj_bytes s + word_of_nat (length (b @ [newline]))"
        by (simp add: not_less)
      then show ?thesis using a nf True fits by (auto simp: append_event_def Let_def)
    next
      case over: False
      then have "nj_max_spool_bytes s < nj_bytes s + word_of_nat (length (b @ [newline]))"
        by (simp add: not_le)
      then have "\<exists>x. r = Inl x \<and> s' = s" using a by (auto simp: append_event_def Let_def)
      then show ?thesis using over by auto
    qed
  qed
qed

theorem journal_accepts_iff_witness:
  "\<exists>s e s'. open_journal (\<lambda>b. Inr e) [] 100 ''s'' 0 = Inr s \<and> nj_emit (\<lambda>e. Inr ''x'') e s = (Inr (), s')
     \<and> wr_file (nj_writer s') = wr_file (nj_writer s) @ ''x'' @ [newline]"
proof -
  let ?e = "event_at ''s'' 0 ''t'' (Mark \<lparr>mk_label = ''l'', mk_meta = [], mk_ref_op = ''o''\<rparr>)"
  obtain s where s: "open_journal (\<lambda>b. Inr ?e) [] 100 ''s'' 0 = Inr s"
    "journal_ok (\<lambda>e. Inr ''x'') ''s'' 0 s" "nj_accepted s = []" "nj_max_spool_bytes s = 100"
    using open_journal_ok [of "\<lambda>e. Inr ''x''" "\<lambda>b. Inr ?e" "[]" "''s''" 0 100] by auto
  obtain r s' where e: "nj_emit (\<lambda>e. Inr ''x'') ?e s = (r, s')" by (rule prod.exhaust)
  have "nj_bytes s = 0" using s by (simp add: journal_ok_def)
  then have "r = Inr () \<and> wr_file (nj_writer s') = wr_file (nj_writer s) @ ''x'' @ [newline]"
    using journal_accepts_iff [OF s(2) refl e] s(3,4) by (auto simp: next_seq_def SCHEMA_VERSION_def)
  then show ?thesis using s(1) e by blast
qed

section \<open>A failed sync\<close>

lemma parse_bad_stream:
  assumes "list_all (codec_ok tv fs) es" and "\<not> stream_from sid sv i es"
  shows "\<exists>m. parse_spool_lines fs sid sv name i (spool_lines (event_lines tv es)) = Inl (Failed m)"
  using assms
proof (induction es arbitrary: i)
  case (Cons e es)
  then obtain b where b: "tv e = Inr b" "b \<noteq> []" "newline \<notin> set b" "fs b = Inr e"
    by (auto simp: codec_ok_def split: sum.splits)
  have l: "spool_lines (event_lines tv (e # es)) = b # spool_lines (event_lines tv es)"
    using b spool_lines_line [of b] by (simp add: event_line_def)
  show ?case
  proof (cases "ev_seq e = word_of_nat i \<and> ev_session_id e = sid \<and> ev_v e = sv")
    case True
    then have "\<not> stream_from sid sv (Suc i) es" using Cons.prems by simp
    then show ?thesis using Cons.IH [of "Suc i"] Cons.prems True b
      by (auto simp: l parse_spool_line_def simp del: event_lines_simps)
  next
    case False
    then show ?thesis using b by (auto simp: l parse_spool_line_def simp del: event_lines_simps)
  qed
qed simp

text \<open>
  C15: A code bug. When syncing the file fails after the line was written, \<open>emit\<close> reports an
  error without remembering the line, so the recorder's retry of the same event succeeds and
  writes it a second time: the journal then holds a duplicate sequence number and can no longer
  be opened.
\<close>

theorem failed_sync_duplicates:
  assumes ok: "journal_ok to_vec sid sv s" and e: "to_vec e = Inr b" "list_all (codec_ok to_vec from_slice) (nj_accepted s @ [e])"
      "ev_session_id e = sid" "ev_v e = sv" "ev_seq e = next_seq s"
    and cap: "nj_bytes s + word_of_nat (length b + 1) \<le> nj_max_spool_bytes s"
  shows "\<exists>s1 s2 m. nj_emit to_vec e (s\<lparr>nj_writer := (nj_writer s)\<lparr>wr_faults := [None, None, Some (x, n)]\<rparr>\<rparr>)
      = (Inl (Io x), s1)
    \<and> nj_emit to_vec e s1 = (Inr (), s2)
    \<and> wr_file (nj_writer s2) = event_lines to_vec (nj_accepted s @ [e, e])
    \<and> open_journal from_slice (wr_file (nj_writer s2)) l sid sv = Inl (Failed m)"
proof -
  let ?line = "b @ [newline]"
  let ?w = "nj_writer s"
  let ?s1 = "s\<lparr>nj_writer := ?w\<lparr>wr_file := wr_file ?w @ ?line\<rparr>\<rparr>"
  let ?s2 = "?s1\<lparr>nj_writer := ?w\<lparr>wr_file := wr_file ?w @ ?line @ ?line\<rparr>,
     nj_bytes := nj_bytes s + word_of_nat (length ?line), nj_accepted := nj_accepted s @ [e]\<rparr>"
  have w: "wr_buf ?w = []" "wr_faults ?w = []" using ok by (simp_all add: journal_ok_def)
  have fits: "\<not> nj_max_spool_bytes s < nj_bytes s + word_of_nat (length ?line)"
    using cap by (simp add: not_less)
  have 1: "nj_emit to_vec e (s\<lparr>nj_writer := ?w\<lparr>wr_faults := [None, None, Some (x, n)]\<rparr>\<rparr>) = (Inl (Io x), ?s1)"
    using ok e w fits
    by (simp add: nj_emit_def journal_refusal_def schema_refusal_def journal_ok_def next_seq_def
        append_event_def append_synced_def bindE_def writer_defs Let_def)
  have 2: "nj_emit to_vec e ?s1 = (Inr (), ?s2)"
    using ok e w fits
    by (simp add: nj_emit_def journal_refusal_def schema_refusal_def journal_ok_def next_seq_def
        append_event_def append_synced_def bindE_def writer_defs Let_def)
  have l: "event_line to_vec e = ?line" using e(1) by (simp add: event_line_def)
  have f: "wr_file (nj_writer ?s2) = event_lines to_vec (nj_accepted s @ [e, e])"
    using ok l by (simp add: journal_ok_def)
  have c: "list_all (codec_ok to_vec from_slice) (nj_accepted s @ [e, e])" using e(2) by simp
  have "\<not> stream_ok sid sv (nj_accepted s @ [e, e])" using e(5) by (simp add: next_seq_def)
  from parse_bad_stream [OF c this, of "''journal''"] obtain m where
    "parse_spool_lines from_slice sid sv ''journal'' 0 (spool_lines (event_lines to_vec (nj_accepted s @ [e, e])))
      = Inl (Failed m)" by blast
  moreover have "ends_with (event_lines to_vec (nj_accepted s @ [e, e])) [newline]"
    using event_lines_ends [OF c] by simp
  ultimately have "open_journal from_slice (wr_file (nj_writer ?s2)) l sid sv = Inl (Failed m)"
    unfolding f by (simp add: open_journal_def create_for_session_def fresh_fs_def read_existing_def
        existing_events_def parse_event_spool_def)
  then show ?thesis using 1 2 f by blast
qed

theorem failed_sync_duplicates_witness:
  "\<exists>s e s1 s2 m. nj_emit (\<lambda>e. Inr ''x'') e s = (Inl (Io (Os_error 5)), s1)
     \<and> nj_emit (\<lambda>e. Inr ''x'') e s1 = (Inr (), s2)
     \<and> open_journal (\<lambda>b. Inr e) (wr_file (nj_writer s2)) 100 ''s'' 0 = Inl (Failed m)"
proof -
  let ?e = "event_at ''s'' 0 ''t'' (Mark \<lparr>mk_label = ''l'', mk_meta = [], mk_ref_op = ''o''\<rparr>)"
  have c: "list_all (codec_ok (\<lambda>e. Inr ''x'') (\<lambda>b. Inr ?e)) [?e]" by (simp add: codec_ok_def)
  obtain s where s: "journal_ok (\<lambda>e. Inr ''x'') ''s'' 0 s" "nj_accepted s = []" "nj_max_spool_bytes s = 100"
    using open_journal_ok [of "\<lambda>e. Inr ''x''" "\<lambda>b. Inr ?e" "[]" "''s''" 0 100] by auto
  have "nj_bytes s = 0" using s by (simp add: journal_ok_def)
  then obtain s1 s2 m where
    "nj_emit (\<lambda>e. Inr ''x'') ?e (s\<lparr>nj_writer := (nj_writer s)\<lparr>wr_faults := [None, None, Some (Os_error 5, 0)]\<rparr>\<rparr>)
      = (Inl (Io (Os_error 5)), s1)" "nj_emit (\<lambda>e. Inr ''x'') ?e s1 = (Inr (), s2)"
    "open_journal (\<lambda>b. Inr ?e) (wr_file (nj_writer s2)) 100 ''s'' 0 = Inl (Failed m)"
    using failed_sync_duplicates [OF s(1), where e = ?e and b = "''x''" and from_slice = "\<lambda>b. Inr ?e"
        and x = "Os_error 5" and n = 0 and l = 100] c s(2,3)
    by (auto simp: next_seq_def SCHEMA_VERSION_def)
  then show ?thesis by blast
qed

end
