(* ===== verification/Durable_Sink.thy ===== *)
theory Durable_Sink
  imports Journal
begin

text \<open>
  \<open>DurableSessionSink\<close> (\<open>crates/rrjj-sinks/src/durable.rs\<close>): local acceptance by the journal,
  and a flush that publishes first the checkpoint, then the events, and requires both remote
  watermarks to reach the flushed sequence number. The checkpoint and event sinks are
  parameters: functions of their request and of their own states.
\<close>

record ('c, 'e) durable_sink =
  ds_journal :: ndjson_sink
  ds_checkpoint :: 'c
  ds_events :: 'e
  ds_session_id :: string

definition durable_new :: "ndjson_sink \<Rightarrow> 'c \<Rightarrow> 'e \<Rightarrow> string \<Rightarrow> ('c, 'e) durable_sink" where
  "durable_new journal checkpoint events session_id =
     \<lparr>ds_journal = journal, ds_checkpoint = checkpoint, ds_events = events, ds_session_id = session_id\<rparr>"

type_synonym ('c, 'e, 'a) dop = "(('c, 'e) durable_sink, sink_error, 'a) op"

definition on_journal :: "(ndjson_sink, sink_error, 'a) op \<Rightarrow> ('c, 'e, 'a) dop" where
  "on_journal m s = (case m (ds_journal s) of (r, j) \<Rightarrow> (r, s\<lparr>ds_journal := j\<rparr>))"

definition on_checkpoint :: "('c, sink_error, 'a) op \<Rightarrow> ('c, 'e, 'a) dop" where
  "on_checkpoint m s = (case m (ds_checkpoint s) of (r, c) \<Rightarrow> (r, s\<lparr>ds_checkpoint := c\<rparr>))"

definition on_events :: "('e, sink_error, 'a) op \<Rightarrow> ('c, 'e, 'a) dop" where
  "on_events m s = (case m (ds_events s) of (r, e) \<Rightarrow> (r, s\<lparr>ds_events := e\<rparr>))"

text \<open>The commit a flush names: the request's, else that of the last snapshot event.\<close>

definition flush_commit :: "flush_request \<Rightarrow> event list \<Rightarrow> sink_error + string" where
  "flush_commit request events =
     (case fr_checkpoint request of
        Some c \<Rightarrow> Inr c
      | None \<Rightarrow>
         (case latest_snapshot_commit events of
            Some c \<Rightarrow> Inr c
          | None \<Rightarrow> Inl (InvalidFlush
              ''flush requires a checkpoint commit OID from the recorder or a snapshot event'')))"

definition flush_checkpoint_request ::
  "flush_request \<Rightarrow> string \<Rightarrow> string \<Rightarrow> checkpoint_request" where
  "flush_checkpoint_request request session_id commit =
     \<lparr>cr_shadow_root = fr_shadow_root request, cr_session_id = session_id, cr_commit = commit,
      cr_last_seq = fr_last_seq request, cr_last_op = fr_last_op request\<rparr>"

definition flush_publish_request ::
  "flush_request \<Rightarrow> string \<Rightarrow> string \<Rightarrow> event list \<Rightarrow> event_publish_request" where
  "flush_publish_request request session_id checkpoint events =
     \<lparr>ep_session_id = session_id, ep_schema_version = SCHEMA_VERSION, ep_events = events,
      ep_durable = Some \<lparr>dw_seq = fr_last_seq request, dw_op = fr_last_op request,
                         dw_checkpoint = checkpoint\<rparr>\<rparr>"

definition debug_seq :: "u64 option \<Rightarrow> string" where
  "debug_seq s = (case s of None \<Rightarrow> ''None'' | Some n \<Rightarrow> ''Some('' @ show_u64 n @ '')'')"

text \<open>The checks of the acknowledgement.\<close>

definition check_ack :: "flush_request \<Rightarrow> event_acknowledgement \<Rightarrow> sink_error + unit" where
  "check_ack request ack =
     (if ea_accepted_through_seq ack < fr_last_seq request then
        Inl (Failed (''event sink acknowledged only through '' @ show_u64 (ea_accepted_through_seq ack)
          @ '', flush required '' @ show_u64 (fr_last_seq request)))
      else if (case ea_durable_through_seq ack of None \<Rightarrow> False | Some n \<Rightarrow> n < fr_last_seq request) then
        Inl (Failed (''event sink durable watermark '' @ debug_seq (ea_durable_through_seq ack)
          @ '' is before flush target '' @ show_u64 (fr_last_seq request)))
      else Inr ())"

definition pure_result :: "sink_error + 'a \<Rightarrow> ('c, 'e, 'a) dop" where
  "pure_result r s = (r, s)"

definition durable_flush_session ::
  "'c checkpoint_sink \<Rightarrow> 'e event_sink \<Rightarrow> flush_request \<Rightarrow> ('c, 'e, unit) dop" where
  "durable_flush_session publish_checkpoint publish_events request s0 =
     bindE (on_journal nj_flush) (\<lambda>_.
     bindE (\<lambda>s. (events_through (fr_last_seq request) (ds_journal s), s)) (\<lambda>events.
     bindE (pure_result (flush_commit request events)) (\<lambda>commit.
     bindE (on_checkpoint (publish_checkpoint
              (flush_checkpoint_request request (ds_session_id s0) commit))) (\<lambda>publication.
     bindE (pure_result (normalize_commit_oid (cp_checkpoint publication))) (\<lambda>checkpoint.
     bindE (on_events (publish_events
              (flush_publish_request request (ds_session_id s0) checkpoint events))) (\<lambda>ack.
     pure_result (check_ack request ack))))))) s0"

definition durable_ops ::
  "(event \<Rightarrow> string + bytes) \<Rightarrow> 'c checkpoint_sink \<Rightarrow> 'e event_sink \<Rightarrow> ('c, 'e) durable_sink sink_ops" where
  "durable_ops to_vec publish_checkpoint publish_events =
     \<lparr>so_emit = (\<lambda>e. on_journal (nj_emit to_vec e)), so_flush = on_journal nj_flush,
      so_flush_session = durable_flush_session publish_checkpoint publish_events\<rparr>"

section \<open>Frames\<close>

lemma on_journal_frame: "on_journal m s = (r, t) \<Longrightarrow>
    \<exists>j. m (ds_journal s) = (r, j) \<and> t = s\<lparr>ds_journal := j\<rparr>"
  by (auto simp: on_journal_def split: prod.splits)

lemma on_checkpoint_frame: "on_checkpoint m s = (r, t) \<Longrightarrow>
    \<exists>c. m (ds_checkpoint s) = (r, c) \<and> t = s\<lparr>ds_checkpoint := c\<rparr>"
  by (auto simp: on_checkpoint_def split: prod.splits)

lemma on_events_frame: "on_events m s = (r, t) \<Longrightarrow>
    \<exists>e. m (ds_events s) = (r, e) \<and> t = s\<lparr>ds_events := e\<rparr>"
  by (auto simp: on_events_def split: prod.splits)

lemma pure_result_frame: "pure_result x s = (r, t) \<Longrightarrow> x = r \<and> t = s"
  by (simp add: pure_result_def)

lemmas durable_frames = on_journal_frame on_checkpoint_frame on_events_frame pure_result_frame

lemma durable_flush_accepted:
  assumes "durable_flush_session pc pe fr s = (r, t)"
  shows "nj_accepted (ds_journal t) = nj_accepted (ds_journal s)"
  using assms unfolding durable_flush_session_def
  by (cases r)
    (auto elim!: bindE_InlE bindE_InrE dest!: durable_frames nj_flush_accepted)

interpretation durable: sink_contract "durable_ops to_vec pc pe"
    "\<lambda>s es. nj_accepted (ds_journal s) = es" for to_vec pc pe
proof unfold_locales
  show "nj_accepted (ds_journal t) = es @ [e]"
    if "nj_accepted (ds_journal s) = es" "so_emit (durable_ops to_vec pc pe) e s = (Inr u, t)"
    for to_vec pc pe s es e u t
    using that nj_emit_ok by (fastforce simp: durable_ops_def dest!: on_journal_frame)
  show "nj_accepted (ds_journal t) = es"
    if "nj_accepted (ds_journal s) = es" "so_emit (durable_ops to_vec pc pe) e s = (Inl x, t)"
    for to_vec pc pe s es e x t
    using that nj_emit_err by (fastforce simp: durable_ops_def dest!: on_journal_frame)
  show "nj_accepted (ds_journal t) = es"
    if "nj_accepted (ds_journal s) = es" "so_flush (durable_ops to_vec pc pe) s = (r, t)"
    for to_vec pc pe s es r t
    using that nj_flush_accepted by (fastforce simp: durable_ops_def dest!: on_journal_frame)
  show "nj_accepted (ds_journal t) = es"
    if "nj_accepted (ds_journal s) = es" "so_flush_session (durable_ops to_vec pc pe) fr s = (r, t)"
    for to_vec pc pe s es fr r t
    using that durable_flush_accepted by (fastforce simp: durable_ops_def)
qed

lemma durable_flush_parts:
  assumes "durable_flush_session publish_checkpoint publish_events request s = (Inr u, s')"
  shows "\<exists>commit publication checkpoint ack.
    nj_accepted (ds_journal s') = nj_accepted (ds_journal s)
    \<and> nj_accepted (ds_journal s) \<noteq> [] \<and> ev_seq (last (nj_accepted (ds_journal s))) = fr_last_seq request
    \<and> (case fr_checkpoint request of Some c \<Rightarrow> commit = c
       | None \<Rightarrow> latest_snapshot_commit (nj_accepted (ds_journal s)) = Some commit)
    \<and> publish_checkpoint (flush_checkpoint_request request (ds_session_id s) commit) (ds_checkpoint s)
        = (Inr publication, ds_checkpoint s')
    \<and> normalize_commit_oid (cp_checkpoint publication) = Inr checkpoint
    \<and> publish_events (flush_publish_request request (ds_session_id s) checkpoint
          (nj_accepted (ds_journal s))) (ds_events s) = (Inr ack, ds_events s')
    \<and> fr_last_seq request \<le> ea_accepted_through_seq ack
    \<and> (\<forall>n. ea_durable_through_seq ack = Some n \<longrightarrow> fr_last_seq request \<le> n)"
proof -
  note acc = durable_flush_accepted [OF assms]
  from assms obtain v s1 events s2 commit s3 publication s4 checkpoint s5 ack s6 where
    j: "on_journal nj_flush s = (Inr v, s1)"
    and e: "(events_through (fr_last_seq request) (ds_journal s1), s1) = (Inr events, s2)"
    and c: "pure_result (flush_commit request events) s2 = (Inr commit, s3)"
    and p: "on_checkpoint (publish_checkpoint
              (flush_checkpoint_request request (ds_session_id s) commit)) s3 = (Inr publication, s4)"
    and n: "pure_result (normalize_commit_oid (cp_checkpoint publication)) s4 = (Inr checkpoint, s5)"
    and a: "on_events (publish_events
              (flush_publish_request request (ds_session_id s) checkpoint events)) s5 = (Inr ack, s6)"
    and k: "pure_result (check_ack request ack) s6 = (Inr u, s')"
    unfolding durable_flush_session_def by (elim bindE_InrE) blast
  from j obtain nj where s1: "s1 = s\<lparr>ds_journal := nj\<rparr>" "nj_accepted nj = nj_accepted (ds_journal s)"
    by (auto dest!: on_journal_frame dest: nj_flush_accepted)
  have e': "s2 = s1" "events = nj_accepted (ds_journal s)" "nj_accepted (ds_journal s) \<noteq> []"
    "ev_seq (last (nj_accepted (ds_journal s))) = fr_last_seq request"
    using e s1 by (auto simp: events_through_def split: if_splits)
  have c': "s3 = s1" "case fr_checkpoint request of Some c \<Rightarrow> commit = c
       | None \<Rightarrow> latest_snapshot_commit (nj_accepted (ds_journal s)) = Some commit"
    using c e' by (auto simp: pure_result_def flush_commit_def split: option.splits)
  from p c' obtain cp where p': "publish_checkpoint (flush_checkpoint_request request (ds_session_id s) commit)
      (ds_checkpoint s) = (Inr publication, cp)" "s4 = s1\<lparr>ds_checkpoint := cp\<rparr>"
    using s1 by (auto dest!: on_checkpoint_frame)
  have n': "normalize_commit_oid (cp_checkpoint publication) = Inr checkpoint" "s5 = s4"
    using n by (auto dest!: pure_result_frame)
  from a n' p' e' obtain ev where a': "publish_events (flush_publish_request request (ds_session_id s) checkpoint
      (nj_accepted (ds_journal s))) (ds_events s) = (Inr ack, ev)" "s6 = s4\<lparr>ds_events := ev\<rparr>"
    using s1 by (auto dest!: on_events_frame)
  have "fr_last_seq request \<le> ea_accepted_through_seq ack"
    "\<forall>n. ea_durable_through_seq ack = Some n \<longrightarrow> fr_last_seq request \<le> n" "s' = s6"
    using k by (auto simp: pure_result_def check_ack_def not_less split: if_splits)
  then show ?thesis using acc e' c' p' n' a' s1 by (intro exI conjI) auto
qed


text \<open>
  C16: A durable flush means what it says: it succeeds only when the journal ends at the flushed
  number, the checkpoint of the named commit has been published, then exactly the accepted
  events have been published with a watermark naming that number, operation and canonical
  checkpoint, and the event sink acknowledged acceptance (and durability, when it reports one)
  up to that number.
\<close>

theorem durable_flush_complete:
  assumes "durable_flush_session publish_checkpoint publish_events request s = (Inr u, s')"
  shows "\<exists>commit publication checkpoint ack.
    nj_accepted (ds_journal s') = nj_accepted (ds_journal s)
    \<and> nj_accepted (ds_journal s) \<noteq> [] \<and> ev_seq (last (nj_accepted (ds_journal s))) = fr_last_seq request
    \<and> (case fr_checkpoint request of Some c \<Rightarrow> commit = c
       | None \<Rightarrow> latest_snapshot_commit (nj_accepted (ds_journal s)) = Some commit)
    \<and> publish_checkpoint (flush_checkpoint_request request (ds_session_id s) commit) (ds_checkpoint s)
        = (Inr publication, ds_checkpoint s')
    \<and> normalize_commit_oid (cp_checkpoint publication) = Inr checkpoint
    \<and> publish_events (flush_publish_request request (ds_session_id s) checkpoint
          (nj_accepted (ds_journal s))) (ds_events s) = (Inr ack, ds_events s')
    \<and> fr_last_seq request \<le> ea_accepted_through_seq ack
    \<and> (\<forall>n. ea_durable_through_seq ack = Some n \<longrightarrow> fr_last_seq request \<le> n)"
  by (rule durable_flush_parts [OF assms])

text \<open>A concrete durable sink for the witnesses: remotes that accept everything, or refuse.\<close>

definition demo_journal :: ndjson_sink where
  "demo_journal =
     \<lparr>nj_path = ''p'', nj_writer = \<lparr>wr_file = [], wr_buf = [], wr_faults = []\<rparr>, nj_bytes = 0,
      nj_max_spool_bytes = 10, nj_session_id = None, nj_schema_version = None,
      nj_accepted = [event_at ''s'' 0 ''t'' (Flush \<lparr>fl_op = ''o'', fl_through_seq = 0\<rparr>)]\<rparr>"

definition demo_durable :: "(nat, nat) durable_sink" where
  "demo_durable = \<lparr>ds_journal = demo_journal, ds_checkpoint = 0, ds_events = 0, ds_session_id = ''s''\<rparr>"

definition demo_request :: flush_request where
  "demo_request = \<lparr>fr_shadow_root = ''/x'', fr_last_seq = 0, fr_last_op = ''o'',
     fr_checkpoint = Some (replicate 40 (CHR ''a''))\<rparr>"

lemma demo_oid: "normalize_commit_oid (replicate 40 (CHR ''a'')) = Inr (replicate 40 (CHR ''a''))"
proof -
  have "canonical_oid (replicate 40 (CHR ''a''))"
    by (simp add: canonical_oid_def is_ascii_hexdigit_def to_ascii_lowercase_def map_replicate
        list_all_iff Let_def)
  then show ?thesis by (rule normalize_of_canonical)
qed

lemmas demo_durable_defs = durable_flush_session_def bindE_def on_journal_def nj_flush_def
  flush_synced_def writer_defs events_through_def demo_durable_def demo_journal_def
  demo_request_def flush_commit_def pure_result_def on_checkpoint_def on_events_def check_ack_def

theorem durable_flush_complete_witness:
  "\<exists>s'. durable_flush_session (\<lambda>r c. (Inr \<lparr>cp_checkpoint = cr_commit r\<rparr>, Suc c))
      (\<lambda>r e. (Inr \<lparr>ea_accepted_through_seq = 0, ea_durable_through_seq = None\<rparr>, Suc e))
      demo_request demo_durable = (Inr (), s') \<and> ds_events s' = 1"
proof -
  let ?pc = "\<lambda>r c. (Inr \<lparr>cp_checkpoint = cr_commit r\<rparr>, Suc c)"
  let ?pe = "\<lambda>r e. (Inr \<lparr>ea_accepted_through_seq = 0, ea_durable_through_seq = None\<rparr>, Suc e)"
  have "fst (durable_flush_session ?pc ?pe demo_request demo_durable) = Inr ()"
    by (simp add: demo_durable_defs demo_oid flush_checkpoint_request_def)
  then obtain s' where s': "durable_flush_session ?pc ?pe demo_request demo_durable = (Inr (), s')"
    by (metis prod.collapse)
  show ?thesis using durable_flush_complete [OF s'] s' by (auto simp: demo_durable_def)
qed

text \<open>
  Events are never published ahead of their checkpoint: if a flush, successful or not,
  changed the event sink, then the checkpoint of that flush had been published before; and no
  flush ever changes the accepted events.
\<close>

theorem events_after_checkpoint:
  assumes "durable_flush_session publish_checkpoint publish_events request s = (r, s')"
  shows "nj_accepted (ds_journal s') = nj_accepted (ds_journal s)
    \<and> (ds_events s' \<noteq> ds_events s \<longrightarrow>
        (\<exists>commit publication. publish_checkpoint
            (flush_checkpoint_request request (ds_session_id s) commit) (ds_checkpoint s)
          = (Inr publication, ds_checkpoint s')))"
proof (cases r)
  case (Inr u)
  then show ?thesis using durable_flush_parts assms by blast
next
  case (Inl x)
  have "ds_events s' \<noteq> ds_events s \<longrightarrow>
        (\<exists>commit publication. publish_checkpoint
            (flush_checkpoint_request request (ds_session_id s) commit) (ds_checkpoint s)
          = (Inr publication, ds_checkpoint s'))"
    using assms unfolding durable_flush_session_def Inl
    by (elim bindE_InlE; auto dest!: durable_frames split: if_splits; blast)
  then show ?thesis using durable_flush_accepted [OF assms] by blast
qed

theorem events_after_checkpoint_witness:
  "\<exists>r s'. durable_flush_session (\<lambda>r c. (Inl (Transient ''down''), Suc c))
      (\<lambda>r e. (Inr \<lparr>ea_accepted_through_seq = 0, ea_durable_through_seq = None\<rparr>, Suc e))
      demo_request demo_durable = (r, s') \<and> ds_events s' = 0"
proof -
  let ?pc = "\<lambda>r c. (Inl (Transient ''down''), Suc c)"
  let ?pe = "\<lambda>r e. (Inr \<lparr>ea_accepted_through_seq = 0, ea_durable_through_seq = None\<rparr>, Suc e)"
  obtain r s' where s': "durable_flush_session ?pc ?pe demo_request demo_durable = (r, s')"
    by (rule prod.exhaust)
  then show ?thesis
    using events_after_checkpoint [OF s'] by (auto simp: demo_durable_def)
qed

end
