(* ===== verification/Daemon.thy ===== *)
theory Daemon
  imports Watcher Http_Sink Git_Sink Durable_Sink
begin

text \<open>
  The daemon and its clients (\<open>crates/rrjj/src/main.rs\<close>): the checks of the options and the sinks
  and the configuration built from them, the methods of the coordinator's handle and the control
  requests that use them, the answer a client prints, the test of a left-over control socket,
  the cross-origin policy and the messages of the event stream.

  Argument parsing, sockets, the HTTP server and the JSON encoding are libraries; their results
  are arguments here.
\<close>

section \<open>Options\<close>

datatype checkpoint_backend = Checkpoint_local | Checkpoint_git
datatype event_backend = Event_local | Event_http | Event_none

record daemon_options =
  op_root :: string
  op_shadow :: string
  op_events :: string
  op_session_dir :: "string option"
  op_socket :: string
  op_session_id :: string
  op_max_changes :: nat
  op_max_spool_bytes :: u64
  op_quiescence_ms :: nat
  op_max_delay_ms :: nat
  op_ignore :: "string list"
  op_checkpoint_backend :: "checkpoint_backend option"
  op_event_backend :: "event_backend option"
  op_git_remote_url :: "string option"
  op_git_ref_prefix :: string
  op_event_http_url :: "string option"
  op_event_max_batch_events :: nat
  op_event_max_batch_bytes :: nat
  op_cors_origin :: "string option"

definition check_limits :: "daemon_options \<Rightarrow> string + unit" where
  "check_limits options =
     (if op_max_changes options = 0 then Inl ''--max-changes must be greater than zero''
      else if op_quiescence_ms options = 0 \<or> op_max_delay_ms options = 0 then
        Inl ''watch delays must be greater than zero''
      else if op_event_max_batch_events options = 0 then
        Inl ''--event-max-batch-events must be greater than zero''
      else if op_event_max_batch_bytes options = 0 then
        Inl ''--event-max-batch-bytes must be greater than zero''
      else Inr ())"

definition resolved_checkpoint :: "daemon_options \<Rightarrow> checkpoint_backend option" where
  "resolved_checkpoint options =
     (case op_checkpoint_backend options of
        Some b \<Rightarrow> Some b
      | None \<Rightarrow>
          if op_session_dir options \<noteq> None then Some Checkpoint_local
          else if op_git_remote_url options \<noteq> None then Some Checkpoint_git
          else None)"

definition resolved_events :: "daemon_options \<Rightarrow> event_backend option" where
  "resolved_events options =
     (case op_event_backend options of
        Some b \<Rightarrow> Some b
      | None \<Rightarrow>
          if op_session_dir options \<noteq> None then Some Event_local
          else if op_event_http_url options \<noteq> None then Some Event_http
          else Some Event_none)"

definition check_backends ::
  "daemon_options \<Rightarrow> checkpoint_backend option \<Rightarrow> event_backend option \<Rightarrow> string + unit" where
  "check_backends options checkpoint events =
     (case (checkpoint, events) of
        (Some Checkpoint_local, Some Event_local) \<Rightarrow>
          if op_session_dir options = None then
            Inl ''--session-dir is required for local checkpoint/event backends''
          else Inr ()
      | (Some Checkpoint_git, Some Event_http) \<Rightarrow>
          if op_git_remote_url options = None then
            Inl ''--git-remote-url or RRJJ_GIT_REMOTE_URL is required for the git checkpoint backend''
          else if op_event_http_url options = None then
            Inl ''--event-http-url or RRJJ_EVENT_HTTP_URL is required for the http event backend''
          else Inr ()
      | (None, Some Event_none) \<Rightarrow> Inr ()
      | (Some Checkpoint_local, Some Event_none) \<Rightarrow>
          Inl ''local backends must be used together via --session-dir''
      | (None, Some Event_local) \<Rightarrow> Inl ''local backends must be used together via --session-dir''
      | _ \<Rightarrow> Inl ''supported durable modes are: local (--session-dir), git+http, or spool-only'')"

definition validate_options ::
  "daemon_options \<Rightarrow> string + (checkpoint_backend option \<times> event_backend option)" where
  "validate_options options =
     (case check_limits options of
        Inl m \<Rightarrow> Inl m
      | Inr _ \<Rightarrow>
          (let checkpoint = resolved_checkpoint options; events = resolved_events options in
           case check_backends options checkpoint events of
             Inl m \<Rightarrow> Inl m
           | Inr _ \<Rightarrow> Inr (checkpoint, events)))"

section \<open>Sinks and configuration\<close>

text \<open>\<open>Path::with_extension\<close>: the text after the last dot of the file name, unless it starts it.\<close>

definition file_stem :: "string \<Rightarrow> string" where
  "file_stem name =
     (let r = dropWhile (\<lambda>c. c \<noteq> CHR ''.'') (rev name) in if r = [] \<or> tl r = [] then name else rev (tl r))"

definition map_last :: "(string \<Rightarrow> string) \<Rightarrow> string list \<Rightarrow> string list" where
  "map_last f cs = butlast cs @ [f (last cs)]"

definition with_extension :: "fs_path \<Rightarrow> string \<Rightarrow> fs_path" where
  "with_extension path extension =
     (case file_name path of
        None \<Rightarrow> path
      | Some name \<Rightarrow>
          (case path of
             Absolute cs \<Rightarrow> Absolute (map_last (\<lambda>c. file_stem c @ ''.'' @ extension) cs)
           | Relative cs \<Rightarrow> Relative (map_last (\<lambda>c. file_stem c @ ''.'' @ extension) cs)))"

text \<open>
  The durable sink to open. The two authorizations are environment variables. The last
  constructor stands for the \<open>expect\<close> and \<open>unreachable!\<close> of the code.
\<close>

datatype durable_mode =
    Local_mode string string u64 format_metadata
  | Remote_mode string u64 git_config fs_path http_config string fs_path
  | Spool_mode string u64
  | Mode_panic

definition daemon_format :: "string \<Rightarrow> format_metadata" where
  "daemon_format version =
     \<lparr>fm_session_format = SESSION_FORMAT_VERSION, fm_schema_version = SCHEMA_VERSION,
      fm_rrjj_version = version, fm_jj_lib_version = ''0.43.0'',
      fm_jj_store_version = ''jj-lib-0.43.0/git''\<rparr>"

definition remote_mode ::
  "string option \<Rightarrow> string option \<Rightarrow> daemon_options \<Rightarrow> durable_mode" where
  "remote_mode git_authorization http_authorization options =
     (case (op_git_remote_url options, op_event_http_url options) of
        (Some git_url, Some http_url) \<Rightarrow>
          Remote_mode (op_events options) (op_max_spool_bytes options)
            \<lparr>gc_remote_url = git_url, gc_authorization = git_authorization,
             gc_ref_prefix = op_git_ref_prefix options, gc_session_id = op_session_id options\<rparr>
            (with_extension (parse_path (op_events options)) ''git-cursor.json'')
            \<lparr>hc_authorization = http_authorization,
             hc_max_events_per_batch = op_event_max_batch_events options,
             hc_max_bytes_per_batch = op_event_max_batch_bytes options, hc_max_retries = 8\<rparr>
            http_url
            (with_extension (parse_path (op_events options)) ''http-cursor.json'')
      | _ \<Rightarrow> Mode_panic)"

text \<open>\<open>NdjsonSink::create\<close> has no bound of its own: \<open>u64::MAX\<close>.\<close>

definition durable_sink_mode ::
  "string \<Rightarrow> string option \<Rightarrow> string option \<Rightarrow> daemon_options
     \<Rightarrow> checkpoint_backend option \<Rightarrow> event_backend option \<Rightarrow> durable_mode" where
  "durable_sink_mode version git_authorization http_authorization options checkpoint events =
     (case (checkpoint, events) of
        (Some Checkpoint_local, Some Event_local) \<Rightarrow>
          (case op_session_dir options of
             Some dir \<Rightarrow> Local_mode (op_events options) dir (op_max_spool_bytes options) (daemon_format version)
           | None \<Rightarrow> Mode_panic)
      | (Some Checkpoint_git, Some Event_http) \<Rightarrow> remote_mode git_authorization http_authorization options
      | (None, Some Event_none) \<Rightarrow> Spool_mode (op_events options) (- 1)
      | _ \<Rightarrow> Mode_panic)"

definition excluded_paths :: "daemon_options \<Rightarrow> string list" where
  "excluded_paths options =
     [op_shadow options, op_events options, op_socket options]
     @ (case op_session_dir options of Some dir \<Rightarrow> [dir] | None \<Rightarrow> [])"

text \<open>\<open>sort\<close> by the bytes of the strings, and \<open>dedup\<close> of neighbours.\<close>

definition byte_order :: "string \<Rightarrow> nat list" where
  "byte_order s = map of_char s"

fun lex_le :: "nat list \<Rightarrow> nat list \<Rightarrow> bool" where
  "lex_le [] ys = True"
| "lex_le (x # xs) [] = False"
| "lex_le (x # xs) (y # ys) = (x < y \<or> x = y \<and> lex_le xs ys)"

fun insert_sorted :: "string \<Rightarrow> string list \<Rightarrow> string list" where
  "insert_sorted x [] = [x]"
| "insert_sorted x (y # ys) =
     (if lex_le (byte_order x) (byte_order y) then x # y # ys else y # insert_sorted x ys)"

definition sort_strings :: "string list \<Rightarrow> string list" where
  "sort_strings xs = foldr insert_sorted xs []"

definition ignore_list :: "string list \<Rightarrow> string list" where
  "ignore_list extra = remdups_adj (sort_strings ([''.git'', ''.jj''] @ extra))"

definition daemon_config :: "daemon_options \<Rightarrow> config" where
  "daemon_config options =
     \<lparr>cf_session_id = op_session_id options, cf_watched_root = op_root options,
      cf_shadow_root = op_shadow options, cf_ignore = ignore_list (op_ignore options),
      cf_excluded_paths = excluded_paths options, cf_max_changes_per_event = op_max_changes options,
      cf_quiescence = op_quiescence_ms options, cf_max_delay = op_max_delay_ms options\<rparr>"

section \<open>The handle of the coordinator\<close>

definition send ::
  "('s, 't, 'j) ctx \<Rightarrow> command \<Rightarrow> ('s, 't, 'j) live \<Rightarrow> (reply \<times> ('s, 't, 'j) live) option" where
  "send cx c l =
     (case handle_command cx c (lv_core l) of None \<Rightarrow> None | Some (r, s) \<Rightarrow> Some (r, core_moved s l))"

definition handle_status :: "('s, 't, 'j) ctx \<Rightarrow> ('s, 't, 'j) live \<Rightarrow> (reply \<times> ('s, 't, 'j) live) option" where
  "handle_status cx l = send cx Status l"

definition handle_snap :: "('s, 't, 'j) ctx \<Rightarrow> ('s, 't, 'j) live \<Rightarrow> (reply \<times> ('s, 't, 'j) live) option" where
  "handle_snap cx l = send cx Snap l"

definition handle_mark ::
  "('s, 't, 'j) ctx \<Rightarrow> string \<Rightarrow> (string \<times> json_value) list \<Rightarrow> ('s, 't, 'j) live
     \<Rightarrow> (reply \<times> ('s, 't, 'j) live) option" where
  "handle_mark cx label meta l = send cx (Mark_cmd label meta) l"

definition handle_flush :: "('s, 't, 'j) ctx \<Rightarrow> ('s, 't, 'j) live \<Rightarrow> (reply \<times> ('s, 't, 'j) live) option" where
  "handle_flush cx l = send cx Flush_cmd l"

definition handle_pause :: "('s, 't, 'j) ctx \<Rightarrow> ('s, 't, 'j) live \<Rightarrow> (reply \<times> ('s, 't, 'j) live) option" where
  "handle_pause cx l = send cx Pause (l\<lparr>lv_paused := True, lv_paused_changed := True\<rparr>)"

definition handle_resume :: "('s, 't, 'j) ctx \<Rightarrow> ('s, 't, 'j) live \<Rightarrow> (reply \<times> ('s, 't, 'j) live) option" where
  "handle_resume cx l =
     (case send cx Resume l of
        None \<Rightarrow> None
      | Some (r, l) \<Rightarrow>
          (case r of
             R_flush (Inr status) \<Rightarrow> Some (r, l\<lparr>lv_paused := False, lv_paused_changed := True\<rparr>)
           | _ \<Rightarrow> Some (r, l)))"

section \<open>Control requests\<close>

datatype request =
    Req_status
  | Req_snap
  | Req_mark string "(string \<times> json_value) list"
  | Req_flush
  | Req_pause
  | Req_resume

datatype response_data = Data_status status | Data_snapshot snapshot | Data_empty

record response =
  rp_ok :: bool
  rp_data :: "response_data option"
  rp_error :: "string option"

fun reply_data :: "reply \<Rightarrow> core_error + response_data" where
  "reply_data (R_status status) = Inr (Data_status status)"
| "reply_data (R_snapshot r) = (case r of Inl e \<Rightarrow> Inl e | Inr snapshot \<Rightarrow> Inr (Data_snapshot snapshot))"
| "reply_data (R_unit r) = (case r of Inl e \<Rightarrow> Inl e | Inr _ \<Rightarrow> Inr Data_empty)"
| "reply_data (R_flush r) = (case r of Inl e \<Rightarrow> Inl e | Inr status \<Rightarrow> Inr (Data_status status))"

fun request_reply ::
  "('s, 't, 'j) ctx \<Rightarrow> request \<Rightarrow> ('s, 't, 'j) live \<Rightarrow> (reply \<times> ('s, 't, 'j) live) option" where
  "request_reply cx Req_status l = handle_status cx l"
| "request_reply cx Req_snap l = handle_snap cx l"
| "request_reply cx (Req_mark label meta) l = handle_mark cx label meta l"
| "request_reply cx Req_flush l = handle_flush cx l"
| "request_reply cx Req_pause l = handle_pause cx l"
| "request_reply cx Req_resume l = handle_resume cx l"

definition dispatch ::
  "('s, 't, 'j) ctx \<Rightarrow> request \<Rightarrow> ('s, 't, 'j) live
     \<Rightarrow> ((core_error + response_data) \<times> ('s, 't, 'j) live) option" where
  "dispatch cx request l = map_option (\<lambda>(r, l). (reply_data r, l)) (request_reply cx request l)"

text \<open>The response to one connection; \<open>show_error\<close> renders an error with its causes.\<close>

definition respond :: "(core_error \<Rightarrow> string) \<Rightarrow> core_error + response_data \<Rightarrow> response" where
  "respond show_error result =
     (case result of
        Inr data \<Rightarrow> \<lparr>rp_ok = True, rp_data = Some data, rp_error = None\<rparr>
      | Inl e \<Rightarrow> \<lparr>rp_ok = False, rp_data = None, rp_error = Some (show_error e)\<rparr>)"

definition handle_connection ::
  "('s, 't, 'j) ctx \<Rightarrow> (core_error \<Rightarrow> string) \<Rightarrow> (string \<Rightarrow> string + request) \<Rightarrow> string
     \<Rightarrow> ('s, 't, 'j) live \<Rightarrow> ((string + response) \<times> ('s, 't, 'j) live) option" where
  "handle_connection cx show_error from_str line l =
     (case from_str line of
        Inl m \<Rightarrow> Some (Inl m, l)
      | Inr request \<Rightarrow>
          (case dispatch cx request l of
             None \<Rightarrow> None
           | Some (result, l) \<Rightarrow> Some (Inr (respond show_error result), l)))"

text \<open>What the client prints (\<open>None\<close> is JSON null), or its error.\<close>

definition client_result :: "response \<Rightarrow> string + response_data option" where
  "client_result r =
     (if rp_ok r then Inr (rp_data r)
      else Inl (case rp_error r of Some m \<Rightarrow> m | None \<Rightarrow> ''request failed''))"

section \<open>The control socket\<close>

text \<open>\<open>ErrorKind::ConnectionRefused\<close> is ECONNREFUSED (Linux).\<close>

definition connection_refused :: "io_error \<Rightarrow> bool" where
  "connection_refused e \<longleftrightarrow> raw_os_error e = Some 111"

record 'w socket_env =
  se_is_socket :: "'w \<Rightarrow> io_error + bool"
  se_connect :: "('w, io_error, unit) op"
  se_remove :: "('w, io_error, unit) op"

definition remove_stale_socket ::
  "'w socket_env \<Rightarrow> (io_error \<Rightarrow> string) \<Rightarrow> string \<Rightarrow> ('w, string, unit) op" where
  "remove_stale_socket env disp path w =
     (case se_is_socket env w of
        Inl e \<Rightarrow> if io_not_found e then (Inr (), w) else (Inl (disp e), w)
      | Inr False \<Rightarrow> (Inl (path @ '' exists and is not a socket''), w)
      | Inr True \<Rightarrow>
          (case se_connect env w of
             (Inr _, w) \<Rightarrow> (Inl (''control socket '' @ path @ '' is active''), w)
           | (Inl e, w) \<Rightarrow>
               if connection_refused e \<or> io_not_found e then
                 (case se_remove env w of
                    (Inr _, w) \<Rightarrow> (Inr (), w)
                  | (Inl e, w) \<Rightarrow> if io_not_found e then (Inr (), w) else (Inl (disp e), w))
               else (Inl (''probe control socket '' @ path @ '': '' @ disp e), w)))"

section \<open>The HTTP surface\<close>

datatype cors_policy = Cors_exact string | Cors_any | Cors_none

definition cors_of :: "(string \<Rightarrow> string + string) \<Rightarrow> bool \<Rightarrow> string option \<Rightarrow> string + cors_policy" where
  "cors_of parse_origin loopback cors_origin =
     (case cors_origin of
        Some origin \<Rightarrow>
          (case parse_origin origin of Inl m \<Rightarrow> Inl m | Inr value \<Rightarrow> Inr (Cors_exact value))
      | None \<Rightarrow> Inr (if loopback then Cors_any else Cors_none))"

record sse_event =
  sv_event :: string
  sv_id :: "string option"
  sv_data :: string

definition sse_message :: "(event \<Rightarrow> string) \<Rightarrow> (string \<Rightarrow> string) \<Rightarrow> string + event \<Rightarrow> sse_event" where
  "sse_message to_string overflow_json message =
     (case message of
        Inr event \<Rightarrow> \<lparr>sv_event = ''event'', sv_id = Some (show_u64 (ev_seq event)), sv_data = to_string event\<rparr>
      | Inl error \<Rightarrow> \<lparr>sv_event = ''overflow'', sv_id = None, sv_data = overflow_json error\<rparr>)"
section \<open>Properties\<close>

text \<open>
  Validated options can be opened: when the options are accepted, the selection of the durable
  sink reaches no \<open>expect\<close> and no \<open>unreachable!\<close>, and the limits it hands to the HTTP sink and the
  delays it hands to the watcher are ones they accept.
\<close>

theorem validated_options_open:
  assumes "validate_options options = Inr (checkpoint, events)"
  shows "durable_sink_mode version ga ha options checkpoint events \<noteq> Mode_panic
    \<and> 0 < cf_quiescence (daemon_config options) \<and> 0 < cf_max_delay (daemon_config options)
    \<and> (\<forall>p n gc gp hc url hp. durable_sink_mode version ga ha options checkpoint events
          = Remote_mode p n gc gp hc url hp \<longrightarrow>
        0 < hc_max_events_per_batch hc \<and> 0 < hc_max_bytes_per_batch hc)"
proof -
  have limits: "check_limits options = Inr ()" and ok: "check_backends options checkpoint events = Inr ()"
    using assms by (auto simp: validate_options_def Let_def split: sum.splits)
  have pos: "0 < op_quiescence_ms options" "0 < op_max_delay_ms options"
    "0 < op_event_max_batch_events options" "0 < op_event_max_batch_bytes options"
    using limits by (auto simp: check_limits_def split: if_splits)
  from ok have "(\<exists>dir. checkpoint = Some Checkpoint_local \<and> events = Some Event_local \<and> op_session_dir options = Some dir)
    \<or> (\<exists>g h. checkpoint = Some Checkpoint_git \<and> events = Some Event_http
        \<and> op_git_remote_url options = Some g \<and> op_event_http_url options = Some h)
    \<or> checkpoint = None \<and> events = Some Event_none"
    by (auto simp: check_backends_def split: option.splits checkpoint_backend.splits event_backend.splits if_splits)
  then show ?thesis
    using pos by (auto simp: durable_sink_mode_def remote_mode_def daemon_config_def)
qed

definition demo_options :: daemon_options where
  "demo_options =
     \<lparr>op_root = ''/w'', op_shadow = ''/s/shadow'', op_events = ''/w/events.ndjson'', op_session_dir = None,
      op_socket = ''/tmp/rrjj.sock'', op_session_id = ''demo'', op_max_changes = 10,
      op_max_spool_bytes = 1000, op_quiescence_ms = 1500, op_max_delay_ms = 10000, op_ignore = [],
      op_checkpoint_backend = None, op_event_backend = None, op_git_remote_url = Some ''https://g'',
      op_git_ref_prefix = ''refs/rrjj/sessions'', op_event_http_url = Some ''https://h'',
      op_event_max_batch_events = 100, op_event_max_batch_bytes = 1048576, op_cors_origin = None\<rparr>"

lemma demo_validated: "validate_options demo_options = Inr (Some Checkpoint_git, Some Event_http)"
  by (simp add: validate_options_def check_limits_def resolved_checkpoint_def resolved_events_def
      check_backends_def demo_options_def)

theorem validated_options_open_witness:
  "durable_sink_mode ''0'' None None demo_options (Some Checkpoint_git) (Some Event_http) \<noteq> Mode_panic
    \<and> 0 < cf_quiescence (daemon_config demo_options)"
  using validated_options_open [OF demo_validated, of "''0''" None None] by blast

lemmas handle_defs = handle_status_def handle_snap_def handle_mark_def handle_flush_def

lemma send_step:
  assumes "send cx c l = Some (r, l')" and "c \<noteq> Resume" and "\<forall>reason. c \<noteq> Shutdown reason"
  shows "client_step cx l l'"
proof -
  from assms(1) obtain s where "handle_command cx c (lv_core l) = Some (r, s)" "l' = core_moved s l"
    by (auto simp: send_def split: option.splits)
  then show ?thesis using command [OF assms(2,3)] by simp
qed

lemma live_client: "client_step cx l l' \<Longrightarrow> live_steps cx l l'"
  by (rule r_into_rtranclp) (simp add: live_step_def)

lemma resume_steps:
  assumes "handle_resume cx l = Some (r, l')"
  shows "live_steps cx l l'"
proof -
  from assms obtain r0 s where s: "handle_command cx Resume (lv_core l) = Some (r0, s)"
    by (auto simp: handle_resume_def send_def split: option.splits)
  note step = live_client [OF resume [OF s]]
  show ?thesis
  proof (cases "\<exists>status. r0 = R_flush (Inr status)")
    case True
    then obtain status where st: "r0 = R_flush (Inr status)" by blast
    let ?m = "core_moved s l"
    have "client_step cx (?m\<lparr>lv_resumed := lv_resumed l + 1\<rparr>)
        (?m\<lparr>lv_resumed := lv_resumed l + 1, lv_paused := False, lv_paused_changed := True, lv_resumed := lv_resumed l\<rparr>)"
      by (rule resume_flag) simp
    moreover have "?m\<lparr>lv_resumed := lv_resumed l + 1, lv_paused := False, lv_paused_changed := True, lv_resumed := lv_resumed l\<rparr>
        = ?m\<lparr>lv_paused := False, lv_paused_changed := True\<rparr>"
      by (simp add: core_moved_def)
    moreover have "l' = ?m\<lparr>lv_paused := False, lv_paused_changed := True\<rparr>"
      using assms s st by (simp add: handle_resume_def send_def)
    moreover have "live_steps cx l (?m\<lparr>lv_resumed := lv_resumed l + 1\<rparr>)"
      using step st by (simp add: resume_replied_def)
    ultimately show ?thesis using live_client rtranclp_trans by metis
  next
    case False
    then have "l' = core_moved s l" "resume_replied r0 (core_moved s l) = core_moved s l"
      using assms s by (auto simp: handle_resume_def send_def resume_replied_def split: reply.splits sum.splits)
    then show ?thesis using step by simp
  qed
qed

lemma request_reply_steps:
  assumes "request_reply cx request l = Some (r, l')"
  shows "live_steps cx l l'"
proof (cases request)
  case Req_pause
  then have "client_step cx (l\<lparr>lv_paused := True, lv_paused_changed := True\<rparr>) l'"
    using assms by (auto simp: handle_pause_def intro: send_step)
  then show ?thesis using live_client [OF pause_flag] live_client rtranclp_trans by metis
next
  case Req_resume
  then show ?thesis using assms resume_steps by simp
qed (use assms in \<open>auto intro!: live_client send_step simp: handle_defs\<close>)

lemma request_reply_total:
  assumes "coord_ok (lv_core l)"
  shows "\<exists>y. request_reply cx request l = Some y"
proof -
  have t: "\<exists>y. send cx c l' = Some y" if "lv_core l' = lv_core l" for c l'
    using handle_command_total [OF assms, of cx c] that by (auto simp: send_def)
  show ?thesis
  proof (cases request)
    case Req_resume
    from t [of l Resume] obtain r l1 where "send cx Resume l = Some (r, l1)" by auto
    then show ?thesis using Req_resume by (auto simp: handle_resume_def split: reply.splits sum.splits)
  qed (use t in \<open>simp_all add: handle_pause_def handle_defs\<close>)
qed

text \<open>
  Control requests are steps of the live session: whatever a client asks through the socket,
  the answer is given after a sequence of the client steps of the session's step relation, in
  which pausing sets the watcher's flag before the coordinator pauses and resuming clears it
  only after the coordinator has resumed; what holds of all reachable live sessions therefore
  holds between any requests. A request never hangs.
\<close>

theorem requests_are_live_steps:
  assumes "audit_ok (aa_state acc)" and "initialize cx config sink acc arrivals w = Inr s0"
    and "live_steps cx (live_start now s0) l"
  shows "\<exists>result l'. dispatch cx request l = Some (result, l')
    \<and> live_steps cx (live_start now s0) l'"
proof -
  obtain baseline where b: "reachable cx s0 [start_event cx config baseline]"
    by (rule initialize_reachable [OF assms(1,2)])
  have "coord_ok (lv_core l)"
    using live_steps_timer [OF assms(3) reachable_inv(1) [OF b]] by simp
  then obtain r l' where r: "request_reply cx request l = Some (r, l')"
    using request_reply_total by (metis surj_pair)
  then have "live_steps cx (live_start now s0) l'"
    using assms(3) request_reply_steps rtranclp_trans by metis
  then show ?thesis using r by (auto simp: dispatch_def)
qed

theorem requests_are_live_steps_witness:
  "\<exists>result l'. dispatch demo_cx Req_flush demo_armed = Some (result, l')
    \<and> live_steps demo_cx (live_start 0 (demo_start [])) l'"
  by (rule requests_are_live_steps [OF demo_accumulator demo_init demo_armed_steps])

text \<open>
  A control socket in use is not removed: the file is removed only when it is a socket nobody
  answers on, and the start goes on only if there was none or it is gone.
\<close>

theorem active_socket_kept:
  assumes "remove_stale_socket env disp path w = (r, w')"
  shows "(w' = w
      \<or> se_is_socket env w = Inr True \<and> w' = snd (se_connect env w)
      \<or> se_is_socket env w = Inr True \<and> (\<exists>e w1. se_connect env w = (Inl e, w1)
          \<and> (connection_refused e \<or> io_not_found e) \<and> w' = snd (se_remove env w1)))
    \<and> (r = Inr () \<longrightarrow>
        (\<exists>e. se_is_socket env w = Inl e \<and> io_not_found e)
        \<or> (\<exists>e w1 x. se_is_socket env w = Inr True \<and> se_connect env w = (Inl e, w1)
             \<and> (connection_refused e \<or> io_not_found e)
             \<and> fst (se_remove env w1) = x \<and> (x = Inr () \<or> (\<exists>y. x = Inl y \<and> io_not_found y))))"
  using assms
  by (auto simp: remove_stale_socket_def split: sum.splits bool.splits prod.splits if_splits)

definition stale_env :: "bool socket_env" where
  "stale_env = \<lparr>se_is_socket = (\<lambda>w. if w then Inr True else Inl (Os_error 2)),
     se_connect = (\<lambda>w. (Inl (Os_error 111), w)), se_remove = (\<lambda>w. (Inr (), False))\<rparr>"

theorem active_socket_kept_witness:
  "remove_stale_socket stale_env (\<lambda>e. []) ''/s'' True = (Inr (), False)
    \<and> (\<exists>e w1. se_connect stale_env True = (Inl e, w1) \<and> (connection_refused e \<or> io_not_found e))"
proof -
  have r: "remove_stale_socket stale_env (\<lambda>e. []) ''/s'' True = (Inr (), False)"
    by (simp add: remove_stale_socket_def stale_env_def connection_refused_def)
  moreover have "se_is_socket stale_env True = Inr True" by (simp add: stale_env_def)
  ultimately show ?thesis using active_socket_kept [OF r] by auto
qed

text \<open>
  The cursors of a remote session are watched: they are written beside the events file, which
  is excluded by its own name only, so that when the events file lies under the watched root,
  every flush leaves notifications of the recorder's own files in the accumulator.
\<close>

theorem cursor_files_observed:
  assumes "start_watcher env disp globs watch (daemon_config options) = Inr ws"
    and "op_events options = text" and "parse_path text = Absolute (ws_root ws @ dir @ [stem @ ''.ndjson''])"
    and "stem \<noteq> []" and "CHR ''.'' \<notin> set stem" and "op_session_dir options = None"
    and "cursor = dir @ [stem @ ''.http-cursor.json'']"
    and "\<not> ws_ignores ws cursor"
    and "\<forall>c \<in> set cursor. \<forall>i \<in> set (cf_ignore (daemon_config options)). c \<noteq> trim_both (CHR ''/'') i"
    and "\<forall>p \<in> {op_shadow options, op_socket options}. \<forall>base.
           absolute (rt_current_dir env) (parse_path p) = Inr base \<longrightarrow> \<not> path_starts_with (ws_root ws @ cursor) base"
  shows "with_extension (parse_path text) ''http-cursor.json'' = Absolute (ws_root ws @ cursor)
    \<and> watched_path ws (Absolute (ws_root ws @ cursor)) \<noteq> None"
proof -
  have ws: "ws_excluded ws = excluded_components env (excluded_paths options)"
    "ws_literal_ignores ws = cf_ignore (daemon_config options)"
    using assms(1) by (auto simp: start_watcher_def daemon_config_def split: if_splits sum.splits)
  have dots: "dropWhile (\<lambda>c. c \<noteq> CHR ''.'') (rev (stem @ ''.ndjson'')) = CHR ''.'' # rev stem" by simp
  have name: "stem @ ''.ndjson'' \<noteq> ''..''" "stem @ ''.ndjson'' \<noteq> ''.''"
    using assms(4) by (auto simp: append_eq_Cons_conv)
  have ext: "with_extension (parse_path text) ''http-cursor.json'' = Absolute (ws_root ws @ cursor)"
    using name assms(4,7) dots
    by (simp add: assms(3) with_extension_def file_name_def map_last_def file_stem_def butlast_append)
  have "\<not> path_starts_with (ws_root ws @ cursor) base" if "base \<in> set (ws_excluded ws)" for base
  proof -
    from that obtain p where p: "p \<in> set (excluded_paths options)"
      "absolute (rt_current_dir env) (parse_path p) = Inr base"
      unfolding ws excluded_components_def map_filter_def by (auto split: sum.splits)
    from p(1) assms(6) consider "p = op_shadow options \<or> p = op_socket options" | "p = text"
      using assms(2) by (auto simp: excluded_paths_def)
    then show ?thesis
    proof cases
      case 1
      then show ?thesis using assms(10) p(2) by auto
    next
      case 2
      then have "base = ws_root ws @ dir @ [stem @ ''.ndjson'']" using p(2) assms(3) by (simp add: absolute_def)
      then show ?thesis using assms(7) by (auto simp: path_starts_with_iff)
    qed
  qed
  then have "\<not> list_ex (path_starts_with (ws_root ws @ cursor)) (ws_excluded ws)" by (auto simp: list_ex_iff)
  moreover have "\<not> list_ex (\<lambda>c. list_ex (\<lambda>i. c = trim_both (CHR ''/'') i) (ws_literal_ignores ws)) cursor"
    using assms(9) ws by (auto simp: list_ex_iff)
  moreover have "cursor \<noteq> []" using assms(7) by simp
  ultimately have "watched_path ws (Absolute (ws_root ws @ cursor)) \<noteq> None"
    using assms(8) by (simp add: watched_path_def watcher_path_def absolute_def path_strip_prefix_def)
  then show ?thesis using ext by blast
qed

definition demo_daemon_setup :: watch_setup where
  "demo_daemon_setup = projr (start_watcher demo_roots (\<lambda>e. []) demo_globs (\<lambda>p. Inr ()) (daemon_config demo_options))"

lemma demo_daemon_started:
  "start_watcher demo_roots (\<lambda>e. []) demo_globs (\<lambda>p. Inr ()) (daemon_config demo_options) = Inr demo_daemon_setup"
proof -
  have "(case start_watcher demo_roots (\<lambda>e. []) demo_globs (\<lambda>p. Inr ()) (daemon_config demo_options) of
      Inr ws \<Rightarrow> True | Inl e \<Rightarrow> False)"
    by code_simp
  then show ?thesis by (auto simp: demo_daemon_setup_def split: sum.splits)
qed

lemma demo_daemon_facts:
  "ws_root demo_daemon_setup = [''w'']"
  "parse_path ''/w/events.ndjson'' = Absolute [''w'', ''events.ndjson'']"
  "\<not> ws_ignores demo_daemon_setup [''events.http-cursor.json'']"
  "cf_ignore (daemon_config demo_options) = [''.git'', ''.jj'']"
  "absolute (rt_current_dir demo_roots) (parse_path ''/s/shadow'') = Inr [''s'', ''shadow'']"
  "absolute (rt_current_dir demo_roots) (parse_path ''/tmp/rrjj.sock'') = Inr [''tmp'', ''rrjj.sock'']"
  by code_simp+

theorem cursor_files_observed_witness:
  "with_extension (parse_path ''/w/events.ndjson'') ''http-cursor.json'' = Absolute [''w'', ''events.http-cursor.json'']
    \<and> watched_path demo_daemon_setup (Absolute [''w'', ''events.http-cursor.json'']) \<noteq> None"
proof -
  note f = demo_daemon_facts
  have "with_extension (parse_path ''/w/events.ndjson'') ''http-cursor.json''
      = Absolute (ws_root demo_daemon_setup @ [''events.http-cursor.json''])
    \<and> watched_path demo_daemon_setup (Absolute (ws_root demo_daemon_setup @ [''events.http-cursor.json''])) \<noteq> None"
    by (rule cursor_files_observed [where dir = "[]" and stem = "''events''", OF demo_daemon_started])
      (use f in \<open>simp_all add: demo_options_def trim_both_def trim_start_def trim_end_def path_starts_with_def\<close>)
  then show ?thesis using f by simp
qed

end
