(* ===== verification/Broadcast_Sink.thy ===== *)
theory Broadcast_Sink
  imports Journal
begin

text \<open>
  \<open>BroadcastSink\<close> (\<open>crates/rrjj-sinks/src/broadcast.rs\<close>): a sink that hands every event to a
  durable sink first and sends it to the live subscribers only after that succeeded. The
  channel is the list of the events sent; that nobody receives them is no error.
\<close>

record 'd broadcast_sink =
  bs_durable :: 'd
  bs_sent :: "event list"

definition broadcast_emit ::
  "'d sink_ops \<Rightarrow> event \<Rightarrow> ('d broadcast_sink, sink_error, unit) op" where
  "broadcast_emit ops event s =
     (case so_emit ops event (bs_durable s) of
        (Inl e, d) \<Rightarrow> (Inl e, s\<lparr>bs_durable := d\<rparr>)
      | (Inr _, d) \<Rightarrow> (Inr (), s\<lparr>bs_durable := d, bs_sent := bs_sent s @ [event]\<rparr>))"

definition lift_durable ::
  "('d, sink_error, unit) op \<Rightarrow> ('d broadcast_sink, sink_error, unit) op" where
  "lift_durable m s = (case m (bs_durable s) of (r, d) \<Rightarrow> (r, s\<lparr>bs_durable := d\<rparr>))"

definition broadcast_ops :: "'d sink_ops \<Rightarrow> 'd broadcast_sink sink_ops" where
  "broadcast_ops ops =
     \<lparr>so_emit = broadcast_emit ops, so_flush = lift_durable (so_flush ops),
      so_flush_session = (\<lambda>request. lift_durable (so_flush_session ops request))\<rparr>"

text \<open>\<open>BroadcastSink::new\<close>: the channel's capacity is at least one.\<close>

definition broadcast_new :: "'d \<Rightarrow> nat \<Rightarrow> 'd broadcast_sink \<times> nat" where
  "broadcast_new durable capacity = (\<lparr>bs_durable = durable, bs_sent = []\<rparr>, max capacity 1)"

context sink_contract
begin

text \<open>Broadcasting keeps the contract, and what was sent is what was accepted.\<close>

lemma broadcast_contract:
  "sink_contract (broadcast_ops ops) (\<lambda>s es. accepted (bs_durable s) es \<and> bs_sent s = es)"
proof
  fix s es e u t
  assume "accepted (bs_durable s) es \<and> bs_sent s = es" "so_emit (broadcast_ops ops) e s = (Inr u, t)"
  then show "accepted (bs_durable t) (es @ [e]) \<and> bs_sent t = es @ [e]"
    by (auto simp: broadcast_ops_def broadcast_emit_def intro: emit_ok split: prod.splits sum.splits)
next
  fix s es e x t
  assume "accepted (bs_durable s) es \<and> bs_sent s = es" "so_emit (broadcast_ops ops) e s = (Inl x, t)"
  then show "accepted (bs_durable t) es \<and> bs_sent t = es"
    by (auto simp: broadcast_ops_def broadcast_emit_def intro: emit_err split: prod.splits sum.splits)
next
  fix s es r t
  assume "accepted (bs_durable s) es \<and> bs_sent s = es" "so_flush (broadcast_ops ops) s = (r, t)"
  then show "accepted (bs_durable t) es \<and> bs_sent t = es"
    by (auto simp: broadcast_ops_def lift_durable_def intro: flush_keeps split: prod.splits)
next
  fix s es fr r t
  assume "accepted (bs_durable s) es \<and> bs_sent s = es" "so_flush_session (broadcast_ops ops) fr s = (r, t)"
  then show "accepted (bs_durable t) es \<and> bs_sent t = es"
    by (auto simp: broadcast_ops_def lift_durable_def intro: flush_session_keeps split: prod.splits)
qed

end

interpretation live_journal: sink_contract "broadcast_ops (journal_ops to_vec)"
    "\<lambda>s es. nj_accepted (bs_durable s) = es \<and> bs_sent s = es" for to_vec
  by (rule journal.broadcast_contract)

text \<open>
  Live subscribers see exactly the durable stream: whatever is emitted, flushed or refused,
  the events sent on the broadcast channel are, in order, the events the journal has accepted;
  none is announced that the journal refused.
\<close>

theorem broadcast_is_accepted_stream:
  assumes "nj_accepted (bs_durable s) = bs_sent s"
    and "so_emit (broadcast_ops (journal_ops to_vec)) e s = (r, s')"
  shows "nj_accepted (bs_durable s') = bs_sent s'
    \<and> bs_sent s' = bs_sent s @ (if r = Inr () then [e] else [])"
proof (cases r)
  case (Inl x)
  then show ?thesis using live_journal.emit_err [of s "bs_sent s" to_vec e x s'] assms by simp
next
  case (Inr u)
  then show ?thesis using live_journal.emit_ok [of s "bs_sent s" to_vec e u s'] assms by simp
qed

theorem broadcast_is_accepted_stream_witness:
  "\<exists>s e s'. so_emit (broadcast_ops (journal_ops (\<lambda>e. Inl ''bad''))) e s = (Inl (Serialize ''bad''), s')
     \<and> bs_sent s' = bs_sent s"
proof -
  let ?e = "event_at ''s'' 0 ''t'' (Mark \<lparr>mk_label = ''l'', mk_meta = [], mk_ref_op = ''o''\<rparr>)"
  let ?s = "\<lparr>bs_durable = \<lparr>nj_path = ''p'', nj_writer = \<lparr>wr_file = [], wr_buf = [], wr_faults = []\<rparr>,
      nj_bytes = 0, nj_max_spool_bytes = 10, nj_session_id = None, nj_schema_version = None,
      nj_accepted = []\<rparr>, bs_sent = []\<rparr>"
  have "so_emit (broadcast_ops (journal_ops (\<lambda>e. Inl ''bad''))) ?e ?s = (Inl (Serialize ''bad''), ?s)"
    by (simp add: broadcast_ops_def broadcast_emit_def journal_ops_def nj_emit_def journal_refusal_def
        schema_refusal_def next_seq_def)
  from broadcast_is_accepted_stream [OF _ this] this show ?thesis by fastforce
qed

end
