(* ===== verification/Repository_Sync.thy ===== *)
theory Repository_Sync
  imports Sink_Util
begin

text \<open>
  The incremental copy of the shadow repository into a session directory
  (\<open>crates/rrjj-sinks/src/local.rs\<close>): \<open>sync_repository_tree\<close>, \<open>sync_repository_file\<close> and the
  classification of immutable files.

  The source is a tree of the four kinds of directory entries the code tells apart; the
  destination is a tree of directories and regular files, all that this code creates. Each call
  of the file system consumes one entry of a fault script, as the buffered writer's calls do;
  a failing copy leaves a part of the contents in the temporary file. The bytes of a hard link
  are those of its source. Renames are atomic.
\<close>

section \<open>Immutable files\<close>

definition is_hex :: "string \<Rightarrow> bool" where
  "is_hex value \<longleftrightarrow> value \<noteq> [] \<and> list_all is_ascii_hexdigit value"

text \<open>\<open>str::rsplit_once\<close>.\<close>

fun split_once :: "char \<Rightarrow> string \<Rightarrow> (string \<times> string) option" where
  "split_once c [] = None"
| "split_once c (x # xs) =
     (if x = c then Some ([], xs)
      else map_option (\<lambda>(a, b). (x # a, b)) (split_once c xs))"

definition rsplit_once :: "char \<Rightarrow> string \<Rightarrow> (string \<times> string) option" where
  "rsplit_once c s = map_option (\<lambda>(a, b). (rev b, rev a)) (split_once c (rev s))"

definition is_immutable_git_pack_file :: "string \<Rightarrow> bool" where
  "is_immutable_git_pack_file name \<longleftrightarrow>
     (case rsplit_once (CHR ''.'') name of
        None \<Rightarrow> False
      | Some (stem, extension) \<Rightarrow>
          (case strip_prefix stem ''pack-'' of
             None \<Rightarrow> False
           | Some hash \<Rightarrow>
               (length hash = 40 \<or> length hash = 64) \<and> is_hex hash
               \<and> extension \<in> set [''pack'', ''idx'', ''rev'', ''bitmap'', ''promisor'', ''mtimes'']))"

fun is_immutable_repository_file :: "string list \<Rightarrow> bool" where
  "is_immutable_repository_file [a, kind, name] \<longleftrightarrow>
     (a = ''op_store'' \<and> (kind = ''operations'' \<or> kind = ''views'') \<and> is_hex name)
     \<or> (a = ''index'' \<and> (kind = ''segments'' \<or> kind = ''changed_paths'') \<and> is_hex name)"
| "is_immutable_repository_file [a, b, c, d, name] \<longleftrightarrow>
     (a = ''store'' \<and> b = ''git'' \<and> c = ''objects'' \<and> length d = 2
        \<and> (length name = 38 \<or> length name = 62) \<and> is_hex d \<and> is_hex name)
     \<or> (a = ''store'' \<and> b = ''git'' \<and> c = ''objects'' \<and> d = ''pack''
        \<and> is_immutable_git_pack_file name)"
| "is_immutable_repository_file _ \<longleftrightarrow> False"

section \<open>Trees, faults and statistics\<close>

datatype source_node = Reg bytes | Link | Special | Dir "(string \<times> source_node) list"

datatype dest_node = DReg bytes | DDir "(string \<times> dest_node) list"

type_synonym dest_entries = "(string \<times> dest_node) list"

record directory_sync_stats =
  files_linked :: u64
  files_copied :: u64
  files_replaced :: u64
  files_reused :: u64
  files_removed :: u64
  bytes_copied :: u64

definition sync_stats_default :: directory_sync_stats where
  "sync_stats_default =
     \<lparr>files_linked = 0, files_copied = 0, files_replaced = 0, files_reused = 0, files_removed = 0,
      bytes_copied = 0\<rparr>"

record sync_state =
  sy_stats :: directory_sync_stats
  sy_dirty :: "string list list"
  sy_faults :: "io_fault list"

definition sync_fault :: "sync_state \<Rightarrow> io_fault \<times> sync_state" where
  "sync_fault s = (case sy_faults s of [] \<Rightarrow> (None, s) | f # fs \<Rightarrow> (f, s\<lparr>sy_faults := fs\<rparr>))"

text \<open>An operation on the entries of one directory.\<close>

type_synonym 'a dir_op = "dest_entries \<times> sync_state \<Rightarrow> (io_error + 'a) \<times> dest_entries \<times> sync_state"

text \<open>One call of the file system: what it changes when it succeeds, and when it fails.\<close>

definition fs_call :: "(dest_entries \<Rightarrow> dest_entries) \<Rightarrow> (nat \<Rightarrow> dest_entries \<Rightarrow> dest_entries) \<Rightarrow> unit dir_op" where
  "fs_call change partial_change ds =
     (case sync_fault (snd ds) of
        (None, s) \<Rightarrow> (Inr (), change (fst ds), s)
      | (Some (e, n), s) \<Rightarrow> (Inl e, partial_change n (fst ds), s))"

definition on_stats :: "(directory_sync_stats \<Rightarrow> directory_sync_stats) \<Rightarrow> unit dir_op" where
  "on_stats f ds = (Inr (), fst ds, (snd ds)\<lparr>sy_stats := f (sy_stats (snd ds))\<rparr>)"

definition mark_dirty :: "string list \<Rightarrow> unit dir_op" where
  "mark_dirty path ds = (Inr (), fst ds, (snd ds)\<lparr>sy_dirty := bs_insert path (sy_dirty (snd ds))\<rparr>)"

section \<open>Files\<close>

text \<open>\<open>remove_temporary\<close>, \<open>fs::copy\<close> to the temporary file, and \<open>sync_all\<close> of it.\<close>

definition remove_temporary :: "string \<Rightarrow> unit dir_op" where
  "remove_temporary name ds =
     (case map_of (fst ds) (temporary_path name) of
        Some (DDir _) \<Rightarrow> (Inl (Os_error 21), ds)
      | None \<Rightarrow> (Inr (), ds)
      | Some (DReg _) \<Rightarrow>
          (case fs_call (drop_entry (temporary_path name)) (\<lambda>n d. d) ds of
             (Inl e, ds) \<Rightarrow> (if io_not_found e then Inr () else Inl e, ds)
           | (Inr _, ds) \<Rightarrow> (Inr (), ds)))"

definition copy_to_temporary :: "bytes \<Rightarrow> string \<Rightarrow> unit dir_op" where
  "copy_to_temporary contents name =
     bindE (fs_call (put_entry (temporary_path name) (DReg contents))
              (\<lambda>n. put_entry (temporary_path name) (DReg (take n contents))))
       (\<lambda>_. fs_call (\<lambda>d. d) (\<lambda>n d. d))"

definition rename_temporary :: "bytes \<Rightarrow> string \<Rightarrow> unit dir_op" where
  "rename_temporary contents name =
     fs_call (\<lambda>d. put_entry name (DReg contents) (drop_entry (temporary_path name) d)) (\<lambda>n d. d)"

definition copy_file_atomic :: "bytes \<Rightarrow> string \<Rightarrow> u64 dir_op" where
  "copy_file_atomic contents name =
     bindE (remove_temporary name) (\<lambda>_.
     bindE (copy_to_temporary contents name) (\<lambda>_.
     bindE (rename_temporary contents name) (\<lambda>_ ds.
       (Inr (word_of_nat (length contents)), ds))))"

text \<open>\<open>fs::hard_link\<close>, whose failure makes the code copy.\<close>

definition link_or_copy :: "bytes \<Rightarrow> string \<Rightarrow> unit dir_op" where
  "link_or_copy contents name ds =
     (case fs_call (put_entry (temporary_path name) (DReg contents)) (\<lambda>n d. d) ds of
        (Inr _, ds) \<Rightarrow> on_stats (\<lambda>st. st\<lparr>files_linked := files_linked st + 1\<rparr>) ds
      | (Inl _, ds) \<Rightarrow>
          bindE (copy_to_temporary contents name)
            (\<lambda>_. on_stats (\<lambda>st. st\<lparr>files_copied := files_copied st + 1,
                    bytes_copied := bytes_copied st + word_of_nat (length contents)\<rparr>)) ds)"

text \<open>
  \<open>files_equal\<close>: the lengths, then the contents in chunks of 8192 bytes. A read of a regular file
  fills the buffer or reaches the end. The destination of a directory cannot be read (EISDIR).
\<close>

definition CHUNK :: nat where
  "CHUNK = 8192"

lemma CHUNK_pos [simp]: "0 < CHUNK" "CHUNK \<noteq> 0"
  by (simp_all add: CHUNK_def)

function compare_chunks :: "bytes \<Rightarrow> bytes \<Rightarrow> bool" where
  "compare_chunks left right =
     (let left_read = take CHUNK left; right_read = take CHUNK right in
      if length left_read \<noteq> length right_read \<or> left_read \<noteq> right_read then False
      else if length left_read = 0 then True
      else compare_chunks (drop CHUNK left) (drop CHUNK right))"
  by pat_completeness auto

termination
proof (relation "measure (\<lambda>(left, right). length left)")
  fix left right :: bytes and lr rr
  assume "lr = take CHUNK left" "\<not> (length lr \<noteq> length rr \<or> lr \<noteq> rr)" "length lr \<noteq> 0"
  then have "left \<noteq> []" by auto
  then show "((drop CHUNK left, drop CHUNK right), left, right) \<in> measure (\<lambda>(left, right). length left)"
    by simp
qed simp

declare compare_chunks.simps [simp del]

definition contents_equal :: "bytes \<Rightarrow> bytes \<Rightarrow> bool" where
  "contents_equal left right \<longleftrightarrow>
     (if length left \<noteq> length right then False else compare_chunks left right)"

definition files_equal :: "bytes \<Rightarrow> dest_node \<Rightarrow> bool dir_op" where
  "files_equal contents node =
     bindE (fs_call (\<lambda>d. d) (\<lambda>n d. d))
       (\<lambda>_ ds. case node of
          DReg c \<Rightarrow> (Inr (contents_equal contents c), ds)
        | DDir _ \<Rightarrow> (Inl (Os_error 21), ds))"

lemma compare_chunks_eq: "compare_chunks left right \<longleftrightarrow> left = right"
proof (induction left right rule: compare_chunks.induct)
  case (1 left right)
  show ?case
  proof (cases "take CHUNK left = take CHUNK right \<and> take CHUNK left \<noteq> []")
    case True
    then have "compare_chunks left right \<longleftrightarrow> drop CHUNK left = drop CHUNK right"
      using 1 True by (subst compare_chunks.simps) (auto simp: Let_def min_def split: if_splits)
    also have "\<dots> \<longleftrightarrow> left = right"
      using True by (metis append_take_drop_id)
    finally show ?thesis .
  next
    case False
    then show ?thesis
      using take_eq_Nil [of CHUNK left] take_eq_Nil [of CHUNK right]
      by (subst compare_chunks.simps) (auto simp: Let_def)
  qed
qed

text \<open>
  The chunked comparison decides equality: \<open>files_equal\<close> reports two files equal exactly when
  they hold the same bytes, for every length, multiples of the buffer size and empty files
  included.
\<close>

theorem contents_equal_iff: "contents_equal left right \<longleftrightarrow> left = right"
  by (auto simp: contents_equal_def compare_chunks_eq)

lemma contents_equal_eq [simp]: "contents_equal left right \<longleftrightarrow> left = right"
  by (auto simp: contents_equal_def compare_chunks_eq)

definition count_reused :: "unit dir_op" where
  "count_reused = on_stats (\<lambda>st. st\<lparr>files_reused := files_reused st + 1\<rparr>)"

definition replace_file :: "string list \<Rightarrow> string \<Rightarrow> bytes \<Rightarrow> bool \<Rightarrow> unit dir_op" where
  "replace_file directory name contents replacing =
     bindE (copy_file_atomic contents name) (\<lambda>bytes.
     bindE (on_stats (\<lambda>st. let st = st\<lparr>bytes_copied := bytes_copied st + bytes\<rparr> in
              if replacing then st\<lparr>files_replaced := files_replaced st + 1\<rparr>
              else st\<lparr>files_copied := files_copied st + 1\<rparr>))
       (\<lambda>_. mark_dirty directory))"

definition sync_repository_file ::
  "string list \<Rightarrow> string list \<Rightarrow> string \<Rightarrow> bytes \<Rightarrow> unit dir_op" where
  "sync_repository_file root relative name contents ds =
     (let existing = map_of (fst ds) name in
      if is_immutable_repository_file (relative @ [name]) then
        (if existing \<noteq> None then count_reused ds
         else
           bindE (remove_temporary name) (\<lambda>_.
           bindE (link_or_copy contents name) (\<lambda>_.
           bindE (rename_temporary contents name) (\<lambda>_.
             mark_dirty (root @ relative)))) ds)
      else
        (case existing of
           None \<Rightarrow> replace_file (root @ relative) name contents False ds
         | Some node \<Rightarrow>
             bindE (files_equal contents node) (\<lambda>same.
               if same then count_reused
               else replace_file (root @ relative) name contents True) ds))"

section \<open>Trees\<close>

text \<open>The second loop of \<open>sync_repository_tree\<close>, over the entries it lists.\<close>

fun prune ::
  "string list \<Rightarrow> string list \<Rightarrow> string list \<Rightarrow> string list \<Rightarrow> unit dir_op" where
  "prune root relative source_names [] ds = (Inr (), ds)"
| "prune root relative source_names (name # listed) ds =
     (if name \<in> set source_names then prune root relative source_names listed ds
      else
        (case map_of (fst ds) name of
           Some (DReg _) \<Rightarrow>
             if is_immutable_repository_file (relative @ [name]) then
               prune root relative source_names listed ds
             else
               (case fs_call (drop_entry name) (\<lambda>n d. d) ds of
                  (Inl e, ds) \<Rightarrow> (Inl e, ds)
                | (Inr _, ds) \<Rightarrow>
                    bindE (on_stats (\<lambda>st. st\<lparr>files_removed := files_removed st + 1\<rparr>)) (\<lambda>_.
                    bindE (mark_dirty (root @ relative)) (\<lambda>_.
                      prune root relative source_names listed)) ds)
         | _ \<Rightarrow> prune root relative source_names listed ds))"

definition read_dir :: "unit dir_op" where
  "read_dir = fs_call (\<lambda>d. d) (\<lambda>n d. d)"

definition prune_directory :: "string list \<Rightarrow> string list \<Rightarrow> string list \<Rightarrow> unit dir_op" where
  "prune_directory root relative source_names =
     bindE read_dir (\<lambda>_ ds. prune root relative source_names (map fst (fst ds)) ds)"

text \<open>Creating a missing directory.\<close>

definition mark_directory_changed :: "string list \<Rightarrow> unit dir_op" where
  "mark_directory_changed path =
     bindE (mark_dirty path) (\<lambda>_. if path = [] then (\<lambda>ds. (Inr (), ds)) else mark_dirty (butlast path))"

definition create_directory :: "string list \<Rightarrow> unit dir_op" where
  "create_directory path =
     bindE (fs_call (\<lambda>d. d) (\<lambda>n d. d)) (\<lambda>_. mark_directory_changed path)"

text \<open>
  The entries of one source directory, with the recursion of the code into a subdirectory
  inlined: create it if it is missing, sync its entries, list it and prune it. Where the
  destination has a file in place of the directory, the code fails with ENOTDIR.
\<close>

fun sync_entries ::
  "string list \<Rightarrow> string list \<Rightarrow> (string \<times> source_node) list \<Rightarrow> unit dir_op" where
  "sync_entries root relative [] ds = (Inr (), ds)"
| "sync_entries root relative ((name, Reg contents) # es) ds =
     (case sync_repository_file root relative name contents ds of
        (Inl e, ds) \<Rightarrow> (Inl e, ds)
      | (Inr _, ds) \<Rightarrow> sync_entries root relative es ds)"
| "sync_entries root relative ((name, Dir sub) # es) ds =
     (case map_of (fst ds) name of
        Some (DReg _) \<Rightarrow> (Inl (Os_error 20), ds)
      | existing \<Rightarrow>
          (let inner = (case existing of Some (DDir d) \<Rightarrow> d | _ \<Rightarrow> []);
               created = bindE (if existing = None then create_directory (root @ relative @ [name])
                                else (\<lambda>ds. (Inr (), ds))) (\<lambda>_. read_dir) ds in
           case created of
             (Inl e, ds) \<Rightarrow> (Inl e, ds)
           | (Inr _, ds) \<Rightarrow>
               (case sync_entries root (relative @ [name]) sub (inner, snd ds) of
                  (Inl e, d, s) \<Rightarrow> (Inl e, put_entry name (DDir d) (fst ds), s)
                | (Inr _, d, s) \<Rightarrow>
                    (case prune_directory root (relative @ [name]) (map fst sub) (d, s) of
                       (Inl e, d, s) \<Rightarrow> (Inl e, put_entry name (DDir d) (fst ds), s)
                     | (Inr _, d, s) \<Rightarrow>
                         sync_entries root relative es (put_entry name (DDir d) (fst ds), s)))))"
| "sync_entries root relative ((name, Link) # es) ds =
     (Inl (Custom_io (''refusing symlink in repository state: '' @ join_with ''/'' (relative @ [name]))), ds)"
| "sync_entries root relative ((name, Special) # es) ds = sync_entries root relative es ds"

definition sync_contents :: "string list \<Rightarrow> (string \<times> source_node) list \<Rightarrow> unit dir_op" where
  "sync_contents root source =
     bindE read_dir (\<lambda>_.
     bindE (sync_entries root [] source) (\<lambda>_.
       prune_directory root [] (map fst source)))"

definition sync_repository_tree ::
  "string list \<Rightarrow> (string \<times> source_node) list \<Rightarrow> dest_entries option \<Rightarrow> sync_state
     \<Rightarrow> (io_error + unit) \<times> dest_entries option \<times> sync_state" where
  "sync_repository_tree root source destination s =
     (case (if destination = None then create_directory root ([], s) else (Inr (), [], s)) of
        (Inl e, _, s) \<Rightarrow> (Inl e, destination, s)
      | (Inr _, _, s) \<Rightarrow>
          (case sync_contents root source
                  (case destination of None \<Rightarrow> [] | Some d \<Rightarrow> d, s) of
             (r, d, s) \<Rightarrow> (r, Some d, s)))"


section \<open>What one file operation changes\<close>

text \<open>
  \<open>steps_to name c d\<close>: the directory \<open>d\<close> with at most the file \<open>name\<close> replaced by \<open>c\<close> and a
  temporary file beside it.
\<close>

definition is_file_or_none :: "dest_node option \<Rightarrow> bool" where
  "is_file_or_none x \<longleftrightarrow> (case x of Some (DDir _) \<Rightarrow> False | _ \<Rightarrow> True)"

definition steps_to :: "string \<Rightarrow> bytes \<Rightarrow> dest_entries \<Rightarrow> dest_entries \<times> sync_state \<Rightarrow> bool" where
  "steps_to name c d ds \<longleftrightarrow>
     (\<forall>k. k \<noteq> name \<longrightarrow> k \<noteq> temporary_path name \<longrightarrow> map_of (fst ds) k = map_of d k)
     \<and> (map_of (fst ds) name = map_of d name \<or> map_of (fst ds) name = Some (DReg c))
     \<and> (map_of (fst ds) (temporary_path name) = map_of d (temporary_path name)
        \<or> is_file_or_none (map_of d (temporary_path name))
          \<and> is_file_or_none (map_of (fst ds) (temporary_path name)))"

lemma temporary_neq [simp]: "temporary_path name \<noteq> name" "name \<noteq> temporary_path name"
  by (auto simp: temporary_path_def)

lemma is_file_or_none_simps [simp]:
  "is_file_or_none None" "is_file_or_none (Some (DReg b))" "\<not> is_file_or_none (Some (DDir d))"
  by (simp_all add: is_file_or_none_def)

lemma fs_call_cases:
  assumes "fs_call f g ds = (r, t)"
  obtains "r = Inr ()" "fst t = f (fst ds)" | e n where "r = Inl e" "fst t = g n (fst ds)"
  using assms by (auto simp: fs_call_def split: prod.splits option.splits)

lemma keeps_fs_call:
  assumes "\<And>d0 s. steps_to name c d (d0, s) \<Longrightarrow> steps_to name c d (f d0, s)"
    and "\<And>n d0 s. steps_to name c d (d0, s) \<Longrightarrow> steps_to name c d (g n d0, s)"
  shows "keeps (steps_to name c d) (fs_call f g)"
proof (rule keepsI)
  fix ds r t assume st: "steps_to name c d ds" and c: "fs_call f g ds = (r, t)"
  from c show "steps_to name c d t"
    by (cases rule: fs_call_cases) (use st assms [of "fst ds" "snd ds"] in \<open>simp_all add: steps_to_def\<close>)
qed

lemma keeps_same_dir:
  assumes "\<And>ds r t. m ds = (r, t) \<Longrightarrow> fst t = fst ds"
  shows "keeps (steps_to name c d) m"
  by (rule keepsI) (simp add: steps_to_def assms)

lemma keeps_on_stats: "keeps (steps_to name c d) (on_stats f)"
  by (rule keeps_same_dir) (auto simp: on_stats_def)

lemma keeps_mark_dirty: "keeps (steps_to name c d) (mark_dirty p)"
  by (rule keeps_same_dir) (auto simp: mark_dirty_def)

lemma keeps_nop: "keeps (steps_to name c d) (fs_call (\<lambda>d. d) (\<lambda>n d. d))"
  by (rule keeps_fs_call) simp_all

lemma remove_temporary_cases:
  assumes "remove_temporary name ds = (r, t)"
  obtains (same) "fst t = fst ds" "r = Inr () \<Longrightarrow> is_file_or_none (map_of (fst ds) (temporary_path name))"
  | (removed) "fst t = drop_entry (temporary_path name) (fst ds)"
      "is_file_or_none (map_of (fst ds) (temporary_path name))"
proof (cases "map_of (fst ds) (temporary_path name)")
  case None
  show thesis by (rule same) (use assms None in \<open>simp_all add: remove_temporary_def\<close>)
next
  case (Some node)
  show thesis
  proof (cases node)
    case (DDir x)
    show thesis by (rule same) (use assms Some DDir in \<open>simp_all add: remove_temporary_def\<close>)
  next
    case (DReg b)
    obtain y u where c: "fs_call (drop_entry (temporary_path name)) (\<lambda>n d. d) ds = (y, u)"
      by (rule prod.exhaust)
    have t: "t = u"
      using assms Some DReg c by (simp add: remove_temporary_def split: sum.splits if_splits)
    from c show thesis
      by (cases rule: fs_call_cases) (use Some DReg t same removed in simp_all)
  qed
qed

lemma keeps_remove_temporary: "keeps (steps_to name c d) (remove_temporary name)"
proof (rule keepsI)
  fix ds r t assume st: "steps_to name c d ds" and c: "remove_temporary name ds = (r, t)"
  from c show "steps_to name c d t"
    by (cases rule: remove_temporary_cases) (use st in \<open>auto simp: steps_to_def\<close>)
qed

lemma steps_to_refl: "steps_to name c (fst ds) ds"
  by (simp add: steps_to_def)

text \<open>With the temporary gone, every later step keeps \<open>steps_to\<close> and the temporary a file.\<close>

definition copying_to :: "string \<Rightarrow> bytes \<Rightarrow> dest_entries \<Rightarrow> dest_entries \<times> sync_state \<Rightarrow> bool" where
  "copying_to name c d ds \<longleftrightarrow>
     steps_to name c d ds \<and> is_file_or_none (map_of d (temporary_path name))
     \<and> is_file_or_none (map_of (fst ds) (temporary_path name))"

lemma copying_fs_call:
  assumes "\<And>d0 s. copying_to name c d (d0, s) \<Longrightarrow> copying_to name c d (f d0, s)"
    and "\<And>n d0 s. copying_to name c d (d0, s) \<Longrightarrow> copying_to name c d (g n d0, s)"
  shows "keeps (copying_to name c d) (fs_call f g)"
proof (rule keepsI)
  fix ds r t assume st: "copying_to name c d ds" and c: "fs_call f g ds = (r, t)"
  from c show "copying_to name c d t"
    by (cases rule: fs_call_cases)
      (use st assms [of "fst ds" "snd ds"] in \<open>simp_all add: copying_to_def steps_to_def\<close>)
qed

lemma copying_same_dir:
  assumes "\<And>ds r t. m ds = (r, t) \<Longrightarrow> fst t = fst ds"
  shows "keeps (copying_to name c d) m"
  by (rule keepsI) (simp add: copying_to_def steps_to_def assms)

lemma copying_on_stats: "keeps (copying_to name c d) (on_stats f)"
  by (rule copying_same_dir) (auto simp: on_stats_def)

lemma copying_mark_dirty: "keeps (copying_to name c d) (mark_dirty p)"
  by (rule copying_same_dir) (auto simp: mark_dirty_def)

lemma copying_put_temporary: "keeps (copying_to name c d)
    (fs_call (put_entry (temporary_path name) (DReg b)) (\<lambda>n. put_entry (temporary_path name) (DReg (g n))))"
  by (rule copying_fs_call) (auto simp: copying_to_def steps_to_def)

lemma copying_copy_to_temporary: "keeps (copying_to name c d) (copy_to_temporary c name)"
  unfolding copy_to_temporary_def
  by (intro keeps_bindE copying_put_temporary copying_fs_call) simp_all

lemma copying_rename: "keeps (copying_to name c d) (rename_temporary c name)"
  unfolding rename_temporary_def
  by (rule copying_fs_call) (auto simp: copying_to_def steps_to_def)

lemma copying_link_or_copy: "keeps (copying_to name c d) (link_or_copy c name)"
proof (rule keepsI)
  fix ds r t assume st: "copying_to name c d ds" and l: "link_or_copy c name ds = (r, t)"
  have k: "keeps (copying_to name c d) (fs_call (put_entry (temporary_path name) (DReg c)) (\<lambda>n d. d))"
    by (rule copying_fs_call) (auto simp: copying_to_def steps_to_def)
  obtain x t1 where f: "fs_call (put_entry (temporary_path name) (DReg c)) (\<lambda>n d. d) ds = (x, t1)"
    by (rule prod.exhaust)
  have st1: "copying_to name c d t1" by (rule keepsD [OF k st f])
  show "copying_to name c d t"
  proof (cases x)
    case (Inr u)
    then show ?thesis
      using l f st1 by (auto simp: link_or_copy_def dest: keepsD [OF copying_on_stats])
  next
    case (Inl e)
    have "keeps (copying_to name c d) (bindE (copy_to_temporary c name)
        (\<lambda>_. on_stats (\<lambda>st. st\<lparr>files_copied := files_copied st + 1,
              bytes_copied := bytes_copied st + word_of_nat (length c)\<rparr>)))"
      by (intro keeps_bindE copying_copy_to_temporary copying_on_stats)
    from keepsD [OF this st1] show ?thesis using l f Inl by (simp add: link_or_copy_def)
  qed
qed

lemma remove_temporary_starts:
  assumes "remove_temporary name ds = (Inr u, t)"
  shows "copying_to name c (fst ds) t"
  using assms
  by (cases rule: remove_temporary_cases) (auto simp: copying_to_def steps_to_def)

text \<open>A routine that removes the temporary first and copies after keeps \<open>steps_to\<close>.\<close>

lemma steps_after_remove:
  assumes "keeps (copying_to name c (fst ds)) m"
    and "bindE (remove_temporary name) (\<lambda>_. m) ds = (r, t)"
  shows "steps_to name c (fst ds) t"
proof -
  obtain x t1 where x: "remove_temporary name ds = (x, t1)" by (rule prod.exhaust)
  show ?thesis
  proof (cases x)
    case (Inl e)
    then show ?thesis
      using assms(2) x keepsD [OF keeps_remove_temporary steps_to_refl x] by (simp add: bindE_def)
  next
    case (Inr u)
    then have "m t1 = (r, t)" using assms(2) x by (simp add: bindE_def)
    with keepsD [OF assms(1) remove_temporary_starts] x Inr show ?thesis
      by (auto simp: copying_to_def)
  qed
qed

lemma copying_replace_file: "keeps (copying_to name c d)
    (bindE (copy_to_temporary c name) (\<lambda>_. bindE (rename_temporary c name) (\<lambda>_ ds. (Inr x, ds))))"
  by (intro keeps_bindE copying_copy_to_temporary copying_rename copying_same_dir) simp

lemma copy_file_atomic_steps:
  "copy_file_atomic c name ds = (r, t) \<Longrightarrow> steps_to name c (fst ds) t"
  unfolding copy_file_atomic_def by (rule steps_after_remove [OF copying_replace_file])

lemma same_dir_simps:
  "on_stats f ds = (r, t) \<Longrightarrow> fst t = fst ds"
  "mark_dirty p ds = (r, t) \<Longrightarrow> fst t = fst ds"
  "count_reused ds = (r, t) \<Longrightarrow> fst t = fst ds"
  by (auto simp: on_stats_def mark_dirty_def count_reused_def)

lemma steps_to_same: "fst t = fst u \<Longrightarrow> steps_to name c d u \<Longrightarrow> steps_to name c d t"
  by (simp add: steps_to_def)

lemma replace_file_steps:
  assumes "replace_file dir name c b ds = (r, t)"
  shows "steps_to name c (fst ds) t"
proof -
  obtain x t1 where x: "copy_file_atomic c name ds = (x, t1)" by (rule prod.exhaust)
  note st = copy_file_atomic_steps [OF x]
  show ?thesis
  proof (cases x)
    case (Inl e)
    then show ?thesis using assms x st by (simp add: replace_file_def bindE_def)
  next
    case (Inr u)
    then have "fst t = fst t1"
      using assms x by (auto simp: replace_file_def bindE_def dest!: same_dir_simps split: prod.splits sum.splits)
    then show ?thesis using st by (rule steps_to_same)
  qed
qed

lemma rename_ok: "rename_temporary c name ds = (Inr u, t) \<Longrightarrow> map_of (fst t) name = Some (DReg c)"
  unfolding rename_temporary_def by (elim fs_call_cases) auto

lemma replace_file_ok:
  "replace_file dir name c b ds = (Inr u, t) \<Longrightarrow> map_of (fst t) name = Some (DReg c)"
  unfolding replace_file_def copy_file_atomic_def
  by (auto elim!: bindE_InrE dest!: rename_ok same_dir_simps)

lemma files_equal_dir: "files_equal c node ds = (r, t) \<Longrightarrow> fst t = fst ds"
  unfolding files_equal_def
  by (cases r) (auto elim!: bindE_InrE bindE_InlE fs_call_cases split: dest_node.splits)

lemma files_equal_ok: "files_equal c node ds = (Inr b, t) \<Longrightarrow> \<exists>c'. node = DReg c' \<and> b = (c = c')"
  unfolding files_equal_def by (auto elim!: bindE_InrE split: dest_node.splits)

text \<open>What syncing one file does to its directory, for every outcome.\<close>

definition file_synced ::
  "bool \<Rightarrow> string \<Rightarrow> bytes \<Rightarrow> dest_entries \<Rightarrow> (io_error + unit) \<Rightarrow> dest_entries \<times> sync_state \<Rightarrow> bool" where
  "file_synced immutable name c d r t \<longleftrightarrow>
     steps_to name c d t
     \<and> (immutable \<and> map_of d name \<noteq> None \<longrightarrow> fst t = d)
     \<and> (\<not> is_file_or_none (map_of d name) \<longrightarrow> fst t = d)
     \<and> (r = Inr () \<longrightarrow> map_of (fst t) name = Some (DReg c) \<or> immutable \<and> map_of d name \<noteq> None)"

lemma file_synced_immutable:
  assumes "is_immutable_repository_file (rel @ [name])"
    and "sync_repository_file root rel name c ds = (r, t)"
  shows "file_synced True name c (fst ds) r t"
proof (cases "map_of (fst ds) name")
  case (Some node)
  then have "fst t = fst ds" using assms by (auto simp: sync_repository_file_def dest: same_dir_simps)
  then show ?thesis using Some by (simp add: file_synced_def steps_to_def)
next
  case None
  have m: "keeps (copying_to name c d) (bindE (link_or_copy c name) (\<lambda>_.
      bindE (rename_temporary c name) (\<lambda>_. mark_dirty (root @ rel))))" for d
    by (intro keeps_bindE copying_link_or_copy copying_rename copying_mark_dirty)
  have e: "bindE (remove_temporary name) (\<lambda>_. bindE (link_or_copy c name) (\<lambda>_.
      bindE (rename_temporary c name) (\<lambda>_. mark_dirty (root @ rel)))) ds = (r, t)"
    using assms None by (simp add: sync_repository_file_def)
  have "steps_to name c (fst ds) t" by (rule steps_after_remove [OF m e])
  moreover have "r = Inr () \<longrightarrow> map_of (fst t) name = Some (DReg c)"
    using e by (auto elim!: bindE_InrE dest!: rename_ok same_dir_simps)
  ultimately show ?thesis using None by (simp add: file_synced_def)
qed

lemma file_synced_mutable:
  assumes "\<not> is_immutable_repository_file (rel @ [name])"
    and "sync_repository_file root rel name c ds = (r, t)"
  shows "file_synced False name c (fst ds) r t"
proof (cases "map_of (fst ds) name")
  case None
  then have "replace_file (root @ rel) name c False ds = (r, t)"
    using assms by (simp add: sync_repository_file_def)
  note rf = this
  have "r = Inr () \<longrightarrow> map_of (fst t) name = Some (DReg c)"
    using replace_file_ok rf by blast
  then show ?thesis using None replace_file_steps [OF rf] by (simp add: file_synced_def)
next
  case (Some node)
  obtain x t1 where x: "files_equal c node ds = (x, t1)" by (rule prod.exhaust)
  note d1 = files_equal_dir [OF x]
  show ?thesis
  proof (cases x)
    case (Inl e)
    then have "fst t = fst ds" "r = Inl e"
      using assms Some x d1 by (auto simp: sync_repository_file_def bindE_def)
    then show ?thesis using Some by (simp add: file_synced_def steps_to_def)
  next
    case (Inr b)
    obtain c' where c': "node = DReg c'" "b = (c = c')" using files_equal_ok x Inr by blast
    show ?thesis
    proof (cases b)
      case True
      then have "fst t = fst ds"
        using assms Some x d1 Inr by (auto simp: sync_repository_file_def bindE_def dest: same_dir_simps)
      then show ?thesis using Some c' True by (simp add: file_synced_def steps_to_def)
    next
      case False
      then have "replace_file (root @ rel) name c True t1 = (r, t)"
        using assms Some x Inr by (simp add: sync_repository_file_def bindE_def)
      note rf = this
      have "steps_to name c (fst ds) t" using replace_file_steps [OF rf] d1 by simp
      moreover have "r = Inr () \<longrightarrow> map_of (fst t) name = Some (DReg c)"
        using replace_file_ok rf by blast
      ultimately show ?thesis using Some c' by (simp add: file_synced_def)
    qed
  qed
qed

lemma sync_repository_file_synced:
  assumes "sync_repository_file root rel name c ds = (r, t)"
  shows "file_synced (is_immutable_repository_file (rel @ [name])) name c (fst ds) r t"
  using file_synced_immutable [OF _ assms] file_synced_mutable [OF _ assms]
  by (cases "is_immutable_repository_file (rel @ [name])") simp_all


section \<open>Immutable files are never touched\<close>

text \<open>The node at a path.\<close>

fun node_at :: "dest_entries \<Rightarrow> string list \<Rightarrow> dest_node option" where
  "node_at d [] = Some (DDir d)"
| "node_at d (n # p) =
     (case map_of d n of
        Some (DDir sub) \<Rightarrow> node_at sub p
      | Some (DReg c) \<Rightarrow> if p = [] then Some (DReg c) else None
      | None \<Rightarrow> None)"

fun source_at :: "(string \<times> source_node) list \<Rightarrow> string list \<Rightarrow> source_node option" where
  "source_at es [] = Some (Dir es)"
| "source_at es (n # p) =
     (case map_of es n of
        Some (Dir sub) \<Rightarrow> source_at sub p
      | Some node \<Rightarrow> if p = [] then Some node else None
      | None \<Rightarrow> None)"

definition keeps_immutable :: "string list \<Rightarrow> dest_entries \<Rightarrow> dest_entries \<Rightarrow> bool" where
  "keeps_immutable rel d d' \<longleftrightarrow>
     (\<forall>p c. is_immutable_repository_file (rel @ p) \<longrightarrow> node_at d p = Some (DReg c) \<longrightarrow>
        node_at d' p = Some (DReg c))"

lemma keeps_immutable_refl [simp]: "keeps_immutable rel d d"
  by (simp add: keeps_immutable_def)

lemma keeps_immutable_trans [trans]:
  "keeps_immutable rel d d1 \<Longrightarrow> keeps_immutable rel d1 d2 \<Longrightarrow> keeps_immutable rel d d2"
  by (simp add: keeps_immutable_def)

lemma rsplit_once_temporary:
  "rsplit_once (CHR ''.'') (temporary_path name) = Some (name, ''rrjj-sync-tmp'')"
  by (simp add: rsplit_once_def temporary_path_def)

lemma temporary_not_hex: "\<not> is_hex (temporary_path name)"
  by (simp add: is_hex_def temporary_path_def is_ascii_hexdigit_def)

lemma temporary_not_pack: "\<not> is_immutable_git_pack_file (temporary_path name)"
  by (simp add: is_immutable_git_pack_file_def rsplit_once_temporary split: option.splits)

text \<open>A temporary file is never taken for an immutable one.\<close>

lemma temporary_not_immutable: "\<not> is_immutable_repository_file (rel @ [temporary_path name])"
proof
  assume "is_immutable_repository_file (rel @ [temporary_path name])"
  then show False
  proof (cases "rel @ [temporary_path name]" rule: is_immutable_repository_file.cases)
    case (1 a kind n)
    then have "n = temporary_path name" by (cases rel rule: rev_cases) auto
    then show False
      using 1 \<open>is_immutable_repository_file (rel @ [temporary_path name])\<close> temporary_not_hex by auto
  next
    case (2 a b c d n)
    then have "n = temporary_path name" by (cases rel rule: rev_cases) auto
    then show False
      using 2 \<open>is_immutable_repository_file (rel @ [temporary_path name])\<close> temporary_not_hex
        temporary_not_pack by auto
  qed simp_all
qed

lemma node_at_map_of: "map_of d n = map_of d' n \<Longrightarrow> node_at d (n # p) = node_at d' (n # p)"
  by simp

lemma file_synced_keeps_immutable:
  assumes fs: "file_synced (is_immutable_repository_file (rel @ [name])) name c d r t"
  shows "keeps_immutable rel d (fst t)"
  unfolding keeps_immutable_def
proof (intro allI impI)
  fix p b
  assume im: "is_immutable_repository_file (rel @ p)" and at: "node_at d p = Some (DReg b)"
  obtain n q where p: "p = n # q" using at by (cases p) auto
  consider "n \<noteq> name" "n \<noteq> temporary_path name" | "n = name" | "n = temporary_path name" by blast
  then show "node_at (fst t) p = Some (DReg b)"
  proof cases
    case 1
    then have "map_of (fst t) n = map_of d n" using fs by (simp add: file_synced_def steps_to_def)
    then show ?thesis using at p node_at_map_of [of "fst t" n d q] by simp
  next
    case 2
    have "fst t = d"
    proof (cases "q = []")
      case True
      then show ?thesis using fs im at p 2 by (auto simp: file_synced_def split: option.splits)
    next
      case False
      then have "\<not> is_file_or_none (map_of d name)"
        using at p 2 by (auto simp: is_file_or_none_def split: option.splits dest_node.splits)
      then show ?thesis using fs by (simp add: file_synced_def)
    qed
    then show ?thesis using at by simp
  next
    case 3
    then have "q \<noteq> []" using im p temporary_not_immutable by auto
    then have "\<not> is_file_or_none (map_of d (temporary_path name))"
      using at p 3 by (auto simp: is_file_or_none_def split: option.splits dest_node.splits)
    then have "map_of (fst t) n = map_of d n"
      using fs 3 by (simp add: file_synced_def steps_to_def)
    then show ?thesis using at p node_at_map_of [of "fst t" n d q] by simp
  qed
qed

text \<open>The prune loop changes nothing but mutable files outside the source's names.\<close>

lemma prune_step_cases:
  assumes "prune root rel names (name # listed) ds = (r, t)"
  obtains (skip) "prune root rel names listed ds = (r, t)"
      "\<And>b. map_of (fst ds) name = Some (DReg b) \<Longrightarrow>
         name \<in> set names \<or> is_immutable_repository_file (rel @ [name])"
  | (failed) e where "fst t = fst ds" "r = Inl e"
  | (removed) u where "name \<notin> set names" "\<not> is_immutable_repository_file (rel @ [name])"
      "is_file_or_none (map_of (fst ds) name)"
      "fst u = drop_entry name (fst ds)" "prune root rel names listed u = (r, t)"
proof (cases "name \<in> set names \<or> \<not> (\<exists>b. map_of (fst ds) name = Some (DReg b))
    \<or> is_immutable_repository_file (rel @ [name])")
  case True
  then show thesis using assms skip by (auto split: if_splits option.splits dest_node.splits)
next
  case False
  then obtain b where b: "map_of (fst ds) name = Some (DReg b)" by blast
  obtain x u where x: "fs_call (drop_entry name) (\<lambda>n d. d) ds = (x, u)" by (rule prod.exhaust)
  show thesis
  proof (cases x)
    case (Inl e)
    show thesis
      by (rule failed [of e]) (use assms False b x Inl in \<open>auto elim: fs_call_cases\<close>)
  next
    case (Inr v)
    let ?u = "snd (mark_dirty (root @ rel) (snd (on_stats (\<lambda>st. st\<lparr>files_removed := files_removed st + 1\<rparr>) u)))"
    have u: "fst u = drop_entry name (fst ds)" using x Inr by (auto elim: fs_call_cases)
    show thesis
      by (rule removed [of ?u])
        (use assms False b x Inr u in \<open>simp_all add: bindE_def on_stats_def mark_dirty_def\<close>)
  qed
qed

lemma drop_keeps_immutable:
  assumes "\<not> is_immutable_repository_file (rel @ [name])" "is_file_or_none (map_of d name)"
  shows "keeps_immutable rel d (drop_entry name d)"
  unfolding keeps_immutable_def
proof (intro allI impI)
  fix p b
  assume im: "is_immutable_repository_file (rel @ p)" and at: "node_at d p = Some (DReg b)"
  obtain n q where p: "p = n # q" using at by (cases p) auto
  have "n \<noteq> name"
  proof
    assume n: "n = name"
    then have "q = []" using at p assms(2)
      by (auto simp: is_file_or_none_def split: option.splits dest_node.splits if_splits)
    then show False using im p n assms(1) by simp
  qed
  then show "node_at (drop_entry name d) p = Some (DReg b)"
    using at p node_at_map_of [of "drop_entry name d" n d q] by simp
qed

lemma prune_keeps_immutable:
  "prune root rel names listed ds = (r, t) \<Longrightarrow> keeps_immutable rel (fst ds) (fst t)"
proof (induction listed arbitrary: ds)
  case (Cons name listed)
  from Cons.prems show ?case
  proof (cases rule: prune_step_cases)
    case skip
    show ?thesis by (rule Cons.IH [OF skip(1)])
  next
    case (failed e)
    then show ?thesis by simp
  next
    case (removed u)
    have "keeps_immutable rel (fst ds) (fst u)"
      unfolding removed(4) by (rule drop_keeps_immutable [OF removed(2,3)])
    also have "keeps_immutable rel (fst u) (fst t)" by (rule Cons.IH [OF removed(5)])
    finally show ?thesis .
  qed
qed simp

lemma prune_frame:
  "prune root rel names listed ds = (r, t) \<Longrightarrow> k \<in> set names \<or> k \<notin> set listed \<Longrightarrow>
     map_of (fst t) k = map_of (fst ds) k"
proof (induction listed arbitrary: ds)
  case (Cons name listed)
  from Cons.prems(1) show ?case
  proof (cases rule: prune_step_cases)
    case skip
    show ?thesis using Cons.IH [OF skip(1)] Cons.prems(2) by auto
  next
    case (failed e)
    then show ?thesis by simp
  next
    case (removed u)
    then show ?thesis using Cons.IH [OF removed(5)] Cons.prems(2) by auto
  qed
qed simp

lemma prune_complete:
  "prune root rel names listed ds = (Inr (), t) \<Longrightarrow> k \<in> set listed \<Longrightarrow>
     map_of (fst t) k = Some (DReg b) \<Longrightarrow> k \<in> set names \<or> is_immutable_repository_file (rel @ [k])"
proof (induction listed arbitrary: ds)
  case (Cons name listed)
  from Cons.prems(1) show ?case
  proof (cases rule: prune_step_cases)
    case skip
    show ?thesis
    proof (cases "k \<in> set listed")
      case True
      then show ?thesis using Cons.IH [OF skip(1)] Cons.prems(3) by blast
    next
      case False
      then have "map_of (fst ds) name = Some (DReg b)" "k = name"
        using prune_frame [OF skip(1), of k] Cons.prems(2,3) by auto
      then show ?thesis using skip(2) by blast
    qed
  next
    case (failed e)
    then show ?thesis by simp
  next
    case (removed u)
    show ?thesis
    proof (cases "k \<in> set listed")
      case True
      then show ?thesis using Cons.IH [OF removed(5)] Cons.prems(3) by blast
    next
      case False
      then have "k = name" "map_of (fst t) k = map_of (fst u) k"
        using prune_frame [OF removed(5), of k] Cons.prems(2) by auto
      then show ?thesis using removed(4) Cons.prems(3) by simp
    qed
  qed
qed simp

lemma read_dir_dir: "read_dir ds = (r, t) \<Longrightarrow> fst t = fst ds"
  unfolding read_dir_def by (elim fs_call_cases) simp_all

lemma prune_directory_cases:
  assumes "prune_directory root rel names ds = (r, t)"
  obtains (failed) e where "r = Inl e" "fst t = fst ds"
  | (listed) u where "fst u = fst ds" "prune root rel names (map fst (fst ds)) u = (r, t)"
proof -
  obtain x u where x: "read_dir ds = (x, u)" by (rule prod.exhaust)
  note u = read_dir_dir [OF x]
  show thesis
  proof (cases x)
    case (Inl e)
    show thesis by (rule failed [of e]) (use assms x u Inl in \<open>simp_all add: prune_directory_def bindE_def\<close>)
  next
    case (Inr v)
    show thesis by (rule listed [OF u]) (use assms x u Inr in \<open>simp add: prune_directory_def bindE_def\<close>)
  qed
qed

lemma prune_directory_keeps_immutable:
  assumes "prune_directory root rel names ds = (r, t)"
  shows "keeps_immutable rel (fst ds) (fst t)"
  using assms by (cases rule: prune_directory_cases) (auto dest: prune_keeps_immutable)

lemma prune_directory_frame:
  assumes "prune_directory root rel names ds = (r, t)" and "k \<in> set names"
  shows "map_of (fst t) k = map_of (fst ds) k"
  using assms(1) by (cases rule: prune_directory_cases) (use assms(2) in \<open>auto dest: prune_frame\<close>)

text \<open>Subdirectories.\<close>

lemma create_directory_dir: "create_directory path ds = (r, t) \<Longrightarrow> fst t = fst ds"
  unfolding create_directory_def mark_directory_changed_def
  by (cases r) (auto elim!: bindE_InrE bindE_InlE fs_call_cases split: if_splits dest!: same_dir_simps)

definition subdirectory :: "dest_entries \<Rightarrow> string \<Rightarrow> dest_entries option" where
  "subdirectory d name =
     (case map_of d name of None \<Rightarrow> Some [] | Some (DDir sub) \<Rightarrow> Some sub | Some (DReg _) \<Rightarrow> None)"

lemma sync_dir_cases:
  assumes "sync_entries root rel ((name, Dir sub) # es) ds = (r, t)"
  obtains (unchanged) e where "fst t = fst ds" "r = Inl e"
  | (inner) inner s0 e t1 where "subdirectory (fst ds) name = Some inner"
      "sync_entries root (rel @ [name]) sub (inner, s0) = (Inl e, t1)"
      "r = Inl e" "fst t = put_entry name (DDir (fst t1)) (fst ds)"
  | (pruning) inner s0 t1 e t2 where "subdirectory (fst ds) name = Some inner"
      "sync_entries root (rel @ [name]) sub (inner, s0) = (Inr (), t1)"
      "prune_directory root (rel @ [name]) (map fst sub) t1 = (Inl e, t2)"
      "r = Inl e" "fst t = put_entry name (DDir (fst t2)) (fst ds)"
  | (complete) inner s0 t1 t2 where "subdirectory (fst ds) name = Some inner"
      "sync_entries root (rel @ [name]) sub (inner, s0) = (Inr (), t1)"
      "prune_directory root (rel @ [name]) (map fst sub) t1 = (Inr (), t2)"
      "sync_entries root rel es (put_entry name (DDir (fst t2)) (fst ds), snd t2) = (r, t)"
proof (cases "subdirectory (fst ds) name")
  case None
  then have "fst t = fst ds" "r = Inl (Os_error 20)"
    using assms by (auto simp: subdirectory_def split: option.splits dest_node.splits)
  then show thesis by (rule unchanged)
next
  case (Some inn)
  define c where "c = bindE (if map_of (fst ds) name = None then create_directory (root @ rel @ [name])
      else (\<lambda>ds. (Inr (), ds))) (\<lambda>_. read_dir) ds"
  obtain x u where x: "c = (x, u)" by (rule prod.exhaust)
  have u: "fst u = fst ds"
    using x unfolding c_def
    by (cases x) (auto elim!: bindE_InrE bindE_InlE split: if_splits dest!: create_directory_dir read_dir_dir)
  have i: "(case map_of (fst ds) name of Some (DDir d) \<Rightarrow> d | _ \<Rightarrow> []) = inn"
    "\<not> (\<exists>b. map_of (fst ds) name = Some (DReg b))"
    using Some by (auto simp: subdirectory_def split: option.splits dest_node.splits)
  obtain y t1 where y: "sync_entries root (rel @ [name]) sub (inn, snd u) = (y, t1)" by (rule prod.exhaust)
  obtain z t2 where z: "prune_directory root (rel @ [name]) (map fst sub) t1 = (z, t2)" by (rule prod.exhaust)
  have main: "(case (x, u) of (Inl e, ds) \<Rightarrow> (Inl e, ds)
      | (Inr _, ds) \<Rightarrow>
        (case sync_entries root (rel @ [name]) sub (inn, snd ds) of
           (Inl e, d, s) \<Rightarrow> (Inl e, put_entry name (DDir d) (fst ds), s)
         | (Inr _, d, s) \<Rightarrow>
            (case prune_directory root (rel @ [name]) (map fst sub) (d, s) of
               (Inl e, d, s) \<Rightarrow> (Inl e, put_entry name (DDir d) (fst ds), s)
             | (Inr _, d, s) \<Rightarrow> sync_entries root rel es (put_entry name (DDir d) (fst ds), s)))) = (r, t)"
    using assms i x unfolding c_def
    by (cases "map_of (fst ds) name") (auto split: dest_node.splits)
  show thesis
  proof (cases x)
    case (Inl e)
    show thesis by (rule unchanged [of e]) (use main u Inl in auto)
  next
    case (Inr _)
    show thesis
    proof (cases y)
      case (Inl e)
      show thesis
        by (rule inner [OF Some, of "snd u" e t1]) (use main y u Inl Inr in \<open>auto split: prod.splits\<close>)
    next
      case y': (Inr _)
      show thesis
      proof (cases z)
        case (Inl e)
        show thesis
          by (rule pruning [OF Some, of "snd u" t1 e t2])
            (use main y z u y' Inl Inr in \<open>auto split: prod.splits\<close>)
      next
        case z': (Inr _)
        show thesis
          by (rule complete [OF Some, of "snd u" t1 t2])
            (use main y z u y' z' Inr in \<open>auto split: prod.splits\<close>)
      qed
    qed
  qed
qed

lemma put_dir_keeps_immutable:
  assumes "subdirectory d name = Some inner" and "keeps_immutable (rel @ [name]) inner d1"
  shows "keeps_immutable rel d (put_entry name (DDir d1) d)"
  unfolding keeps_immutable_def
proof (intro allI impI)
  fix p b
  assume im: "is_immutable_repository_file (rel @ p)" and at: "node_at d p = Some (DReg b)"
  obtain n q where p: "p = n # q" using at by (cases p) auto
  show "node_at (put_entry name (DDir d1) d) p = Some (DReg b)"
  proof (cases "n = name")
    case False
    then show ?thesis using at p node_at_map_of [of "put_entry name (DDir d1) d" n d q] by simp
  next
    case True
    then have "map_of d name = Some (DDir inner)" "node_at inner q = Some (DReg b)"
      using at p assms(1) by (auto simp: subdirectory_def split: option.splits dest_node.splits if_splits)
    then show ?thesis using assms(2) im p True by (simp add: keeps_immutable_def)
  qed
qed

text \<open>Induction over a source tree, with the path of its root.\<close>

lemma source_induct [case_names Nil Reg Link Special Dir]:
  assumes "\<And>rel. P rel []"
    and "\<And>rel name c es. P rel es \<Longrightarrow> P rel ((name, Reg c) # es)"
    and "\<And>rel name es. P rel es \<Longrightarrow> P rel ((name, Link) # es)"
    and "\<And>rel name es. P rel es \<Longrightarrow> P rel ((name, Special) # es)"
    and "\<And>rel name sub es. P (rel @ [name]) sub \<Longrightarrow> P rel es \<Longrightarrow> P rel ((name, Dir sub) # es)"
  shows "P rel es"
proof (induction "size_list (size_prod (\<lambda>_. 0) size) es" arbitrary: rel es rule: less_induct)
  case less
  show ?case
  proof (cases es)
    case Nil
    then show ?thesis using assms(1) by simp
  next
    case (Cons e rest)
    obtain name node where e: "e = (name, node)" by (rule prod.exhaust)
    have "P rel rest" by (rule less) (simp add: Cons e)
    then show ?thesis
      using assms(2-) less [of _ "rel @ [name]"] Cons e by (cases node) simp_all
  qed
qed

lemma sync_keeps_immutable:
  "sync_entries root rel es ds = (r, t) \<Longrightarrow> keeps_immutable rel (fst ds) (fst t)"
proof (induction rel es arbitrary: ds r t rule: source_induct)
  case (Reg rel name c es)
  obtain x u where x: "sync_repository_file root rel name c ds = (x, u)" by (rule prod.exhaust)
  have "keeps_immutable rel (fst ds) (fst u)"
    by (rule file_synced_keeps_immutable [OF sync_repository_file_synced [OF x]])
  also have "keeps_immutable rel (fst u) (fst t)"
    using Reg.prems x Reg.IH by (cases x) simp_all
  finally show ?case .
next
  case (Dir rel name sub es)
  from Dir.prems show ?case
  proof (cases rule: sync_dir_cases)
    case (unchanged a)
    then show ?thesis by simp
  next
    case (inner inn s0 a t1)
    show ?thesis unfolding inner(4)
      by (rule put_dir_keeps_immutable [OF inner(1)]) (use Dir.IH(1) [OF inner(2)] in simp)
  next
    case (pruning inn s0 t1 a t2)
    have "keeps_immutable (rel @ [name]) inn (fst t1)" using Dir.IH(1) [OF pruning(2)] by simp
    also note prune_directory_keeps_immutable [OF pruning(3)]
    finally show ?thesis unfolding pruning(5) by (rule put_dir_keeps_immutable [OF pruning(1)])
  next
    case (complete inn s0 t1 t2)
    have "keeps_immutable (rel @ [name]) inn (fst t1)" using Dir.IH(1) [OF complete(2)] by simp
    also note prune_directory_keeps_immutable [OF complete(3)]
    finally have "keeps_immutable rel (fst ds) (put_entry name (DDir (fst t2)) (fst ds))"
      by (rule put_dir_keeps_immutable [OF complete(1)])
    also have "keeps_immutable rel \<dots> (fst t)" using Dir.IH(2) [OF complete(4)] by simp
    finally show ?thesis .
  qed
qed simp_all

lemma sync_contents_keeps_immutable:
  assumes "sync_contents root source ds = (r, t)"
  shows "keeps_immutable [] (fst ds) (fst t)"
proof -
  let ?I = "\<lambda>u :: dest_entries \<times> sync_state. keeps_immutable [] (fst ds) (fst u)"
  have step: "keeps ?I m" if "\<And>ds r t. m ds = (r, t) \<Longrightarrow> keeps_immutable [] (fst ds) (fst t)" for m :: "unit dir_op"
    by (rule keepsI) (use that in \<open>blast intro: keeps_immutable_trans\<close>)
  have "keeps ?I (sync_contents root source)"
    unfolding sync_contents_def
  proof (intro keeps_bindE step)
    show "keeps_immutable [] (fst ds) (fst t)" if "read_dir ds = (r, t)" for ds r t
      using read_dir_dir [OF that] by simp
  qed (rule sync_keeps_immutable prune_directory_keeps_immutable, assumption)+
  from keepsD [OF this _ assms] show ?thesis by simp
qed

lemma sync_tree_cases:
  assumes "sync_repository_tree root source destination s = (r, destination', s')"
  obtains (not_created) e where "r = Inl e" "destination = None" "destination' = None"
  | (synced) s0 d' where "sync_contents root source (case destination of None \<Rightarrow> [] | Some d \<Rightarrow> d, s0) = (r, d', s')"
      "destination' = Some d'"
  using assms
  by (auto simp: sync_repository_tree_def split: prod.splits sum.splits if_splits)

lemma sync_tree_keeps_immutable:
  assumes "sync_repository_tree root source (Some d) s = (r, destination', s')"
  shows "\<exists>d'. destination' = Some d' \<and> keeps_immutable [] d d'"
  using assms by (cases rule: sync_tree_cases) (auto dest: sync_contents_keeps_immutable)

section \<open>A successful sync is a mirror\<close>

text \<open>
  A directory has one entry per name and no file beside the temporary of another (the repository
  never holds such names).
\<close>

fun wf_source :: "(string \<times> source_node) list \<Rightarrow> bool" where
  "wf_source [] \<longleftrightarrow> True"
| "wf_source ((name, node) # es) \<longleftrightarrow>
     name \<notin> fst ` set es
     \<and> temporary_path name \<notin> fst ` set es \<and> name \<notin> temporary_path ` fst ` set es
     \<and> (case node of Dir sub \<Rightarrow> wf_source sub | _ \<Rightarrow> True) \<and> wf_source es"

text \<open>
  What content addressing gives: an immutable file the destination already has is the source's.
\<close>

fun agrees :: "string list \<Rightarrow> (string \<times> source_node) list \<Rightarrow> dest_entries \<Rightarrow> bool" where
  "agrees rel [] d \<longleftrightarrow> True"
| "agrees rel ((name, node) # es) d \<longleftrightarrow>
     (case node of
        Reg c \<Rightarrow> is_immutable_repository_file (rel @ [name]) \<longrightarrow>
          map_of d name = None \<or> map_of d name = Some (DReg c)
      | Dir sub \<Rightarrow> (case map_of d name of Some (DDir d1) \<Rightarrow> agrees (rel @ [name]) sub d1 | _ \<Rightarrow> True)
      | _ \<Rightarrow> True)
     \<and> agrees rel es d"

definition pruned :: "string list \<Rightarrow> (string \<times> source_node) list \<Rightarrow> dest_entries \<Rightarrow> bool" where
  "pruned rel es d \<longleftrightarrow>
     (\<forall>k \<in> set (map fst d). \<forall>b. map_of d k = Some (DReg b) \<longrightarrow>
        k \<in> fst ` set es \<or> is_immutable_repository_file (rel @ [k]))"

fun mirrored :: "string list \<Rightarrow> (string \<times> source_node) list \<Rightarrow> dest_entries \<Rightarrow> bool" where
  "mirrored rel [] d \<longleftrightarrow> True"
| "mirrored rel ((name, node) # es) d \<longleftrightarrow>
     (case node of
        Reg c \<Rightarrow> map_of d name = Some (DReg c)
      | Dir sub \<Rightarrow>
          (case map_of d name of
             Some (DDir d1) \<Rightarrow> mirrored (rel @ [name]) sub d1 \<and> pruned (rel @ [name]) sub d1
           | _ \<Rightarrow> False)
      | _ \<Rightarrow> True)
     \<and> mirrored rel es d"

lemma agrees_cong:
  "(\<And>k. k \<in> fst ` set es \<Longrightarrow> map_of d k = map_of d' k) \<Longrightarrow> agrees rel es d = agrees rel es d'"
  by (induction es) (auto split: source_node.splits)

lemma mirrored_cong:
  "(\<And>k. k \<in> fst ` set es \<Longrightarrow> map_of d k = map_of d' k) \<Longrightarrow> mirrored rel es d = mirrored rel es d'"
  by (induction es) (auto split: source_node.splits)

lemma agrees_Nil_dest [simp]: "agrees rel es []"
  by (induction es) (auto split: source_node.splits)

lemma sync_file_frame:
  assumes "sync_repository_file root rel name c ds = (r, t)" "k \<noteq> name" "k \<noteq> temporary_path name"
  shows "map_of (fst t) k = map_of (fst ds) k"
  using sync_repository_file_synced [OF assms(1)] assms(2,3) by (simp add: file_synced_def steps_to_def)

lemma sync_entries_frame:
  "sync_entries root rel es ds = (r, t) \<Longrightarrow> k \<notin> fst ` set es \<Longrightarrow> k \<notin> temporary_path ` fst ` set es \<Longrightarrow>
     map_of (fst t) k = map_of (fst ds) k"
proof (induction es arbitrary: ds)
  case (Cons e es)
  obtain name node where e: "e = (name, node)" by (rule prod.exhaust)
  have k: "k \<noteq> name" "k \<noteq> temporary_path name" using Cons.prems(2,3) e by auto
  have IH: "sync_entries root rel es ds' = (r, t) \<Longrightarrow> map_of (fst t) k = map_of (fst ds') k" for ds'
    using Cons.IH Cons.prems(2,3) by auto
  show ?case
  proof (cases node)
    case (Reg c)
    obtain x u where x: "sync_repository_file root rel name c ds = (x, u)" by (rule prod.exhaust)
    show ?thesis using Cons.prems(1) e Reg x sync_file_frame [OF x k] IH [of u] by (cases x) auto
  next
    case Link
    then show ?thesis using Cons.prems(1) e by simp
  next
    case Special
    then show ?thesis using Cons.prems(1) e IH [of ds] by simp
  next
    case (Dir sub)
    from Cons.prems(1) [unfolded e Dir] show ?thesis
      by (cases rule: sync_dir_cases) (use k IH in auto)
  qed
qed simp

lemma prune_pruned:
  assumes "prune_directory root rel (map fst es) ds = (Inr (), t)"
  shows "pruned rel es (fst t)"
  using assms
proof (cases rule: prune_directory_cases)
  case (listed u)
  show ?thesis
    unfolding pruned_def
  proof (intro ballI allI impI)
    fix k b assume k: "map_of (fst t) k = Some (DReg b)"
    show "k \<in> fst ` set es \<or> is_immutable_repository_file (rel @ [k])"
    proof (cases "k \<in> set (map fst (fst ds))")
      case True
      from prune_complete [OF listed(2) True k] show ?thesis by simp
    next
      case False
      then have "map_of (fst t) k = map_of (fst ds) k"
        using prune_frame [OF listed(2), of k] listed(1) by simp
      then show ?thesis using False k by (metis map_of_eq_None_iff option.distinct(1) set_map)
    qed
  qed
qed simp

lemma mirror_ok:
  "sync_entries root rel es ds = (Inr (), t) \<Longrightarrow> wf_source es \<Longrightarrow> agrees rel es (fst ds) \<Longrightarrow>
     mirrored rel es (fst t)"
proof (induction rel es arbitrary: ds t rule: source_induct)
  case (Reg rel name c es)
  obtain x u where x: "sync_repository_file root rel name c ds = (x, u)" by (rule prod.exhaust)
  then have s: "x = Inr ()" "sync_entries root rel es u = (Inr (), t)"
    using Reg.prems(1) by (auto split: sum.splits)
  have "map_of (fst u) name = Some (DReg c)"
    using sync_repository_file_synced [OF x] s(1) Reg.prems(3) by (auto simp: file_synced_def)
  moreover have "map_of (fst t) name = map_of (fst u) name"
    by (rule sync_entries_frame [OF s(2)]) (use Reg.prems(2) in auto)
  moreover have "agrees rel es (fst u)"
  proof -
    have nm: "name \<notin> fst ` set es" "temporary_path name \<notin> fst ` set es" using Reg.prems(2) by simp_all
    have "map_of (fst u) k = map_of (fst ds) k" if "k \<in> fst ` set es" for k
      by (rule sync_file_frame [OF x]) (use that nm in metis)+
    from agrees_cong [OF this] show ?thesis using Reg.prems(3) by simp
  qed
  ultimately show ?case using Reg.IH [OF s(2)] Reg.prems(2) by simp
next
  case (Dir rel name sub es)
  from Dir.prems(1) show ?case
  proof (cases rule: sync_dir_cases)
    case (complete inn s0 t1 t2)
    have wf: "wf_source sub" "wf_source es" "name \<notin> fst ` set es" "name \<notin> temporary_path ` fst ` set es"
      using Dir.prems(2) by auto
    have "agrees (rel @ [name]) sub inn"
      using Dir.prems(3) complete(1) by (auto simp: subdirectory_def split: option.splits dest_node.splits)
    with Dir.IH(1) [OF complete(2) wf(1)] have "mirrored (rel @ [name]) sub (fst t1)" by simp
    then have m: "mirrored (rel @ [name]) sub (fst t2)"
      using mirrored_cong [of sub "fst t2" "fst t1"] prune_directory_frame [OF complete(3)] by simp
    have p: "pruned (rel @ [name]) sub (fst t2)" by (rule prune_pruned [OF complete(3)])
    have n: "map_of (fst t) name = Some (DDir (fst t2))"
      using sync_entries_frame [OF complete(4), of name] wf by simp
    have "agrees rel es (put_entry name (DDir (fst t2)) (fst ds))"
    proof (subst agrees_cong [of es _ "fst ds"])
      show "map_of (put_entry name (DDir (fst t2)) (fst ds)) k = map_of (fst ds) k"
        if "k \<in> fst ` set es" for k
        using that wf(3) by (cases "k = name") simp_all
      show "agrees rel es (fst ds)" using Dir.prems(3) by simp
    qed
    with Dir.IH(2) [OF complete(4) wf(2)] m p n show ?thesis by simp
  qed simp_all
qed simp_all

lemma mirrored_entry:
  "mirrored rel es d \<Longrightarrow> map_of es n = Some node \<Longrightarrow> mirrored rel [(n, node)] d"
  by (induction es) (auto split: if_splits source_node.splits dest_node.splits option.splits)

lemma mirrored_at:
  "mirrored rel es d \<Longrightarrow> source_at es p = Some (Reg c) \<Longrightarrow> node_at d p = Some (DReg c)"
proof (induction es p arbitrary: rel d rule: source_at.induct)
  case (2 es n p)
  then obtain node where node: "map_of es n = Some node" by (cases "map_of es n") auto
  note m = mirrored_entry [OF 2(2) node]
  show ?case
  proof (cases node)
    case (Dir sub)
    then obtain d1 where d1: "map_of d n = Some (DDir d1)" "mirrored (rel @ [n]) sub d1"
      using m by (auto split: option.splits dest_node.splits)
    then show ?thesis using 2(1) [OF node Dir d1(2)] 2(3) node Dir by simp
  qed (use m 2(3) node in \<open>auto split: if_splits\<close>)
qed simp

lemma pruned_at:
  "mirrored rel es d \<Longrightarrow> pruned rel es d \<Longrightarrow> source_at es p = Some (Dir sub) \<Longrightarrow>
     node_at d (p @ [k]) = Some (DReg b) \<Longrightarrow>
     k \<in> fst ` set sub \<or> is_immutable_repository_file (rel @ p @ [k])"
proof (induction es p arbitrary: rel d rule: source_at.induct)
  case (1 es)
  then have m: "map_of d k = Some (DReg b)" by (auto split: option.splits dest_node.splits)
  then have "k \<in> set (map fst d)" by (metis map_of_eq_None_iff option.distinct(1) set_map)
  with m show ?case using 1 by (auto simp: pruned_def)
next
  case (2 es n p)
  then obtain node where node: "map_of es n = Some node" by (cases "map_of es n") auto
  then obtain sub' where dir: "node = Dir sub'" using 2(4) by (cases node) (auto split: if_splits)
  obtain d1 where d1: "map_of d n = Some (DDir d1)" "mirrored (rel @ [n]) sub' d1"
    "pruned (rel @ [n]) sub' d1"
    using mirrored_entry [OF 2(2) node] dir by (auto split: option.splits dest_node.splits)
  show ?case using 2(1) [OF node dir d1(2,3)] 2(4,5) node dir d1(1) by simp
qed

lemma sync_contents_ok:
  assumes "sync_contents root source ds = (Inr u, d', s')" and "wf_source source"
    and "agrees [] source (fst ds)"
  shows "mirrored [] source d' \<and> pruned [] source d'"
proof -
  obtain t1 t2 where 1: "read_dir ds = (Inr (), t1)" and 2: "sync_entries root [] source t1 = (Inr (), t2)"
    and 3: "prune_directory root [] (map fst source) t2 = (Inr u, d', s')"
    using assms(1) unfolding sync_contents_def by (elim bindE_InrE) auto
  have d1: "fst t1 = fst ds" using read_dir_dir [OF 1] .
  have "mirrored [] source (fst t2)" using mirror_ok [of root "[]" source t1 t2] 2 assms(2,3) d1 by simp
  moreover have "map_of d' k = map_of (fst t2) k" if "k \<in> fst ` set source" for k
    using prune_directory_frame [OF 3, of k] that by simp
  ultimately have "mirrored [] source d'" using mirrored_cong [of source d' "fst t2"] by blast
  moreover have "pruned [] source d'" using prune_pruned [of root "[]" source t2 "(d', s')"] 3 by simp
  ultimately show ?thesis by blast
qed

lemma sync_tree_ok:
  assumes "sync_repository_tree root source destination s = (Inr u, destination', s')" and "wf_source source"
    and "agrees [] source (case destination of None \<Rightarrow> [] | Some d \<Rightarrow> d)"
  shows "\<exists>d'. destination' = Some d' \<and> mirrored [] source d' \<and> pruned [] source d'"
  using assms(1)
proof (cases rule: sync_tree_cases)
  case (synced s0 d')
  then show ?thesis using sync_contents_ok [OF synced(1) assms(2)] assms(3) by simp
qed simp

text \<open>
  C17: Files of a published session are never damaged: whatever I/O fails in the middle of a sync,
  and whatever the shadow repository holds, every content-addressed file of the destination
  (operations, views, index segments, git objects and packs) is still there with its bytes.
\<close>

theorem immutable_files_survive:
  assumes "sync_repository_tree root source (Some d) s = (r, destination', s')"
    and "is_immutable_repository_file p" and "node_at d p = Some (DReg c)"
  shows "\<exists>d'. destination' = Some d' \<and> node_at d' p = Some (DReg c)"
  using sync_tree_keeps_immutable [OF assms(1)] assms(2,3) by (fastforce simp: keeps_immutable_def)

text \<open>A small repository.\<close>

definition demo_source :: "(string \<times> source_node) list" where
  "demo_source =
     [(''op_store'', Dir [(''operations'', Dir [(''ab'', Reg ''op1''), (''cd'', Reg ''op2'')])]),
      (''op_heads'', Dir [(''heads'', Dir [(''cd'', Reg [])])]), (''pipe'', Special)]"

definition demo_dest :: dest_entries where
  "demo_dest =
     [(''op_store'', DDir [(''operations'', DDir [(''ab'', DReg ''op1'')])]),
      (''op_heads'', DDir [(''heads'', DDir [(''ab'', DReg [])])])]"

definition demo_sync :: "io_fault list \<Rightarrow> sync_state" where
  "demo_sync fs = \<lparr>sy_stats = sync_stats_default, sy_dirty = [], sy_faults = fs\<rparr>"

theorem immutable_files_survive_witness:
  "\<exists>r d' s'. sync_repository_tree [''dst''] demo_source (Some demo_dest)
       (demo_sync [None, Some (Os_error 28, 0), Some (Os_error 28, 1)]) = (r, Some d', s')
     \<and> node_at d' [''op_store'', ''operations'', ''ab''] = Some (DReg ''op1'')"
proof -
  obtain r destination' s' where s: "sync_repository_tree [''dst''] demo_source (Some demo_dest)
       (demo_sync [None, Some (Os_error 28, 0), Some (Os_error 28, 1)]) = (r, destination', s')"
    by (rule prod_cases3)
  have i: "is_immutable_repository_file [''op_store'', ''operations'', ''ab'']"
    by (simp add: is_hex_def is_ascii_hexdigit_def)
  have "node_at demo_dest [''op_store'', ''operations'', ''ab''] = Some (DReg ''op1'')"
    by (simp add: demo_dest_def)
  from immutable_files_survive [OF s i this] s show ?thesis by auto
qed

text \<open>
  C18: A successful sync mirrors the repository: every regular file of the source is in the
  destination with exactly its bytes, and in every directory of the source no other file is
  left, the content-addressed ones apart. The hypotheses are what jj's store guarantees: names
  that do not look like the temporaries of others, and content addressing.
\<close>

theorem sync_mirrors:
  assumes "sync_repository_tree root source destination s = (Inr u, Some d', s')" and "wf_source source"
    and "agrees [] source (case destination of None \<Rightarrow> [] | Some d \<Rightarrow> d)"
  shows "(source_at source p = Some (Reg c) \<longrightarrow> node_at d' p = Some (DReg c))
    \<and> (source_at source p = Some (Dir sub) \<longrightarrow> node_at d' (p @ [k]) = Some (DReg b) \<longrightarrow>
         k \<in> fst ` set sub \<or> is_immutable_repository_file (p @ [k]))"
  using sync_tree_ok [OF assms] mirrored_at [of "[]" source d' p c]
    pruned_at [of "[]" source d' p sub k b] by simp

theorem sync_mirrors_witness:
  "\<exists>u d' s'. sync_repository_tree [''dst''] demo_source (Some demo_dest) (demo_sync []) = (Inr u, Some d', s')
     \<and> node_at d' [''op_heads'', ''heads'', ''cd''] = Some (DReg [])"
proof -
  have i: "is_immutable_repository_file [''op_store'', ''operations'', ''ab'']"
    "is_immutable_repository_file [''op_store'', ''operations'', ''cd'']"
    by (simp_all add: is_hex_def is_ascii_hexdigit_def)
  have wf: "wf_source demo_source" by (simp add: demo_source_def temporary_path_def)
  have ag: "agrees [] demo_source (case Some demo_dest of None \<Rightarrow> [] | Some d \<Rightarrow> d)"
    by (simp add: demo_source_def demo_dest_def)
  have "fst (sync_repository_tree [''dst''] demo_source (Some demo_dest) (demo_sync [])) = Inr ()"
    using i by (simp add: sync_repository_tree_def demo_source_def demo_dest_def demo_sync_def bindE_def
        sync_repository_file_def remove_temporary_def link_or_copy_def fs_call_def sync_fault_def
        on_stats_def mark_dirty_def count_reused_def rename_temporary_def temporary_path_def
        replace_file_def copy_file_atomic_def copy_to_temporary_def drop_entry_def read_dir_def
        prune_directory_def sync_contents_def)
  then obtain u destination' s' where
    s0: "sync_repository_tree [''dst''] demo_source (Some demo_dest) (demo_sync []) = (Inr u, destination', s')"
    by (cases "sync_repository_tree [''dst''] demo_source (Some demo_dest) (demo_sync [])") auto
  with sync_tree_ok [OF s0 wf ag] obtain d' where
    s: "sync_repository_tree [''dst''] demo_source (Some demo_dest) (demo_sync []) = (Inr u, Some d', s')"
    by blast

  show ?thesis
    using sync_mirrors [OF s wf ag, of "[''op_heads'', ''heads'', ''cd'']" "[]"] s by (auto simp: demo_source_def)
qed

end
