(* ===== verification/Directory_Sink.thy ===== *)
theory Directory_Sink
  imports Repository_Sync
begin

text \<open>
  \<open>DirectorySessionSink\<close> (\<open>crates/rrjj-sinks/src/local.rs\<close>): a spool that accepts events, and a
  session directory that a flush publishes: the repository first, then the events object, then
  the cursor and the manifest that names them.

  The session directory is a record of what it holds; its files \<open>cursor.json\<close> and \<open>manifest.json\<close>
  are their decoded contents. Every call of the file system consumes an entry of the fault script
  of the sync state, so the outcomes of an operation over all scripts include the states in which
  it may be interrupted between two calls.
\<close>

section \<open>State\<close>

record session_disk =
  sd_store :: bool
  sd_repo :: "dest_entries option"
  sd_events :: "dest_entries option"
  sd_cursor :: "sink_cursor option"
  sd_manifest :: "session_manifest option"
  sd_sync :: sync_state

record directory_sink =
  di_spool :: writer
  di_spool_path :: string
  di_session_dir :: "string list"
  di_max_spool_bytes :: u64
  di_manifest :: session_manifest
  di_spool_bytes :: u64
  di_failed :: "string option"
  di_last_sync :: "directory_sync_stats option"
  di_disk :: session_disk

type_synonym 'a disk_op = "(session_disk, io_error, 'a) op"
type_synonym 'a sink_op = "(directory_sink, sink_error, 'a) op"

text \<open>\<open>to_string\<close> of an error; \<open>io_display\<close> is the operating system's message.\<close>

definition error_message :: "(io_error \<Rightarrow> string) \<Rightarrow> sink_error \<Rightarrow> string" where
  "error_message io_display e =
     (case e of
        Serialize m \<Rightarrow> ''serialize event: '' @ m
      | Io x \<Rightarrow> ''write event stream: '' @ io_display x
      | SpoolFull u a l \<Rightarrow> ''local spool is full ('' @ show_u64 u @ '' + '' @ show_u64 a @ '' > ''
          @ show_u64 l @ '' bytes)''
      | DiskExhausted path \<Rightarrow> ''disk exhausted while writing '' @ path
      | Failed m \<Rightarrow> ''sink has failed permanently: '' @ m
      | InvalidFlush m \<Rightarrow> ''invalid flush request: '' @ m
      | InvalidConfig m \<Rightarrow> ''invalid sink configuration: '' @ m
      | CheckpointConflict m \<Rightarrow> ''checkpoint conflict: '' @ m
      | EventConflict m \<Rightarrow> ''event publication conflict: '' @ m
      | Transient m \<Rightarrow> ''transient sink failure: '' @ m)"

section \<open>Opening\<close>

record directory_fs =
  df_create_parent :: "io_error option"
  df_create_session_dir :: "io_error option"
  df_session_permissions :: "io_error option"
  df_open :: "io_error option"
  df_spool_permissions :: "io_error option"
  df_len :: "io_error + u64"
  df_spool :: bytes

definition first_error :: "io_error option list \<Rightarrow> io_error option" where
  "first_error es = find_map (\<lambda>e. e) es"

definition initial_manifest :: "string \<Rightarrow> format_metadata \<Rightarrow> session_manifest" where
  "initial_manifest session_id format =
     \<lparr>sm_session_id = session_id, sm_format = format, sm_last_seq = 0, sm_last_op = [],
      sm_events_object = None, sm_durable_seq = None, sm_durable_op = None, sm_storage = None\<rparr>"

definition directory_create ::
  "directory_fs \<Rightarrow> io_fault list \<Rightarrow> session_disk \<Rightarrow> string \<Rightarrow> string list \<Rightarrow> string \<Rightarrow> format_metadata
     \<Rightarrow> u64 \<Rightarrow> sink_error + directory_sink" where
  "directory_create fs faults disk spool_path session_dir session_id format max_spool_bytes =
     (case first_error [df_create_parent fs, df_create_session_dir fs, df_session_permissions fs,
                        df_open fs, df_spool_permissions fs] of
        Some e \<Rightarrow> Inl (Io e)
      | None \<Rightarrow>
     (case df_len fs of
        Inl e \<Rightarrow> Inl (Io e)
      | Inr spool_bytes \<Rightarrow>
          if max_spool_bytes < spool_bytes then Inl (SpoolFull spool_bytes 0 max_spool_bytes)
          else
            Inr \<lparr>di_spool = \<lparr>wr_file = df_spool fs, wr_buf = [], wr_faults = faults\<rparr>,
                 di_spool_path = spool_path, di_session_dir = session_dir,
                 di_max_spool_bytes = max_spool_bytes,
                 di_manifest = initial_manifest session_id format, di_spool_bytes = spool_bytes,
                 di_failed = None, di_last_sync = None, di_disk = disk\<rparr>))"

section \<open>Files of the session directory\<close>

definition disk_call :: "(session_disk \<Rightarrow> session_disk) \<Rightarrow> unit disk_op" where
  "disk_call change d =
     (case sync_fault (sd_sync d) of
        (None, s) \<Rightarrow> (Inr (), change (d\<lparr>sd_sync := s\<rparr>))
      | (Some (e, n), s) \<Rightarrow> (Inl e, d\<lparr>sd_sync := s\<rparr>))"

text \<open>
  Writing a file by writing a temporary one, syncing it and renaming it: only the rename changes
  the file; the directory is synced after.
\<close>

definition replace_atomically :: "(session_disk \<Rightarrow> session_disk) \<Rightarrow> unit disk_op" where
  "replace_atomically change =
     bindE (disk_call id) (\<lambda>_.
     bindE (disk_call id) (\<lambda>_.
     bindE (disk_call change) (\<lambda>_.
       disk_call id)))"

definition write_cursor :: "sink_cursor \<Rightarrow> unit disk_op" where
  "write_cursor cursor = replace_atomically (\<lambda>d. d\<lparr>sd_cursor := Some cursor\<rparr>)"

definition write_manifest_atomic :: "session_manifest \<Rightarrow> unit disk_op" where
  "write_manifest_atomic manifest =
     bindE (disk_call id) (\<lambda>_. replace_atomically (\<lambda>d. d\<lparr>sd_manifest := Some manifest\<rparr>))"

text \<open>\<open>format!("{:020}.ndjson", seq)\<close>.\<close>

definition events_name :: "u64 \<Rightarrow> string" where
  "events_name seq = pad_zero 20 (show_u64 seq) @ ''.ndjson''"

definition events_object :: "u64 \<Rightarrow> string" where
  "events_object seq = ''events/'' @ events_name seq"

section \<open>Publishing\<close>

text \<open>\<open>sync_directories\<close>: the deepest first.\<close>

fun sync_each :: "string list list \<Rightarrow> unit disk_op" where
  "sync_each [] d = (Inr (), d)"
| "sync_each (p # ps) d =
     (case disk_call id d of (Inl e, d) \<Rightarrow> (Inl e, d) | (Inr _, d) \<Rightarrow> sync_each ps d)"

definition sync_directories :: "string list list \<Rightarrow> unit disk_op" where
  "sync_directories directories = sync_each (sort_key (\<lambda>p. - int (length p)) directories)"

definition on_sync :: "(sync_state \<Rightarrow> sync_state) \<Rightarrow> unit disk_op" where
  "on_sync f d = (Inr (), d\<lparr>sd_sync := f (sd_sync d)\<rparr>)"

definition create_store :: "string list \<Rightarrow> unit disk_op" where
  "create_store session_dir d =
     (if sd_store d then (Inr (), d)
      else
        bindE (disk_call (\<lambda>d. d\<lparr>sd_store := True\<rparr>))
          (\<lambda>_. on_sync (\<lambda>s. s\<lparr>sy_dirty := bs_insert session_dir
                  (bs_insert (session_dir @ [''store'']) (sy_dirty s))\<rparr>)) d)"

definition sync_repo :: "string list \<Rightarrow> (string \<times> source_node) list \<Rightarrow> unit disk_op" where
  "sync_repo session_dir source d =
     (case sync_repository_tree (session_dir @ [''store'', ''repo'']) source (sd_repo d) (sd_sync d) of
        (r, repo, s) \<Rightarrow> (r, d\<lparr>sd_repo := repo, sd_sync := s\<rparr>))"

text \<open>The events object: copied from the spool unless it is there.\<close>

definition copy_events :: "bytes \<Rightarrow> string \<Rightarrow> unit disk_op" where
  "copy_events spool name d =
     (case copy_file_atomic spool name ((case sd_events d of Some es \<Rightarrow> es | None \<Rightarrow> []), sd_sync d) of
        (Inl e, es, s) \<Rightarrow> (Inl e, d\<lparr>sd_events := Some es, sd_sync := s\<rparr>)
      | (Inr _, es, s) \<Rightarrow> (Inr (), d\<lparr>sd_events := Some es, sd_sync := s\<rparr>))"

definition publish_events_object :: "bytes \<Rightarrow> string \<Rightarrow> unit disk_op" where
  "publish_events_object spool name =
     bindE (disk_call (\<lambda>d. d\<lparr>sd_events := Some (case sd_events d of Some es \<Rightarrow> es | None \<Rightarrow> [])\<rparr>)) (\<lambda>_ d.
       if (case sd_events d of Some es \<Rightarrow> map_of es name \<noteq> None | None \<Rightarrow> False) then (Inr (), d)
       else
         bindE (copy_events spool name) (\<lambda>_.
         bindE (disk_call id) (\<lambda>_. disk_call id)) d)"

definition durable_manifest :: "session_manifest \<Rightarrow> session_manifest" where
  "durable_manifest manifest =
     manifest\<lparr>sm_durable_seq := Some (sm_last_seq manifest), sm_durable_op := Some (sm_last_op manifest),
              sm_events_object := Some (events_object (sm_last_seq manifest))\<rparr>"

definition durable_cursor :: "session_manifest \<Rightarrow> string option \<Rightarrow> sink_cursor" where
  "durable_cursor manifest checkpoint =
     \<lparr>sc_delivered_seq = sm_durable_seq manifest, sc_delivered_op = sm_durable_op manifest,
      sc_checkpoint = checkpoint\<rparr>"

text \<open>Everything before the manifest.\<close>

definition prepare_session ::
  "string list \<Rightarrow> (string \<times> source_node) list \<Rightarrow> bytes \<Rightarrow> session_manifest \<Rightarrow> string option \<Rightarrow> unit disk_op" where
  "prepare_session session_dir source spool manifest checkpoint =
     bindE (on_sync (\<lambda>s. s\<lparr>sy_stats := sync_stats_default, sy_dirty := []\<rparr>)) (\<lambda>_.
     bindE (create_store session_dir) (\<lambda>_.
     bindE (sync_repo session_dir source) (\<lambda>_.
     bindE (\<lambda>d. sync_directories (sy_dirty (sd_sync d)) d) (\<lambda>_.
     bindE (publish_events_object spool (events_name (sm_last_seq manifest))) (\<lambda>_.
       write_cursor (durable_cursor (durable_manifest manifest) checkpoint))))))"

definition sync_directory_session ::
  "string list \<Rightarrow> (string \<times> source_node) list \<Rightarrow> bytes \<Rightarrow> session_manifest \<Rightarrow> string option
     \<Rightarrow> directory_sync_stats disk_op" where
  "sync_directory_session session_dir source spool manifest checkpoint =
     bindE (prepare_session session_dir source spool manifest checkpoint) (\<lambda>_.
     bindE (write_manifest_atomic (durable_manifest manifest)) (\<lambda>_ d.
       (Inr (sy_stats (sd_sync d)), d)))"

section \<open>The sink\<close>

definition check_failed :: "unit sink_op" where
  "check_failed s = (case di_failed s of Some m \<Rightarrow> (Inl (Failed m), s) | None \<Rightarrow> (Inr (), s))"

definition fail_io :: "(io_error \<Rightarrow> string) \<Rightarrow> io_error \<Rightarrow> directory_sink \<Rightarrow> sink_error \<times> directory_sink" where
  "fail_io io_display error s =
     (let e = (if raw_os_error error = Some 28 then DiskExhausted (di_spool_path s) else Io error)
      in (e, s\<lparr>di_failed := Some (error_message io_display e)\<rparr>))"

definition accept_event :: "event \<Rightarrow> u64 \<Rightarrow> directory_sink \<Rightarrow> directory_sink" where
  "accept_event event len s =
     (let m = (di_manifest s)\<lparr>sm_last_seq := ev_seq event\<rparr>;
          m = (case event_op event of Some op \<Rightarrow> m\<lparr>sm_last_op := op\<rparr> | None \<Rightarrow> m) in
      s\<lparr>di_spool_bytes := di_spool_bytes s + len, di_manifest := m\<rparr>)"

text \<open>The observed manifest is written at once; an error is only logged.\<close>

definition observe_manifest :: "directory_sink \<Rightarrow> directory_sink" where
  "observe_manifest s = s\<lparr>di_disk := snd (write_manifest_atomic (di_manifest s) (di_disk s))\<rparr>"

definition append_line :: "(io_error \<Rightarrow> string) \<Rightarrow> event \<Rightarrow> bytes \<Rightarrow> unit sink_op" where
  "append_line io_display event line s =
     (let len = word_of_nat (length line) in
      if di_max_spool_bytes s < di_spool_bytes s + len then
        (Inl (SpoolFull (di_spool_bytes s) len (di_max_spool_bytes s)), s)
      else
        (case append_synced line (di_spool s) of
           (Inl e, w) \<Rightarrow>
             (case fail_io io_display e (s\<lparr>di_spool := w\<rparr>) of (x, s) \<Rightarrow> (Inl x, s))
         | (Inr _, w) \<Rightarrow> (Inr (), observe_manifest (accept_event event len (s\<lparr>di_spool := w\<rparr>)))))"

definition directory_emit ::
  "(io_error \<Rightarrow> string) \<Rightarrow> (event \<Rightarrow> string + bytes) \<Rightarrow> event \<Rightarrow> unit sink_op" where
  "directory_emit io_display to_vec event =
     bindE check_failed (\<lambda>_ s.
       case to_vec event of
         Inl m \<Rightarrow> (Inl (Serialize m), s)
       | Inr b \<Rightarrow> append_line io_display event (b @ [newline]) s)"

definition directory_flush :: "unit sink_op" where
  "directory_flush =
     bindE check_failed (\<lambda>_ s.
       case flush_synced (di_spool s) of
         (Inl e, w) \<Rightarrow> (Inl (Io e), s\<lparr>di_spool := w\<rparr>)
       | (Inr _, w) \<Rightarrow> (Inr (), s\<lparr>di_spool := w\<rparr>))"

text \<open>The manifest of a flush, or the refusal of a wrong sequence number.\<close>

definition flush_manifest :: "flush_request \<Rightarrow> directory_sink \<Rightarrow> sink_error + session_manifest" where
  "flush_manifest request s =
     (if fr_last_seq request \<noteq> sm_last_seq (di_manifest s) then
        Inl (InvalidFlush (''coordinator seq '' @ show_u64 (fr_last_seq request)
          @ '' does not match spool seq '' @ show_u64 (sm_last_seq (di_manifest s))))
      else Inr ((di_manifest s)\<lparr>sm_last_op := fr_last_op request\<rparr>))"

definition publish_session ::
  "(string \<Rightarrow> (string \<times> source_node) list) \<Rightarrow> flush_request \<Rightarrow> session_manifest \<Rightarrow> unit sink_op" where
  "publish_session shadow request manifest s =
     (case sync_directory_session (di_session_dir s) (shadow (fr_shadow_root request))
             (wr_file (di_spool s)) manifest (fr_checkpoint request) (di_disk s) of
        (Inl e, d) \<Rightarrow> (Inl (Io e), s\<lparr>di_disk := d\<rparr>)
      | (Inr stats, d) \<Rightarrow>
          (Inr (), s\<lparr>di_disk := d, di_last_sync := Some stats,
             di_manifest := manifest\<lparr>sm_durable_seq := Some (fr_last_seq request),
               sm_durable_op := Some (fr_last_op request),
               sm_events_object := Some (events_object (fr_last_seq request))\<rparr>\<rparr>))"

definition directory_flush_session ::
  "(string \<Rightarrow> (string \<times> source_node) list) \<Rightarrow> flush_request \<Rightarrow> unit sink_op" where
  "directory_flush_session shadow request =
     bindE directory_flush (\<lambda>_ s.
       case flush_manifest request s of
         Inl e \<Rightarrow> (Inl e, s)
       | Inr manifest \<Rightarrow> publish_session shadow request manifest s)"

definition directory_ops ::
  "(io_error \<Rightarrow> string) \<Rightarrow> (event \<Rightarrow> string + bytes) \<Rightarrow> (string \<Rightarrow> (string \<times> source_node) list)
     \<Rightarrow> directory_sink sink_ops" where
  "directory_ops io_display to_vec shadow =
     \<lparr>so_emit = directory_emit io_display to_vec, so_flush = directory_flush,
      so_flush_session = directory_flush_session shadow\<rparr>"

section \<open>What publishing preserves\<close>

definition event_file :: "session_disk \<Rightarrow> string \<Rightarrow> dest_node option" where
  "event_file d name = (case sd_events d of Some es \<Rightarrow> map_of es name | None \<Rightarrow> None)"

text \<open>
  \<open>extends_to obj d0 d\<close>: every events object of \<open>d0\<close> but the temporary of \<open>obj\<close>, and every
  content-addressed file of its repository, is in \<open>d\<close> as it was; the manifest is the same.
\<close>

definition extends_to :: "string \<Rightarrow> session_disk \<Rightarrow> session_disk \<Rightarrow> bool" where
  "extends_to obj d0 d \<longleftrightarrow>
     (\<forall>name x. name \<noteq> temporary_path obj \<longrightarrow> event_file d0 name = Some x \<longrightarrow> event_file d name = Some x)
     \<and> (\<forall>r0. sd_repo d0 = Some r0 \<longrightarrow> (\<exists>r. sd_repo d = Some r \<and> keeps_immutable [] r0 r))
     \<and> sd_manifest d = sd_manifest d0"

lemma extends_to_refl [simp]: "extends_to obj d d"
  by (auto simp: extends_to_def)

lemma extends_to_trans:
  assumes "extends_to obj d0 d1" and "extends_to obj d1 d2"
  shows "extends_to obj d0 d2"
  unfolding extends_to_def
proof (intro conjI allI impI)
  show "event_file d2 name = Some x" if "name \<noteq> temporary_path obj" "event_file d0 name = Some x" for name x
    using assms that by (simp add: extends_to_def)
  show "\<exists>r. sd_repo d2 = Some r \<and> keeps_immutable [] r0 r" if r0: "sd_repo d0 = Some r0" for r0
  proof -
    obtain r1 where r1: "sd_repo d1 = Some r1" "keeps_immutable [] r0 r1"
      using assms(1) r0 by (auto simp: extends_to_def)
    then obtain r2 where "sd_repo d2 = Some r2" "keeps_immutable [] r1 r2"
      using assms(2) by (auto simp: extends_to_def)
    with r1 show ?thesis by (blast intro: keeps_immutable_trans)
  qed
  show "sd_manifest d2 = sd_manifest d0" using assms by (simp add: extends_to_def)
qed

text \<open>A disk operation is safe when every outcome extends the state it started from.\<close>

lemma keeps_extends:
  assumes "\<And>d r d'. m d = (r, d') \<Longrightarrow> extends_to obj d d'"
  shows "keeps (extends_to obj d0) m"
  by (rule keepsI) (use assms extends_to_trans in blast)

lemma disk_call_cases:
  assumes "disk_call change d = (r, d')"
  obtains (ok) s where "r = Inr ()" "d' = change (d\<lparr>sd_sync := s\<rparr>)"
  | (err) e s where "r = Inl e" "d' = d\<lparr>sd_sync := s\<rparr>"
  using assms by (auto simp: disk_call_def split: prod.splits option.splits)

lemma extends_same:
  "sd_events d' = sd_events d \<Longrightarrow> sd_repo d' = sd_repo d \<Longrightarrow> sd_manifest d' = sd_manifest d \<Longrightarrow>
     extends_to obj d d'"
  by (auto simp: extends_to_def event_file_def)

text \<open>Operations that change neither the events, nor the repository, nor the manifest.\<close>

definition same_files :: "session_disk \<Rightarrow> session_disk \<Rightarrow> bool" where
  "same_files d d' \<longleftrightarrow>
     sd_events d' = sd_events d \<and> sd_repo d' = sd_repo d \<and> sd_manifest d' = sd_manifest d"

lemma same_files_disk_call:
  assumes "\<And>d. same_files d (change d)" and "disk_call change d = (r, d')"
  shows "same_files d d'"
  using assms(2)
proof (cases rule: disk_call_cases)
  case (ok s)
  then show ?thesis using assms(1) [of "d\<lparr>sd_sync := s\<rparr>"] by (simp add: same_files_def)
next
  case (err e s)
  then show ?thesis by (simp add: same_files_def)
qed

lemma same_files_id: "disk_call id d = (r, d') \<Longrightarrow> same_files d d'"
  by (erule same_files_disk_call [rotated]) (simp add: same_files_def)

lemma keeps_same_files:
  assumes "\<And>d r d'. m d = (r, d') \<Longrightarrow> same_files d d'"
  shows "keeps (same_files d0) m"
  by (rule keepsI) (use assms in \<open>simp add: same_files_def\<close>)

lemma same_files_create_store: "create_store dir d = (r, d') \<Longrightarrow> same_files d d'"
proof (cases "sd_store d")
  case False
  assume c: "create_store dir d = (r, d')"
  have "keeps (same_files d) (bindE (disk_call (\<lambda>d. d\<lparr>sd_store := True\<rparr>)) (\<lambda>_. on_sync f))" for f
    by (intro keeps_bindE keeps_same_files)
      (auto simp: on_sync_def same_files_def elim!: disk_call_cases)
  note k = this
  have refl: "same_files d d" by (simp add: same_files_def)
  show ?thesis by (rule keepsD [OF k refl]) (use c False in \<open>simp add: create_store_def\<close>)
qed (simp add: create_store_def same_files_def)

lemma same_files_sync_each: "sync_each ps d = (r, d') \<Longrightarrow> same_files d d'"
proof (induction ps arbitrary: d)
  case (Cons p ps)
  obtain x d1 where x: "disk_call id d = (x, d1)" by (rule prod.exhaust)
  show ?case
    using Cons.prems x same_files_id [OF x] Cons.IH [of d1] by (cases x) (auto simp: same_files_def)
qed (simp add: same_files_def)

lemma same_files_replace:
  assumes "\<And>d. same_files d (change d)" and "replace_atomically change d = (r, d')"
  shows "same_files d d'"
proof -
  have i: "keeps (same_files d) (disk_call id)" by (rule keeps_same_files [OF same_files_id])
  have c: "keeps (same_files d) (disk_call change)"
    by (rule keeps_same_files [OF same_files_disk_call [OF assms(1)]])
  have "keeps (same_files d) (replace_atomically change)"
    unfolding replace_atomically_def by (intro keeps_bindE i c)
  from keepsD [OF this _ assms(2)] show ?thesis by (simp add: same_files_def)
qed

lemma same_files_write_cursor: "write_cursor c d = (r, d') \<Longrightarrow> same_files d d'"
  unfolding write_cursor_def by (rule same_files_replace) (simp_all add: same_files_def)

lemma write_manifest_cases:
  assumes "write_manifest_atomic m d = (r, d')"
  obtains (old) "same_files d d'" "r \<noteq> Inr ()"
  | (new) "sd_events d' = sd_events d" "sd_repo d' = sd_repo d" "sd_manifest d' = Some m"
proof -
  have "same_files d d' \<and> r \<noteq> Inr ()
    \<or> sd_events d' = sd_events d \<and> sd_repo d' = sd_repo d \<and> sd_manifest d' = Some m"
    using assms unfolding write_manifest_atomic_def replace_atomically_def
    by (cases r) (auto elim!: bindE_InlE bindE_InrE disk_call_cases simp: same_files_def)
  then show thesis using old new by blast
qed

lemma same_files_extends: "same_files d d' \<Longrightarrow> extends_to obj d d'"
  by (auto simp: same_files_def intro: extends_same)

lemma sync_repo_extends:
  assumes "sync_repo dir source d = (r, d')"
  shows "extends_to obj d d' \<and> sd_events d' = sd_events d \<and> sd_manifest d' = sd_manifest d"
proof -
  obtain repo s where t: "sync_repository_tree (dir @ [''store'', ''repo'']) source (sd_repo d) (sd_sync d)
      = (r, repo, s)" and d': "d' = d\<lparr>sd_repo := repo, sd_sync := s\<rparr>"
    using assms by (auto simp: sync_repo_def split: prod.splits)
  have "\<exists>r'. repo = Some r' \<and> keeps_immutable [] r0 r'" if r0: "sd_repo d = Some r0" for r0
    using sync_tree_keeps_immutable [of "dir @ [''store'', ''repo'']" source r0 "sd_sync d" r repo s] t r0 by simp
  then show ?thesis by (simp add: extends_to_def event_file_def d')
qed

lemma copy_events_extends:
  assumes "copy_events spool name d = (r, d')" and "event_file d name = None"
  shows "extends_to name d d' \<and> sd_repo d' = sd_repo d
    \<and> (r = Inr () \<longrightarrow> event_file d' name = Some (DReg spool))"
proof -
  let ?es = "case sd_events d of Some es \<Rightarrow> es | None \<Rightarrow> []"
  obtain x t where x: "copy_file_atomic spool name (?es, sd_sync d) = (x, t)" by (rule prod.exhaust)
  have d': "d' = d\<lparr>sd_events := Some (fst t), sd_sync := snd t\<rparr>" "r = Inr () \<Longrightarrow> \<exists>n. x = Inr n"
    using assms(1) x by (auto simp: copy_events_def split: sum.splits prod.splits)
  have st: "steps_to name spool ?es t" using copy_file_atomic_steps [OF x] by simp
  have es: "map_of ?es k = event_file d k" for k by (simp add: event_file_def split: option.splits)
  have "event_file d' k = Some y" if "k \<noteq> temporary_path name" "event_file d k = Some y" for k y
    using st that assms(2) es [of k] by (cases "k = name") (auto simp: steps_to_def d' event_file_def)
  moreover have "event_file d' name = Some (DReg spool)" if ok: "r = Inr ()"
  proof -
    obtain n where "x = Inr n" using d'(2) [OF ok] by blast
    then have "map_of (fst t) name = Some (DReg spool)"
      using x unfolding copy_file_atomic_def by (auto elim!: bindE_InrE dest!: rename_ok)
    then show ?thesis by (simp add: d' event_file_def)
  qed
  ultimately show ?thesis by (simp add: extends_to_def d')
qed

lemma same_files_two_calls:
  assumes "bindE (disk_call id) (\<lambda>_. disk_call id) d = (r, d')"
  shows "same_files d d'"
proof -
  have i: "keeps (same_files d) (disk_call id)" by (rule keeps_same_files [OF same_files_id])
  have "keeps (same_files d) (bindE (disk_call id) (\<lambda>_. disk_call id))" by (intro keeps_bindE i)
  from keepsD [OF this _ assms] show ?thesis by (simp add: same_files_def)
qed

lemma publish_events_extends:
  assumes "publish_events_object spool name d = (r, d')"
  shows "extends_to name d d' \<and> sd_repo d' = sd_repo d
    \<and> (r = Inr () \<longrightarrow> event_file d' name = (case event_file d name of None \<Rightarrow> Some (DReg spool) | x \<Rightarrow> x))"
proof -
  let ?c = "\<lambda>d. d\<lparr>sd_events := Some (case sd_events d of Some es \<Rightarrow> es | None \<Rightarrow> [])\<rparr>"
  obtain x d1 where x: "disk_call ?c d = (x, d1)" by (rule prod.exhaust)
  then have d1: "event_file d1 = event_file d" "sd_repo d1 = sd_repo d" "sd_manifest d1 = sd_manifest d"
    by (auto elim!: disk_call_cases simp: event_file_def fun_eq_iff split: option.splits)
  then have e1: "extends_to name d d1" by (auto simp: extends_to_def)
  show ?thesis
  proof (cases x)
    case (Inl e)
    then have "r = Inl e" "d' = d1" using assms x by (simp_all add: publish_events_object_def bindE_def)
    then show ?thesis using e1 d1 by simp
  next
    case (Inr u)
    show ?thesis
    proof (cases "event_file d1 name")
      case (Some y)
      then have "r = Inr ()" "d' = d1"
        using assms x Inr by (auto simp: publish_events_object_def bindE_def event_file_def split: option.splits)
      then show ?thesis using e1 d1 Some by simp
    next
      case None
      then have b: "bindE (copy_events spool name) (\<lambda>_. bindE (disk_call id) (\<lambda>_. disk_call id)) d1 = (r, d')"
        using assms x Inr
        by (simp add: publish_events_object_def bindE_def [of "disk_call ?c"] event_file_def split: option.splits)
      obtain z d2 where z: "copy_events spool name d1 = (z, d2)" by (rule prod.exhaust)
      note c = copy_events_extends [OF z None]
      have d': "same_files d2 d' \<and> (r = Inr () \<longrightarrow> z = Inr ())"
      proof (cases z)
        case (Inl e)
        then show ?thesis using b z by (simp add: bindE_def [of "copy_events spool name"] same_files_def)
      next
        case (Inr v)
        then have "bindE (disk_call id) (\<lambda>_. disk_call id) d2 = (r, d')"
          using b z by (simp add: bindE_def [of "copy_events spool name"])
        then show ?thesis using same_files_two_calls Inr by simp
      qed
      have "extends_to name d d'"
        using e1 c same_files_extends [of d2 d'] d' by (blast intro: extends_to_trans)
      then show ?thesis using c d' d1 None by (auto simp: same_files_def event_file_def)
    qed
  qed
qed

lemma on_sync_same: "on_sync f d = (r, d') \<Longrightarrow> same_files d d'"
  by (auto simp: on_sync_def same_files_def)

lemma sync_directories_same: "sync_directories ps d = (r, d') \<Longrightarrow> same_files d d'"
  unfolding sync_directories_def by (rule same_files_sync_each)

lemma prepare_extends:
  assumes "prepare_session dir source spool m checkpoint d = (r, d')"
  shows "extends_to (events_name (sm_last_seq m)) d d'"
proof -
  let ?obj = "events_name (sm_last_seq m)"
  note same = same_files_extends [where obj = ?obj]
  have "keeps (extends_to ?obj d) (prepare_session dir source spool m checkpoint)"
    unfolding prepare_session_def
  proof (intro keeps_bindE)
    show "keeps (extends_to ?obj d) (on_sync (\<lambda>s. s\<lparr>sy_stats := sync_stats_default, sy_dirty := []\<rparr>))"
      by (rule keeps_extends [OF same [OF on_sync_same]])
    show "keeps (extends_to ?obj d) (create_store dir)"
      by (rule keeps_extends [OF same [OF same_files_create_store]])
    show "keeps (extends_to ?obj d) (sync_repo dir source)"
      by (rule keeps_extends [OF sync_repo_extends [THEN conjunct1]])
    show "keeps (extends_to ?obj d) (\<lambda>d. sync_directories (sy_dirty (sd_sync d)) d)"
      by (rule keeps_extends [OF same [OF sync_directories_same]])
    show "keeps (extends_to ?obj d) (publish_events_object spool ?obj)"
      by (rule keeps_extends [OF publish_events_extends [THEN conjunct1]])
    show "keeps (extends_to ?obj d) (write_cursor (durable_cursor (durable_manifest m) checkpoint))"
      by (rule keeps_extends [OF same [OF same_files_write_cursor]])
  qed
  from keepsD [OF this _ assms] show ?thesis by simp
qed

lemma prepare_ok:
  assumes "prepare_session dir source spool m checkpoint d = (Inr u, d')"
  shows "event_file d' (events_name (sm_last_seq m))
      = (case event_file d (events_name (sm_last_seq m)) of None \<Rightarrow> Some (DReg spool) | x \<Rightarrow> x)"
    and "wf_source source \<Longrightarrow> agrees [] source (case sd_repo d of None \<Rightarrow> [] | Some r \<Rightarrow> r) \<Longrightarrow>
      \<exists>r. sd_repo d' = Some r \<and> mirrored [] source r \<and> pruned [] source r"
proof -
  obtain a1 a2 a3 a4 d1 d2 d3 d4 d5 where
    1: "on_sync (\<lambda>s. s\<lparr>sy_stats := sync_stats_default, sy_dirty := []\<rparr>) d = (Inr a1, d1)"
    and 2: "create_store dir d1 = (Inr a2, d2)" and 3: "sync_repo dir source d2 = (Inr a3, d3)"
    and 4: "sync_directories (sy_dirty (sd_sync d3)) d3 = (Inr a4, d4)"
    and 5: "publish_events_object spool (events_name (sm_last_seq m)) d4 = (Inr (), d5)"
    and 6: "write_cursor (durable_cursor (durable_manifest m) checkpoint) d5 = (Inr u, d')"
    using assms unfolding prepare_session_def by (elim bindE_InrE) auto
  note s = on_sync_same [OF 1] same_files_create_store [OF 2] sync_directories_same [OF 4]
    same_files_write_cursor [OF 6]
  have e: "event_file d4 k = event_file d k" for k
    using s sync_repo_extends [OF 3] by (simp add: same_files_def event_file_def)
  have e6: "event_file d' k = event_file d5 k" for k using s(4) by (simp add: same_files_def event_file_def)
  show "event_file d' (events_name (sm_last_seq m))
      = (case event_file d (events_name (sm_last_seq m)) of None \<Rightarrow> Some (DReg spool) | x \<Rightarrow> x)"
    using publish_events_extends [OF 5] e e6 by simp
  assume src: "wf_source source" "agrees [] source (case sd_repo d of None \<Rightarrow> [] | Some r \<Rightarrow> r)"
  have r2: "sd_repo d2 = sd_repo d" using s by (simp add: same_files_def)
  obtain repo s' where t: "sync_repository_tree (dir @ [''store'', ''repo'']) source (sd_repo d2) (sd_sync d2)
      = (Inr a3, repo, s')" "sd_repo d3 = repo"
    using 3 by (auto simp: sync_repo_def split: prod.splits)
  have "\<exists>r. repo = Some r \<and> mirrored [] source r \<and> pruned [] source r"
    by (rule sync_tree_ok [OF t(1)]) (use src r2 in simp_all)
  moreover have "sd_repo d' = repo"
    using t(2) s publish_events_extends [OF 5] by (simp add: same_files_def)
  ultimately show "\<exists>r. sd_repo d' = Some r \<and> mirrored [] source r \<and> pruned [] source r" by simp
qed

text \<open>What one publication does to the session directory, for every outcome.\<close>

definition published_step ::
  "session_manifest \<Rightarrow> bytes \<Rightarrow> session_disk \<Rightarrow> session_disk \<Rightarrow> bool" where
  "published_step m spool d d' \<longleftrightarrow>
     (let obj = events_name (sm_last_seq m) in
      (\<forall>name x. name \<noteq> temporary_path obj \<longrightarrow> event_file d name = Some x \<longrightarrow> event_file d' name = Some x)
      \<and> (\<forall>r0. sd_repo d = Some r0 \<longrightarrow> (\<exists>r. sd_repo d' = Some r \<and> keeps_immutable [] r0 r))
      \<and> (sd_manifest d' = sd_manifest d
         \<or> sd_manifest d' = Some (durable_manifest m)
           \<and> event_file d' obj = (case event_file d obj of None \<Rightarrow> Some (DReg spool) | x \<Rightarrow> x)))"

lemma publish_cases:
  assumes "sync_directory_session dir source spool m checkpoint d = (r, d')"
  obtains (failed) e where "prepare_session dir source spool m checkpoint d = (Inl e, d')" "r = Inl e"
  | (prepared) d1 x where "prepare_session dir source spool m checkpoint d = (Inr (), d1)"
      "write_manifest_atomic (durable_manifest m) d1 = (x, d')" "\<forall>stats. r = Inr stats \<longrightarrow> x = Inr ()"
proof -
  obtain y d1 where y: "prepare_session dir source spool m checkpoint d = (y, d1)" by (rule prod.exhaust)
  show thesis
  proof (cases y)
    case (Inl e)
    show thesis by (rule failed [of e]) (use assms y Inl in \<open>simp_all add: sync_directory_session_def bindE_def\<close>)
  next
    case (Inr u)
    obtain x d2 where x: "write_manifest_atomic (durable_manifest m) d1 = (x, d2)" by (rule prod.exhaust)
    have "d' = d2" "\<forall>stats. r = Inr stats \<longrightarrow> x = Inr ()"
      using assms y x Inr by (cases x; auto simp: sync_directory_session_def bindE_def)+
    then show thesis using prepared [of d1 x] y x Inr by simp
  qed
qed

lemma publish_step:
  assumes "sync_directory_session dir source spool m checkpoint d = (r, d')"
  shows "published_step m spool d d' \<and> (\<forall>stats. r = Inr stats \<longrightarrow> sd_manifest d' = Some (durable_manifest m))"
  using assms
proof (cases rule: publish_cases)
  case (failed e)
  from prepare_extends [OF failed(1)] failed(2) show ?thesis
    by (simp add: published_step_def extends_to_def)
next
  case (prepared d1 x)
  note e = prepare_extends [OF prepared(1)]
  note ok = prepare_ok(1) [OF prepared(1)]
  from prepared(2) show ?thesis
  proof (cases rule: write_manifest_cases)
    case old
    then have "event_file d' = event_file d1" "sd_repo d' = sd_repo d1" "sd_manifest d' = sd_manifest d1"
      by (simp_all add: same_files_def event_file_def fun_eq_iff)
    then show ?thesis using e old(2) prepared(3) by (simp add: published_step_def extends_to_def)
  next
    case new
    then have "event_file d' = event_file d1" by (simp add: event_file_def fun_eq_iff)
    then show ?thesis using e ok new by (simp add: published_step_def extends_to_def Let_def)
  qed
qed

section \<open>The spool is the accepted stream\<close>

lemma write_all_bytes:
  "write_all bs w = (r, w') \<Longrightarrow> r = Inr () \<Longrightarrow> wr_file w' @ wr_buf w' = wr_file w @ wr_buf w @ bs"
  by (auto dest: write_all_ok)

lemma flush_writer_bytes: "flush_writer w = (r, w') \<Longrightarrow> wr_file w' @ wr_buf w' = wr_file w @ wr_buf w"
  by (cases "wr_faults w"; cases "hd (wr_faults w)") (auto simp: writer_defs)

lemma flush_synced_bytes:
  assumes "flush_synced w = (r, w')"
  shows "wr_file w' @ wr_buf w' = wr_file w @ wr_buf w"
  using assms unfolding flush_synced_def
  by (cases r) (auto elim!: bindE_InrE bindE_InlE dest!: flush_writer_bytes sync_writer_keeps)

lemma check_failed_cases:
  assumes "bindE check_failed f s = (r, s')"
  obtains (failed) m where "di_failed s = Some m" "r = Inl (Failed m)" "s' = s"
  | (live) "di_failed s = None" "f () s = (r, s')"
  using assms by (cases "di_failed s") (auto simp: bindE_def check_failed_def)

lemma append_line_cases:
  assumes "append_line disp e line s = (r, s')"
  obtains (full) x where "r = Inl x" "s' = s"
  | (failed) x w m where "r = Inl x" "append_synced line (di_spool s) = (Inl w, di_spool s')"
      "s' = s\<lparr>di_spool := di_spool s', di_failed := Some m\<rparr>"
  | (accepted) w where "r = Inr ()" "append_synced line (di_spool s) = (Inr (), w)"
      "s' = observe_manifest (accept_event e (word_of_nat (length line)) (s\<lparr>di_spool := w\<rparr>))"
proof (cases "di_max_spool_bytes s < di_spool_bytes s + word_of_nat (length line)")
  case True
  show thesis
    by (rule full [of "SpoolFull (di_spool_bytes s) (word_of_nat (length line)) (di_max_spool_bytes s)"])
      (use assms True in \<open>auto simp: append_line_def\<close>)
next
  case False
  obtain x w where x: "append_synced line (di_spool s) = (x, w)" by (rule prod.exhaust)
  show thesis
  proof (cases x)
    case (Inl y)
    have s': "s' = s\<lparr>di_spool := w, di_failed := di_failed s'\<rparr>" "di_failed s' \<noteq> None" "\<exists>e. r = Inl e"
      using assms False x Inl by (auto simp: append_line_def fail_io_def Let_def)
    then have "di_spool s' = w" by (metis directory_sink.select_convs(1) directory_sink.surjective
          directory_sink.update_convs(1,7))
    then show thesis using failed s' x Inl by auto
  next
    case (Inr u)
    show thesis
      by (rule accepted [of w]) (use assms False x Inr in \<open>simp_all add: append_line_def\<close>)
  qed
qed

lemma observe_manifest_simps [simp]:
  "di_spool (observe_manifest s) = di_spool s" "di_failed (observe_manifest s) = di_failed s"
  "di_manifest (observe_manifest s) = di_manifest s" "di_spool_bytes (observe_manifest s) = di_spool_bytes s"
  by (simp_all add: observe_manifest_def)

lemma accept_event_simps [simp]:
  "di_spool (accept_event e n s) = di_spool s" "di_failed (accept_event e n s) = di_failed s"
  "di_disk (accept_event e n s) = di_disk s"
  "sm_last_seq (di_manifest (accept_event e n s)) = ev_seq e"
  "sm_durable_seq (di_manifest (accept_event e n s)) = sm_durable_seq (di_manifest s)"
  "sm_events_object (di_manifest (accept_event e n s)) = sm_events_object (di_manifest s)"
  by (simp_all add: accept_event_def Let_def split: option.splits)

text \<open>Unless the sink has failed, the bytes written and buffered are the lines of the events.\<close>

definition spool_is ::
  "(event \<Rightarrow> string + bytes) \<Rightarrow> directory_sink \<Rightarrow> event list \<Rightarrow> bool" where
  "spool_is to_vec s es \<longleftrightarrow>
     (di_failed s = None \<longrightarrow> wr_file (di_spool s) @ wr_buf (di_spool s) = event_lines to_vec es)"

lemma directory_emit_ok:
  assumes "directory_emit disp to_vec e s = (Inr u, s')"
  shows "di_failed s = None \<and> di_failed s' = None \<and>
    (\<exists>b. to_vec e = Inr b \<and> wr_buf (di_spool s') = []
       \<and> wr_file (di_spool s') = wr_file (di_spool s) @ wr_buf (di_spool s) @ b @ [newline])"
  using assms unfolding directory_emit_def
proof (cases rule: check_failed_cases)
  case live
  then obtain b where b: "to_vec e = Inr b" "append_line disp e (b @ [newline]) s = (Inr u, s')"
    by (auto split: sum.splits)
  from b(2) show ?thesis
    by (cases rule: append_line_cases) (use live(1) b(1) in \<open>auto dest!: append_synced_ok\<close>)
qed simp

lemma directory_emit_err:
  assumes "directory_emit disp to_vec e s = (Inl x, s')"
  shows "s' = s \<or> di_failed s' \<noteq> None"
  using assms unfolding directory_emit_def
proof (cases rule: check_failed_cases)
  case live
  show ?thesis
  proof (cases "to_vec e")
    case (Inr b)
    then have "append_line disp e (b @ [newline]) s = (Inl x, s')" using live by simp
    then show ?thesis
    proof (cases rule: append_line_cases)
      case (failed y w m)
      from failed(3) have "di_failed s' = Some m" by (metis directory_sink.select_convs(7)
            directory_sink.surjective directory_sink.update_convs(7))
      then show ?thesis by simp
    qed simp_all
  qed (use live in simp)
qed simp

lemma directory_flush_cases:
  assumes "directory_flush s = (r, s')"
  obtains (failed) m where "di_failed s = Some m" "r = Inl (Failed m)" "s' = s"
  | (err) x w where "di_failed s = None" "flush_synced (di_spool s) = (Inl x, w)" "r = Inl (Io x)"
      "s' = s\<lparr>di_spool := w\<rparr>"
  | (ok) w where "di_failed s = None" "flush_synced (di_spool s) = (Inr (), w)" "r = Inr ()"
      "s' = s\<lparr>di_spool := w\<rparr>"
  using assms unfolding directory_flush_def
proof (cases rule: check_failed_cases)
  case (failed m)
  then show thesis by (rule that(1))
next
  case live
  then show thesis using that(2,3) by (auto split: prod.splits sum.splits)
qed

lemma directory_flush_spool:
  assumes "directory_flush s = (r, s')"
  shows "s' = s\<lparr>di_spool := di_spool s'\<rparr> \<and>
    wr_file (di_spool s') @ wr_buf (di_spool s') = wr_file (di_spool s) @ wr_buf (di_spool s)"
  using assms by (cases rule: directory_flush_cases) (auto dest!: flush_synced_bytes)

lemma flush_session_cases:
  assumes "directory_flush_session shadow request s = (r, s')"
  obtains (refused) e where "r = Inl e" "s' = s\<lparr>di_spool := di_spool s'\<rparr>"
      "wr_file (di_spool s') @ wr_buf (di_spool s') = wr_file (di_spool s) @ wr_buf (di_spool s)"
  | (published) w x d where "di_failed s = None" "flush_synced (di_spool s) = (Inr (), w)"
      "fr_last_seq request = sm_last_seq (di_manifest s)"
      "sync_directory_session (di_session_dir s) (shadow (fr_shadow_root request)) (wr_file w)
         ((di_manifest s)\<lparr>sm_last_op := fr_last_op request\<rparr>) (fr_checkpoint request) (di_disk s) = (x, d)"
      "publish_session shadow request ((di_manifest s)\<lparr>sm_last_op := fr_last_op request\<rparr>)
         (s\<lparr>di_spool := w\<rparr>) = (r, s')"
proof -
  obtain y s1 where y: "directory_flush s = (y, s1)" by (rule prod.exhaust)
  note sp = directory_flush_spool [OF y]
  from y show thesis
  proof (cases rule: directory_flush_cases)
    case (ok w)
    show thesis
    proof (cases "fr_last_seq request = sm_last_seq (di_manifest s)")
      case True
      then have p: "publish_session shadow request ((di_manifest s)\<lparr>sm_last_op := fr_last_op request\<rparr>)
         (s\<lparr>di_spool := w\<rparr>) = (r, s')"
        using assms y ok by (simp add: directory_flush_session_def bindE_def flush_manifest_def)
      obtain x d where "sync_directory_session (di_session_dir s) (shadow (fr_shadow_root request)) (wr_file w)
         ((di_manifest s)\<lparr>sm_last_op := fr_last_op request\<rparr>) (fr_checkpoint request) (di_disk s) = (x, d)"
        by (rule prod.exhaust)
      from published [OF ok(1,2) True this p] show thesis .
    next
      case False
      then have "\<exists>e. r = Inl e" "s' = s1"
        using assms y ok by (auto simp: directory_flush_session_def bindE_def flush_manifest_def)
      then show thesis using refused sp by blast
    qed
  next
    case (failed m)
    then have "\<exists>e. r = Inl e" "s' = s1"
      using assms y by (auto simp: directory_flush_session_def bindE_def)
    then show thesis using refused sp by blast
  next
    case (err x w)
    then have "\<exists>e. r = Inl e" "s' = s1"
      using assms y by (auto simp: directory_flush_session_def bindE_def)
    then show thesis using refused sp by blast
  qed
qed

lemma publish_session_simps:
  assumes "publish_session shadow request m s = (r, s')"
  shows "di_spool s' = di_spool s \<and> di_failed s' = di_failed s
    \<and> di_disk s' = snd (sync_directory_session (di_session_dir s) (shadow (fr_shadow_root request))
         (wr_file (di_spool s)) m (fr_checkpoint request) (di_disk s))
    \<and> (case r of Inl _ \<Rightarrow> di_manifest s' = di_manifest s
       | Inr _ \<Rightarrow> (\<exists>stats. fst (sync_directory_session (di_session_dir s) (shadow (fr_shadow_root request))
            (wr_file (di_spool s)) m (fr_checkpoint request) (di_disk s)) = Inr stats)
          \<and> di_manifest s' = m\<lparr>sm_durable_seq := Some (fr_last_seq request),
               sm_durable_op := Some (fr_last_op request),
               sm_events_object := Some (events_object (fr_last_seq request))\<rparr>)"
  using assms by (auto simp: publish_session_def split: prod.splits sum.splits)

lemma directory_flush_session_spool:
  assumes "directory_flush_session shadow request s = (r, s')"
  shows "di_failed s' = di_failed s \<and>
    wr_file (di_spool s') @ wr_buf (di_spool s') = wr_file (di_spool s) @ wr_buf (di_spool s)"
  using assms
proof (cases rule: flush_session_cases)
  case (refused e)
  from refused(2) have "di_failed s' = di_failed s"
    by (metis directory_sink.select_convs(7) directory_sink.surjective directory_sink.update_convs(1))
  then show ?thesis using refused(3) by simp
next
  case (published w x d)
  then show ?thesis
    using publish_session_simps [OF published(5)] flush_synced_bytes [OF published(2)] by simp
qed

interpretation directory: sink_contract "directory_ops disp to_vec shadow" "spool_is to_vec"
    for disp to_vec shadow
proof unfold_locales
  show "spool_is to_vec t (es @ [e])"
    if "spool_is to_vec s es" "so_emit (directory_ops disp to_vec shadow) e s = (Inr u, t)"
    for disp to_vec shadow s es e u t
  proof -
    have "directory_emit disp to_vec e s = (Inr u, t)" using that(2) by (simp add: directory_ops_def)
    from directory_emit_ok [OF this] that(1) show ?thesis by (auto simp: spool_is_def event_line_def)
  qed
  show "spool_is to_vec t es"
    if "spool_is to_vec s es" "so_emit (directory_ops disp to_vec shadow) e s = (Inl x, t)"
    for disp to_vec shadow s es e x t
  proof -
    have "directory_emit disp to_vec e s = (Inl x, t)" using that(2) by (simp add: directory_ops_def)
    from directory_emit_err [OF this] that(1) show ?thesis by (auto simp: spool_is_def)
  qed
  show "spool_is to_vec t es"
    if "spool_is to_vec s es" "so_flush (directory_ops disp to_vec shadow) s = (r, t)"
    for disp to_vec shadow s es r t
  proof -
    have f: "directory_flush s = (r, t)" using that(2) by (simp add: directory_ops_def)
    note sp = directory_flush_spool [OF f]
    have "di_failed t = di_failed s" using f by (cases rule: directory_flush_cases) auto
    then show ?thesis using that(1) sp by (simp add: spool_is_def)
  qed
  show "spool_is to_vec t es"
    if "spool_is to_vec s es" "so_flush_session (directory_ops disp to_vec shadow) fr s = (r, t)"
    for disp to_vec shadow s es fr r t
  proof -
    have "directory_flush_session shadow fr s = (r, t)" using that(2) by (simp add: directory_ops_def)
    from directory_flush_session_spool [OF this] that(1) show ?thesis by (simp add: spool_is_def)
  qed
qed

section \<open>The published watermark is backed by its files\<close>

definition backed :: "session_manifest \<Rightarrow> session_disk \<Rightarrow> bool" where
  "backed m d \<longleftrightarrow>
     (case sm_durable_seq m of
        None \<Rightarrow> True
      | Some n \<Rightarrow> sm_events_object m = Some (events_object n) \<and> event_file d (events_name n) \<noteq> None)"

definition sink_backed :: "directory_sink \<Rightarrow> bool" where
  "sink_backed s \<longleftrightarrow>
     backed (di_manifest s) (di_disk s)
     \<and> (\<forall>m \<in> set_option (sd_manifest (di_disk s)). backed m (di_disk s))"

lemma last_append_neq: "xs \<noteq> [] \<Longrightarrow> ys \<noteq> [] \<Longrightarrow> last xs \<noteq> last ys \<Longrightarrow> a @ xs \<noteq> b @ ys"
  by (metis last_appendR)

lemma events_name_not_temporary [simp]: "events_name n \<noteq> temporary_path (events_name k)"
  unfolding events_name_def temporary_path_def
  using last_append_neq [of "''.ndjson''" "''.rrjj-sync-tmp''" "pad_zero 20 (show_u64 n)"
      "pad_zero 20 (show_u64 k) @ ''.ndjson''"]
  by simp

lemma backed_mono:
  "backed m d \<Longrightarrow> (\<And>n x. event_file d (events_name n) = Some x \<Longrightarrow> event_file d' (events_name n) \<noteq> None) \<Longrightarrow>
     backed m d'"
  by (auto simp: backed_def split: option.splits)

lemma backed_same_durable:
  "sm_durable_seq m' = sm_durable_seq m \<Longrightarrow> sm_events_object m' = sm_events_object m \<Longrightarrow>
     backed m' d = backed m d"
  by (simp add: backed_def split: option.splits)

lemma publish_backed:
  assumes "sync_directory_session dir source spool m checkpoint d = (r, d')"
  shows "(\<forall>m'. backed m' d \<longrightarrow> backed m' d')
    \<and> (sd_manifest d' = sd_manifest d \<or> sd_manifest d' = Some (durable_manifest m) \<and> backed (durable_manifest m) d')
    \<and> (\<forall>stats. r = Inr stats \<longrightarrow> sd_manifest d' = Some (durable_manifest m) \<and> backed (durable_manifest m) d')"
proof -
  note p = publish_step [OF assms]
  have keep: "event_file d' (events_name n) \<noteq> None" if "event_file d (events_name n) = Some x" for n x
    using p that by (fastforce simp: published_step_def Let_def)
  have new: "backed (durable_manifest m) d'" if "event_file d' (events_name (sm_last_seq m)) \<noteq> None"
    using that by (simp add: backed_def durable_manifest_def)
  have "event_file d' (events_name (sm_last_seq m)) \<noteq> None" if "\<exists>stats. r = Inr stats"
  proof -
    from assms that obtain d1 where p: "prepare_session dir source spool m checkpoint d = (Inr (), d1)"
      and w: "write_manifest_atomic (durable_manifest m) d1 = (Inr (), d')"
      by (cases rule: publish_cases) auto
    from w have "event_file d' = event_file d1"
      by (cases rule: write_manifest_cases) (simp_all add: event_file_def fun_eq_iff same_files_def)
    then show ?thesis using prepare_ok(1) [OF p] by (simp split: option.splits)
  qed
  then show ?thesis using p keep new by (auto simp: published_step_def Let_def intro: backed_mono split: option.splits)
qed

lemma observe_backed:
  assumes "sink_backed s"
  shows "sink_backed (observe_manifest s)"
proof -
  obtain r d where w: "write_manifest_atomic (di_manifest s) (di_disk s) = (r, d)" by (rule prod.exhaust)
  from w show ?thesis
  proof (cases rule: write_manifest_cases)
    case old
    then have "backed m d = backed m (di_disk s)" for m
      by (simp add: backed_def event_file_def same_files_def split: option.splits)
    then show ?thesis using assms w old by (simp add: sink_backed_def observe_manifest_def same_files_def)
  next
    case new
    then have "backed m d = backed m (di_disk s)" for m
      by (simp add: backed_def event_file_def split: option.splits)
    then show ?thesis using assms w new by (simp add: sink_backed_def observe_manifest_def)
  qed
qed

lemma sink_backed_cong:
  "di_disk t = di_disk s \<Longrightarrow> sm_durable_seq (di_manifest t) = sm_durable_seq (di_manifest s) \<Longrightarrow>
     sm_events_object (di_manifest t) = sm_events_object (di_manifest s) \<Longrightarrow> sink_backed t = sink_backed s"
  using backed_same_durable [of "di_manifest t" "di_manifest s"] by (simp add: sink_backed_def)

lemma emit_backed:
  assumes "directory_emit disp to_vec e s = (r, s')" and "sink_backed s"
  shows "sink_backed s'"
  using assms(1) unfolding directory_emit_def
proof (cases rule: check_failed_cases)
  case live
  show ?thesis
  proof (cases "to_vec e")
    case (Inr b)
    then have "append_line disp e (b @ [newline]) s = (r, s')" using live by simp
    then show ?thesis
    proof (cases rule: append_line_cases)
      case (failed x w m)
      have "sink_backed (s\<lparr>di_spool := di_spool s', di_failed := Some m\<rparr>) = sink_backed s"
        by (rule sink_backed_cong) simp_all
      then show ?thesis using assms(2) failed(3) by metis
    next
      case (accepted w)
      have "sink_backed (accept_event e (word_of_nat (length (b @ [newline]))) (s\<lparr>di_spool := w\<rparr>)) = sink_backed s"
        by (rule sink_backed_cong) simp_all
      then show ?thesis unfolding accepted(3) by (intro observe_backed) (use assms(2) in simp)
    qed (use assms(2) in simp)
  qed (use live assms(2) in simp)
qed (use assms(2) in simp)

lemma flush_backed:
  assumes "directory_flush s = (r, s')" and "sink_backed s"
  shows "sink_backed s'"
proof -
  have "sink_backed (s\<lparr>di_spool := di_spool s'\<rparr>) = sink_backed s" by (rule sink_backed_cong) simp_all
  then show ?thesis using directory_flush_spool [OF assms(1)] assms(2) by metis
qed

lemma flush_session_backed:
  assumes "directory_flush_session shadow request s = (r, s')" and "sink_backed s"
  shows "sink_backed s'"
  using assms(1)
proof (cases rule: flush_session_cases)
  case (refused e)
  have "sink_backed (s\<lparr>di_spool := di_spool s'\<rparr>) = sink_backed s" by (rule sink_backed_cong) simp_all
  then show ?thesis using refused(2) assms(2) by metis
next
  case (published w x d)
  let ?m = "(di_manifest s)\<lparr>sm_last_op := fr_last_op request\<rparr>"
  note b = publish_backed [OF published(4)]
  note p = publish_session_simps [OF published(5)]
  have d: "di_disk s' = d" using p published(4) by simp
  have old: "backed (di_manifest s) d" using b assms(2) by (simp add: sink_backed_def)
  have disk: "\<forall>m \<in> set_option (sd_manifest d). backed m d"
    using b assms(2) by (auto simp: sink_backed_def split: option.splits)
  have "backed (di_manifest s') d"
  proof (cases r)
    case (Inl e)
    then show ?thesis using p old by simp
  next
    case (Inr u)
    then obtain stats where "x = Inr stats" using p published(4) by auto
    then have "backed (durable_manifest ?m) d" using b by blast
    moreover have "sm_durable_seq (di_manifest s') = sm_durable_seq (durable_manifest ?m)"
      "sm_events_object (di_manifest s') = sm_events_object (durable_manifest ?m)"
      using p Inr published(3) by (simp_all add: durable_manifest_def)
    ultimately show ?thesis using backed_same_durable by metis
  qed
  then show ?thesis using disk d by (simp add: sink_backed_def)
qed

section \<open>Properties\<close>

text \<open>
  C19: Publication is crash safe. Whatever call fails (or is the last one made before a crash),
  the session directory keeps every events object and every content-addressed repository file it
  had, and its manifest is either the old one, or the new durable one; in the second case the
  events object is complete and the repository mirrors the shadow repository. A successful
  publication has the new manifest.
\<close>

theorem publish_crash_safe:
  assumes "sync_directory_session dir source spool m checkpoint d = (r, d')"
  shows "published_step m spool d d'
    \<and> (sd_manifest d' \<noteq> sd_manifest d \<longrightarrow> wf_source source \<longrightarrow>
         agrees [] source (case sd_repo d of None \<Rightarrow> [] | Some r0 \<Rightarrow> r0) \<longrightarrow>
         (\<exists>r1. sd_repo d' = Some r1 \<and> mirrored [] source r1 \<and> pruned [] source r1))
    \<and> (\<forall>stats. r = Inr stats \<longrightarrow> sd_manifest d' = Some (durable_manifest m))"
  using assms
proof (cases rule: publish_cases)
  case (failed e)
  then show ?thesis
    using publish_step [OF assms] prepare_extends [OF failed(1)] by (simp add: extends_to_def)
next
  case (prepared d1 x)
  have "sd_repo d' = sd_repo d1"
    using prepared(2) by (cases rule: write_manifest_cases) (simp_all add: same_files_def)
  then show ?thesis using publish_step [OF assms] prepare_ok(2) [OF prepared(1)] by simp
qed

definition demo_disk :: "io_fault list \<Rightarrow> session_disk" where
  "demo_disk fs =
     \<lparr>sd_store = True, sd_repo = Some demo_dest, sd_events = None, sd_cursor = None, sd_manifest = None,
      sd_sync = demo_sync fs\<rparr>"

definition demo_manifest :: session_manifest where
  "demo_manifest = initial_manifest ''s''
     \<lparr>fm_session_format = 1, fm_schema_version = 0, fm_rrjj_version = ''0'', fm_jj_lib_version = ''0'',
      fm_jj_store_version = ''0''\<rparr>"

theorem publish_crash_safe_witness:
  "\<exists>r d'. sync_directory_session [''d''] demo_source ''x'' demo_manifest None
       (demo_disk (replicate 25 None @ [Some (Os_error 28, 0)])) = (r, d')
     \<and> (\<exists>r1. sd_repo d' = Some r1 \<and> keeps_immutable [] demo_dest r1)"
proof -
  obtain r d' where s: "sync_directory_session [''d''] demo_source ''x'' demo_manifest None
       (demo_disk (replicate 25 None @ [Some (Os_error 28, 0)])) = (r, d')" by (rule prod.exhaust)
  have "sd_repo (demo_disk (replicate 25 None @ [Some (Os_error 28, 0)])) = Some demo_dest"
    by (simp add: demo_disk_def)
  with publish_crash_safe [OF s] s show ?thesis by (auto simp: published_step_def Let_def)
qed


definition demo_directory :: "io_fault list \<Rightarrow> directory_sink" where
  "demo_directory fs =
     \<lparr>di_spool = \<lparr>wr_file = [], wr_buf = [], wr_faults = fs\<rparr>, di_spool_path = ''spool'',
      di_session_dir = [''d''], di_max_spool_bytes = 100, di_manifest = demo_manifest, di_spool_bytes = 0,
      di_failed = None, di_last_sync = None, di_disk = demo_disk []\<rparr>"

definition demo_event :: "u64 \<Rightarrow> event" where
  "demo_event n = event_at ''s'' n ''t'' (Mark \<lparr>mk_label = ''l'', mk_meta = [], mk_ref_op = ''o''\<rparr>)"


lemma latched:
  assumes "di_failed s = Some m"
  shows "directory_emit disp to_vec e s = (Inl (Failed m), s)" and "directory_flush s = (Inl (Failed m), s)"
    and "directory_flush_session shadow request s = (Inl (Failed m), s)"
  using assms
  by (simp_all add: directory_emit_def directory_flush_def directory_flush_session_def bindE_def check_failed_def)

text \<open>
  C21: A write error is final: after an I/O error of an emit every later emit, flush and session
  flush fails with the message of that error and changes nothing, so that nothing is accepted
  behind a line that may be torn; ENOSPC is reported as an exhausted disk.
\<close>

theorem write_error_is_final:
  assumes "to_vec e = Inr b" and "di_failed s = None"
    and "di_spool_bytes s + word_of_nat (length (b @ [newline])) \<le> di_max_spool_bytes s"
    and "append_synced (b @ [newline]) (di_spool s) = (Inl x, w)"
  shows "\<exists>s' y. directory_emit disp to_vec e s = (Inl y, s')
    \<and> y = (if raw_os_error x = Some 28 then DiskExhausted (di_spool_path s) else Io x)
    \<and> directory_emit disp to_vec e' s' = (Inl (Failed (error_message disp y)), s')
    \<and> directory_flush s' = (Inl (Failed (error_message disp y)), s')
    \<and> directory_flush_session shadow request s' = (Inl (Failed (error_message disp y)), s')"
proof -
  let ?y = "if raw_os_error x = Some 28 then DiskExhausted (di_spool_path s) else Io x"
  let ?s = "s\<lparr>di_spool := w, di_failed := Some (error_message disp ?y)\<rparr>"
  have "directory_emit disp to_vec e s = (Inl ?y, ?s)"
    using assms
    by (simp add: directory_emit_def bindE_def check_failed_def append_line_def fail_io_def Let_def not_less)
  moreover have "di_failed ?s = Some (error_message disp ?y)" by simp
  ultimately show ?thesis using latched by blast
qed

theorem write_error_is_final_witness:
  "\<exists>s'. directory_emit (\<lambda>e. []) (\<lambda>e. Inr ''x'') (demo_event 0) (demo_directory [None, Some (Os_error 28, 1)])
      = (Inl (DiskExhausted ''spool''), s')
    \<and> directory_flush s' = (Inl (Failed ''disk exhausted while writing spool''), s')"
proof -
  let ?s = "demo_directory [None, Some (Os_error 28, 1)]"
  obtain w where w: "append_synced (''x'' @ [newline]) (di_spool ?s) = (Inl (Os_error 28), w)"
    by (simp add: demo_directory_def append_synced_def bindE_def writer_defs)
  have "di_failed ?s = None" "di_spool_bytes ?s + word_of_nat (length (''x'' @ [newline])) \<le> di_max_spool_bytes ?s"
    by (simp_all add: demo_directory_def)
  from write_error_is_final [OF _ this w, where to_vec = "\<lambda>e. Inr ''x''" and e = "demo_event 0"
      and disp = "\<lambda>e. []" and e' = "demo_event 0" and shadow = "\<lambda>p. []" and request = undefined]
  show ?thesis by (auto simp: demo_directory_def error_message_def)
qed

text \<open>
  A code bug. An events object that is already in the session directory is taken for the
  current one by its name alone. When a session directory is used again, the first session flush
  with a sequence number of an earlier session succeeds, and its manifest names the events of the
  earlier session, whatever the spool holds now.
\<close>

theorem stale_events_republished:
  assumes "event_file (di_disk s) (events_name (fr_last_seq request)) = Some x"
    and "directory_flush_session shadow request s = (Inr u, s')"
  shows "event_file (di_disk s') (events_name (fr_last_seq request)) = Some x
    \<and> (\<exists>m. sd_manifest (di_disk s') = Some m \<and> sm_durable_seq m = Some (fr_last_seq request)
        \<and> sm_events_object m = Some (events_object (fr_last_seq request)))"
  using assms(2)
proof (cases rule: flush_session_cases)
  case (published w y d)
  let ?m = "(di_manifest s)\<lparr>sm_last_op := fr_last_op request\<rparr>"
  note p = publish_session_simps [OF published(5)]
  obtain stats where y: "y = Inr stats" using p published(4) by auto
  have d: "di_disk s' = d" using p published(4) by simp
  note st = publish_step [OF published(4)]
  have "event_file d (events_name (fr_last_seq request)) = Some x"
    using st assms(1) by (auto simp: published_step_def Let_def)
  moreover have "sd_manifest d = Some (durable_manifest ?m)" using st y by blast
  ultimately show ?thesis using d published(3) by (simp add: durable_manifest_def)
qed simp

definition demo_reused :: directory_sink where
  "demo_reused = (demo_directory [])\<lparr>di_disk := (demo_disk [])\<lparr>sd_events := Some [(events_name 0, DReg ''old'')]\<rparr>,
     di_spool := \<lparr>wr_file = ''new'', wr_buf = [], wr_faults = []\<rparr>\<rparr>"

definition demo_flush :: flush_request where
  "demo_flush = \<lparr>fr_shadow_root = ''/x'', fr_last_seq = 0, fr_last_op = ''o'', fr_checkpoint = None\<rparr>"

theorem stale_events_republished_witness:
  "\<exists>u s'. directory_flush_session (\<lambda>p. []) demo_flush demo_reused = (Inr u, s')
     \<and> wr_file (di_spool s') = ''new'' \<and> event_file (di_disk s') (events_name 0) = Some (DReg ''old'')"
proof -
  have "fst (directory_flush_session (\<lambda>p. []) demo_flush demo_reused) = Inr ()
    \<and> wr_file (di_spool (snd (directory_flush_session (\<lambda>p. []) demo_flush demo_reused))) = ''new''"
    by (simp add: directory_flush_session_def bindE_def directory_flush_def check_failed_def demo_reused_def
        demo_directory_def demo_disk_def demo_sync_def demo_flush_def flush_manifest_def demo_manifest_def
        initial_manifest_def publish_session_def sync_directory_session_def prepare_session_def on_sync_def
        create_store_def sync_repo_def sync_repository_tree_def sync_contents_def read_dir_def fs_call_def
        sync_fault_def prune_directory_def demo_dest_def sync_directories_def publish_events_object_def
        disk_call_def write_cursor_def replace_atomically_def write_manifest_atomic_def flush_synced_def
        writer_defs)
  then obtain u s' where s: "directory_flush_session (\<lambda>p. []) demo_flush demo_reused = (Inr u, s')"
    and f: "wr_file (di_spool s') = ''new''"
    by (cases "directory_flush_session (\<lambda>p. []) demo_flush demo_reused") auto
  have "event_file (di_disk demo_reused) (events_name (fr_last_seq demo_flush)) = Some (DReg ''old'')"
    by (simp add: demo_reused_def event_file_def demo_flush_def)
  from stale_events_republished [OF this s] s f show ?thesis by (auto simp: demo_flush_def)
qed

end
