(* ===== verification/Reader.thy ===== *)
theory Reader
  imports Directory_Sink Recorder Fs_Path
begin

text \<open>
  The session reader (\<open>crates/rrjj-reader/src/lib.rs\<close>): the timeline parser, opening a published
  session, its index, the inspection of operations and trees, diffs and materialisation.

  \<open>serde_json\<close>, \<open>jj_lib\<close> and the file system are parameters: a file is its bytes and the error
  that ends it, if any; handles of \<open>jj_lib\<close> (loader, operation, repository, commit id, commit) are
  of one opaque type.
\<close>

section \<open>Errors\<close>

text \<open>
  \<open>ReadError\<close>. The last constructor is not in the source: it stands for the panic of slicing a
  string inside a character.
\<close>

datatype read_error =
    Read_io io_error
  | Json nat string
  | Version nat u8
  | Sequence nat u64 u64
  | Session_changed nat string string
  | Missing_manifest
  | Incompatible u32 u8
  | Not_durable
  | Beyond_watermark u64 u64
  | Unknown_operation string
  | Unknown_tree string
  | Invalid_object_id string
  | Repository_error string
  | Destination_inside_session
  | Destination_not_empty "string list"
  | Slice_panic

section \<open>Lines of text\<close>

text \<open>
  The number of bytes of the first character of a UTF-8 text, as \<open>core::str::from_utf8\<close> accepts
  it.
\<close>

definition continuation :: "char \<Rightarrow> bool" where
  "continuation c \<longleftrightarrow> 0x80 \<le> (of_char c :: nat) \<and> (of_char c :: nat) < 0xC0"

definition utf8_char :: "bytes \<Rightarrow> nat option" where
  "utf8_char s =
     (case s of
        [] \<Rightarrow> None
      | c # t \<Rightarrow>
          (let b = (of_char c :: nat);
               second = (case t of [] \<Rightarrow> 0 | d # _ \<Rightarrow> (of_char d :: nat));
               follow = (\<lambda>n. n \<le> length t \<and> list_all continuation (take n t)) in
           if b < 0x80 then Some 1
           else if 0xC2 \<le> b \<and> b \<le> 0xDF then (if follow 1 then Some 2 else None)
           else if 0xE0 \<le> b \<and> b \<le> 0xEF then
             (if follow 2 \<and> (b = 0xE0 \<longrightarrow> 0xA0 \<le> second) \<and> (b = 0xED \<longrightarrow> second \<le> 0x9F)
              then Some 3 else None)
           else if 0xF0 \<le> b \<and> b \<le> 0xF4 then
             (if follow 3 \<and> (b = 0xF0 \<longrightarrow> 0x90 \<le> second) \<and> (b = 0xF4 \<longrightarrow> second \<le> 0x8F)
              then Some 4 else None)
           else None))"

lemma utf8_char_pos: "utf8_char s = Some n \<Longrightarrow> 0 < n \<and> s \<noteq> []"
  by (auto simp: utf8_char_def Let_def split: list.splits if_splits)

function utf8_valid :: "bytes \<Rightarrow> bool" where
  "utf8_valid s =
     (if s = [] then True
      else case utf8_char s of None \<Rightarrow> False | Some n \<Rightarrow> utf8_valid (drop n s))"
  by pat_completeness auto
termination
  by (relation "measure length") (auto dest!: utf8_char_pos)

declare utf8_valid.simps [simp del]

text \<open>The bytes of a leading white space character (\<open>char::is_whitespace\<close>), or 0.\<close>

definition white_char :: "bytes \<Rightarrow> nat" where
  "white_char s =
     (case map (of_char :: char \<Rightarrow> nat) (take 3 s) of
        [] \<Rightarrow> 0
      | a # t \<Rightarrow>
          if 9 \<le> a \<and> a \<le> 13 \<or> a = 32 then 1
          else
            (case t of
               [] \<Rightarrow> 0
             | b # u \<Rightarrow>
                 if a = 0xC2 \<and> (b = 0x85 \<or> b = 0xA0) then 2
                 else
                   (case u of
                      [] \<Rightarrow> 0
                    | c # _ \<Rightarrow>
                        if a = 0xE1 \<and> b = 0x9A \<and> c = 0x80
                          \<or> a = 0xE2 \<and> b = 0x80 \<and> (0x80 \<le> c \<and> c \<le> 0x8A \<or> c = 0xA8 \<or> c = 0xA9 \<or> c = 0xAF)
                          \<or> a = 0xE2 \<and> b = 0x81 \<and> c = 0x9F
                          \<or> a = 0xE3 \<and> b = 0x80 \<and> c = 0x80
                        then 3 else 0)))"

text \<open>\<open>line.trim().is_empty()\<close>.\<close>

function is_blank :: "bytes \<Rightarrow> bool" where
  "is_blank s =
     (if s = [] then True else if white_char s = 0 then False else is_blank (drop (white_char s) s))"
  by pat_completeness auto
termination
  by (relation "measure length") auto

declare is_blank.simps [simp del]

text \<open>
  \<open>BufRead::lines\<close>: each line without its line break and without a carriage return before it; a
  last line without line break; an error in place of the line it interrupts.
\<close>

record file_content =
  fc_bytes :: bytes
  fc_error :: "io_error option"

definition chomp :: "bytes \<Rightarrow> bytes" where
  "chomp l = (if l \<noteq> [] \<and> last l = CHR 0x0D then butlast l else l)"

fun lines_of :: "bytes list \<Rightarrow> io_error option \<Rightarrow> (io_error + bytes) list" where
  "lines_of [] err = []"
| "lines_of [l] err =
     (case err of Some e \<Rightarrow> [Inl e] | None \<Rightarrow> if l = [] then [] else [Inr l])"
| "lines_of (l # ls) err = Inr (chomp l) # lines_of ls err"

definition file_lines :: "file_content \<Rightarrow> (io_error + bytes) list" where
  "file_lines f = lines_of (split_on newline (fc_bytes f)) (fc_error f)"

text \<open>The error of \<open>read_line\<close> on a line that is not UTF-8.\<close>

definition line_text :: "io_error + bytes \<Rightarrow> read_error + bytes" where
  "line_text line =
     (case line of
        Inl e \<Rightarrow> Inl (Read_io e)
      | Inr l \<Rightarrow>
          if utf8_valid l then Inr l
          else Inl (Read_io (Custom_io ''stream did not contain valid UTF-8'')))"

section \<open>The timeline\<close>

definition check_event :: "nat \<Rightarrow> event list \<Rightarrow> string option \<Rightarrow> event \<Rightarrow> read_error + unit" where
  "check_event line_number events session_id event =
     (if ev_v event \<noteq> SCHEMA_VERSION then Inl (Version line_number (ev_v event))
      else if ev_seq event \<noteq> word_of_nat (length events) then
        Inl (Sequence line_number (word_of_nat (length events)) (ev_seq event))
      else
        (case session_id of
           Some expected \<Rightarrow>
             if expected \<noteq> ev_session_id event then
               Inl (Session_changed line_number expected (ev_session_id event))
             else Inr ()
         | None \<Rightarrow> Inr ()))"

fun timeline_loop ::
  "(bytes \<Rightarrow> string + event) \<Rightarrow> nat \<Rightarrow> event list \<Rightarrow> string option \<Rightarrow> (io_error + bytes) list
     \<Rightarrow> read_error + event list" where
  "timeline_loop from_str index events session_id [] = Inr events"
| "timeline_loop from_str index events session_id (item # items) =
     (case line_text item of
        Inl e \<Rightarrow> Inl e
      | Inr line \<Rightarrow>
          if is_blank line then timeline_loop from_str (Suc index) events session_id items
          else
            (case from_str line of
               Inl m \<Rightarrow> Inl (Json (index + 1) m)
             | Inr event \<Rightarrow>
                 (case check_event (index + 1) events session_id event of
                    Inl e \<Rightarrow> Inl e
                  | Inr _ \<Rightarrow>
                      timeline_loop from_str (Suc index) (events @ [event])
                        (Some (ev_session_id event)) items)))"

definition timeline_read :: "(bytes \<Rightarrow> string + event) \<Rightarrow> file_content \<Rightarrow> read_error + event list" where
  "timeline_read from_str f = timeline_loop from_str 0 [] None (file_lines f)"

definition timeline_event :: "event list \<Rightarrow> u64 \<Rightarrow> event option" where
  "timeline_event events seq = (if unat seq < length events then Some (events ! unat seq) else None)"

section \<open>Sessions\<close>

record session =
  rs_root :: "string list"
  rs_manifest :: session_manifest
  rs_timeline :: "event list"

record reader_env =
  re_read_manifest :: "string list \<Rightarrow> io_error + bytes"
  re_parse_manifest :: "bytes \<Rightarrow> string + session_manifest"
  re_open :: "string list \<Rightarrow> string \<Rightarrow> io_error + file_content"
  re_from_str :: "bytes \<Rightarrow> string + event"

text \<open>The manifest of a session directory, if it is there, compatible and durable.\<close>

definition read_manifest :: "reader_env \<Rightarrow> string list \<Rightarrow> read_error + session_manifest" where
  "read_manifest env root =
     (case re_read_manifest env root of
        Inl e \<Rightarrow> Inl (if io_not_found e then Missing_manifest else Read_io e)
      | Inr bs \<Rightarrow>
     (case re_parse_manifest env bs of
        Inl m \<Rightarrow> Inl (Json 0 m)
      | Inr manifest \<Rightarrow>
          if \<not> is_compatible manifest then
            Inl (Incompatible (fm_session_format (sm_format manifest)) (fm_schema_version (sm_format manifest)))
          else Inr manifest))"

text \<open>The events object of a manifest, read and compared with its watermark.\<close>

definition last_seq :: "event list \<Rightarrow> u64 option" where
  "last_seq events = (if events = [] then None else Some (ev_seq (last events)))"

definition read_events :: "reader_env \<Rightarrow> string list \<Rightarrow> session_manifest \<Rightarrow> u64 \<Rightarrow> read_error + event list" where
  "read_events env root manifest durable =
     (case re_open env root
             (case sm_events_object manifest of Some p \<Rightarrow> p | None \<Rightarrow> ''events/000000.ndjson'') of
        Inl e \<Rightarrow> Inl (Read_io e)
      | Inr f \<Rightarrow>
     (case timeline_read (re_from_str env) f of
        Inl e \<Rightarrow> Inl e
      | Inr events \<Rightarrow>
          if last_seq events \<noteq> Some durable then
            Inl (Beyond_watermark (case last_seq events of Some n \<Rightarrow> n | None \<Rightarrow> 0) durable)
          else Inr events))"

definition session_open :: "reader_env \<Rightarrow> string list \<Rightarrow> read_error + session" where
  "session_open env root =
     (case read_manifest env root of
        Inl e \<Rightarrow> Inl e
      | Inr manifest \<Rightarrow>
     (case sm_durable_seq manifest of
        None \<Rightarrow> Inl Not_durable
      | Some durable \<Rightarrow>
     (case read_events env root manifest durable of
        Inl e \<Rightarrow> Inl e
      | Inr events \<Rightarrow> Inr \<lparr>rs_root = root, rs_manifest = manifest, rs_timeline = events\<rparr>)))"

definition session_event :: "session \<Rightarrow> u64 \<Rightarrow> read_error + event" where
  "session_event s seq =
     (case sm_durable_seq (rs_manifest s) of
        None \<Rightarrow> Inl Not_durable
      | Some durable \<Rightarrow>
          if durable < seq then Inl (Beyond_watermark seq durable)
          else
            (case timeline_event (rs_timeline s) seq of
               Some event \<Rightarrow> Inr event
             | None \<Rightarrow> Inl (Beyond_watermark seq durable)))"

section \<open>Index and inspection\<close>

record timeline_entry =
  te_seq :: u64
  te_timestamp :: string
  te_kind :: string
  te_op :: "string option"
  te_tree :: "string option"

record operation_info =
  oi_seq :: u64
  oi_op :: string
  oi_parent_op :: "string option"
  oi_commit :: "string option"
  oi_tree :: string

fun entry_fields :: "event_body \<Rightarrow> string \<times> string option \<times> string option" where
  "entry_fields (Session_start v) = (''session_start'', Some (ss_baseline_op v), Some (ss_baseline_tree v))"
| "entry_fields (Snapshot v) = (''snapshot'', Some (sn_op v), Some (sn_tree v))"
| "entry_fields (Touched_paths v) = (''touched_paths'', None, None)"
| "entry_fields (Mark v) = (''mark'', Some (mk_ref_op v), None)"
| "entry_fields (Flush v) = (''flush'', Some (fl_op v), None)"
| "entry_fields (Session_end v) = (''session_end'', Some (se_final_op v), None)"
| "entry_fields (Error v) = (''error'', None, None)"
| "entry_fields (Overflow v) = (''overflow'', None, None)"

definition index_entry :: "event \<Rightarrow> timeline_entry" where
  "index_entry event =
     (case entry_fields (ev_body event) of
        (kind, op, tree) \<Rightarrow>
          \<lparr>te_seq = ev_seq event, te_timestamp = ev_ts event, te_kind = kind, te_op = op, te_tree = tree\<rparr>)"

definition session_index :: "session \<Rightarrow> timeline_entry list" where
  "session_index s = map index_entry (rs_timeline s)"

definition operation_of :: "string \<Rightarrow> event \<Rightarrow> operation_info option" where
  "operation_of op event =
     (case ev_body event of
        Session_start v \<Rightarrow>
          if ss_baseline_op v = op then
            Some \<lparr>oi_seq = ev_seq event, oi_op = ss_baseline_op v, oi_parent_op = None,
                  oi_commit = None, oi_tree = ss_baseline_tree v\<rparr>
          else None
      | Snapshot v \<Rightarrow>
          if sn_op v = op then
            Some \<lparr>oi_seq = ev_seq event, oi_op = sn_op v, oi_parent_op = Some (sn_parent_op v),
                  oi_commit = Some (sn_commit v), oi_tree = sn_tree v\<rparr>
          else None
      | _ \<Rightarrow> None)"

definition inspect_operation :: "session \<Rightarrow> string \<Rightarrow> read_error + operation_info" where
  "inspect_operation s op =
     (case find_map (operation_of op) (rs_timeline s) of
        Some info \<Rightarrow> Inr info
      | None \<Rightarrow> Inl (Unknown_operation op))"

definition inspect_tree :: "session \<Rightarrow> string \<Rightarrow> read_error + operation_info" where
  "inspect_tree s tree =
     (case (case find (\<lambda>entry. te_tree entry = Some tree) (session_index s) of
              Some entry \<Rightarrow> te_op entry | None \<Rightarrow> None) of
        Some op \<Rightarrow> inspect_operation s op
      | None \<Rightarrow> Inl (Unknown_tree tree))"

section \<open>Diffs\<close>

record tree_diff =
  td_path :: string
  td_before :: "string option"
  td_after :: "string option"

text \<open>\<open>jj_lib\<close> at the session's \<open>store/repo\<close>; its handles are of the type \<open>'h\<close>.\<close>

record 'h reader_jj =
  rj_loader :: "string list \<Rightarrow> string + 'h"
  rj_load_operation :: "'h \<Rightarrow> bytes \<Rightarrow> string + 'h"
  rj_load_at :: "'h \<Rightarrow> 'h \<Rightarrow> string + 'h"
  rj_wc_commit_id :: "'h \<Rightarrow> 'h option"
  rj_get_commit :: "'h \<Rightarrow> 'h \<Rightarrow> string + 'h"
  rj_diff :: "'h \<Rightarrow> 'h \<Rightarrow> diff_entry list"

text \<open>
  \<open>u8::from_str_radix(_, 16)\<close> of a string of two bytes: a sign may come first, and a string that
  cuts a character panics.
\<close>

definition hex_value :: "char \<Rightarrow> nat option" where
  "hex_value c =
     (if is_ascii_hexdigit c then
        Some (let n = (of_char (to_ascii_lowercase c) :: nat) in if n < 97 then n - 48 else n - 87)
      else None)"

definition from_hex_pair :: "char \<Rightarrow> char \<Rightarrow> char option" where
  "from_hex_pair a b =
     (case hex_value b of
        None \<Rightarrow> None
      | Some y \<Rightarrow>
          if a = CHR ''+'' then Some (char_of y)
          else (case hex_value a of None \<Rightarrow> None | Some x \<Rightarrow> Some (char_of (16 * x + y))))"

definition split_colon :: "string \<Rightarrow> string" where
  "split_colon value =
     (let rest = dropWhile (\<lambda>c. c \<noteq> CHR '':'') value in if rest = [] then value else tl rest)"

fun decode_pairs :: "string \<Rightarrow> string \<Rightarrow> read_error + bytes" where
  "decode_pairs value (a # b # hex) =
     (if (case hex of c # _ \<Rightarrow> continuation c | [] \<Rightarrow> False) then Inl Slice_panic
      else
        (case from_hex_pair a b of
           None \<Rightarrow> Inl (Invalid_object_id value)
         | Some byte \<Rightarrow>
             (case decode_pairs value hex of Inl e \<Rightarrow> Inl e | Inr bs \<Rightarrow> Inr (byte # bs))))"
| "decode_pairs value _ = Inr []"

definition decode_id :: "string \<Rightarrow> read_error + bytes" where
  "decode_id value =
     (let hex = split_colon value in
      if length hex mod 2 \<noteq> 0 then Inl (Invalid_object_id value) else decode_pairs value hex)"

text \<open>The value of a fallible call of \<open>jj_lib\<close>, and the rest of the function.\<close>

definition repository :: "string + 'a \<Rightarrow> ('a \<Rightarrow> read_error + 'b) \<Rightarrow> read_error + 'b" where
  "repository r k = (case r of Inl m \<Rightarrow> Inl (Repository_error m) | Inr x \<Rightarrow> k x)"

definition and_then :: "read_error + 'a \<Rightarrow> ('a \<Rightarrow> read_error + 'b) \<Rightarrow> read_error + 'b" where
  "and_then r k = (case r of Inl e \<Rightarrow> Inl e | Inr x \<Rightarrow> k x)"

definition load_repo_at :: "'h reader_jj \<Rightarrow> 'h \<Rightarrow> string \<Rightarrow> read_error + 'h" where
  "load_repo_at jj loader op =
     and_then (decode_id op) (\<lambda>bytes.
     repository (rj_load_operation jj loader bytes) (\<lambda>operation.
     repository (rj_load_at jj loader operation) Inr))"

definition wc_commit :: "'h reader_jj \<Rightarrow> 'h \<Rightarrow> read_error + 'h" where
  "wc_commit jj repo =
     (case rj_wc_commit_id jj repo of
        None \<Rightarrow> Inl (Repository_error ''operation has no rrjj working-copy commit'')
      | Some i \<Rightarrow> repository (rj_get_commit jj repo i) Inr)"

definition store_repo :: "session \<Rightarrow> string list" where
  "store_repo s = rs_root s @ [''store'', ''repo'']"

definition resolved :: "merged_value \<Rightarrow> read_error + tree_value option" where
  "resolved value =
     (case value of
        Some v \<Rightarrow> Inr v
      | None \<Rightarrow> Inl (Repository_error ''conflicted tree cannot be diffed''))"

fun value_id :: "tree_value option \<Rightarrow> string option" where
  "value_id (Some (File i _)) = Some i"
| "value_id (Some (Symlink i)) = Some i"
| "value_id (Some (Tree i)) = Some i"
| "value_id (Some (Git_submodule i)) = Some i"
| "value_id None = None"

definition diff_change :: "diff_entry \<Rightarrow> read_error + tree_diff" where
  "diff_change entry =
     repository (de_values entry) (\<lambda>(before, after).
     and_then (resolved before) (\<lambda>b.
     and_then (resolved after) (\<lambda>a.
       Inr \<lparr>td_path = de_path entry, td_before = value_id b, td_after = value_id a\<rparr>)))"

fun collect_changes :: "diff_entry list \<Rightarrow> read_error + tree_diff list" where
  "collect_changes [] = Inr []"
| "collect_changes (entry # entries) =
     and_then (diff_change entry) (\<lambda>c. and_then (collect_changes entries) (\<lambda>cs. Inr (c # cs)))"

definition session_diff :: "'h reader_jj \<Rightarrow> session \<Rightarrow> string \<Rightarrow> string \<Rightarrow> read_error + tree_diff list" where
  "session_diff jj s before_op after_op =
     and_then (inspect_operation s before_op) (\<lambda>_.
     and_then (inspect_operation s after_op) (\<lambda>_.
     repository (rj_loader jj (store_repo s)) (\<lambda>loader.
     and_then (load_repo_at jj loader before_op) (\<lambda>before.
     and_then (load_repo_at jj loader after_op) (\<lambda>after.
     and_then (wc_commit jj before) (\<lambda>before_commit.
     and_then (wc_commit jj after) (\<lambda>after_commit.
       collect_changes (rj_diff jj before_commit after_commit))))))))"

section \<open>Materialisation\<close>

text \<open>
  The file system and the working copy of a materialisation, over an opaque world \<open>'w\<close>: what the
  destination is, the directories that are created, and the check-out of a commit.
\<close>

record ('h, 'w) materialize_env =
  me_canonicalize :: "'w \<Rightarrow> string list \<Rightarrow> io_error + string list"
  me_current_dir :: "io_error + string list"
  me_exists :: "'w \<Rightarrow> string list \<Rightarrow> bool"
  me_is_dir :: "'w \<Rightarrow> string list \<Rightarrow> bool"
  me_has_entries :: "'w \<Rightarrow> string list \<Rightarrow> io_error + bool"
  me_create_dir_all :: "string list \<Rightarrow> ('w, io_error, unit) op"
  me_tempdir :: "('w, io_error, string) op"
  me_check_out :: "string list \<Rightarrow> string \<Rightarrow> 'h \<Rightarrow> 'h \<Rightarrow> ('w, string, unit) op"

text \<open>The tests of the destination, before anything is read from the repository.\<close>

definition prepare_destination ::
  "('h, 'w) materialize_env \<Rightarrow> string list \<Rightarrow> ('w, read_error, unit) op" where
  "prepare_destination env destination w =
     (if me_exists env w destination then
        (if \<not> me_is_dir env w destination then (Inl (Destination_not_empty destination), w)
         else
           (case me_has_entries env w destination of
              Inl e \<Rightarrow> (Inl (Read_io e), w)
            | Inr True \<Rightarrow> (Inl (Destination_not_empty destination), w)
            | Inr False \<Rightarrow> (Inr (), w)))
      else
        (case me_create_dir_all env destination w of
           (Inl e, w) \<Rightarrow> (Inl (Read_io e), w)
         | (Inr _, w) \<Rightarrow> (Inr (), w)))"

definition check_destination ::
  "('h, 'w) materialize_env \<Rightarrow> session \<Rightarrow> fs_path \<Rightarrow> ('w, read_error, string list) op" where
  "check_destination env s destination w =
     (case me_canonicalize env w (rs_root s) of
        Inl e \<Rightarrow> (Inl (Read_io e), w)
      | Inr root \<Rightarrow>
     (case absolute (me_current_dir env) destination of
        Inl e \<Rightarrow> (Inl (Read_io e), w)
      | Inr path \<Rightarrow>
          if path_starts_with path root then (Inl Destination_inside_session, w)
          else
            (case prepare_destination env path w of
               (Inl e, w) \<Rightarrow> (Inl e, w)
             | (Inr _, w) \<Rightarrow> (Inr path, w))))"

definition check_out_commit ::
  "('h, 'w) materialize_env \<Rightarrow> string list \<Rightarrow> 'h \<Rightarrow> 'h \<Rightarrow> ('w, read_error, unit) op" where
  "check_out_commit env path repo commit w =
     (case me_tempdir env w of
        (Inl e, w) \<Rightarrow> (Inl (Read_io e), w)
      | (Inr state, w) \<Rightarrow>
          (case me_check_out env path state repo commit w of
             (Inl m, w) \<Rightarrow> (Inl (Repository_error m), w)
           | (Inr _, w) \<Rightarrow> (Inr (), w)))"

definition materialize ::
  "'h reader_jj \<Rightarrow> ('h, 'w) materialize_env \<Rightarrow> session \<Rightarrow> string \<Rightarrow> fs_path \<Rightarrow> ('w, read_error, unit) op" where
  "materialize jj env s op destination =
     bindE (\<lambda>w. (inspect_operation s op, w)) (\<lambda>_.
     bindE (check_destination env s destination) (\<lambda>path.
     bindE (\<lambda>w. (repository (rj_loader jj (store_repo s)) (\<lambda>loader. load_repo_at jj loader op), w)) (\<lambda>repo.
     bindE (\<lambda>w. (wc_commit jj repo, w)) (\<lambda>commit.
       check_out_commit env path repo commit))))"

section \<open>What the timeline parser accepts\<close>

text \<open>Whatever it returns is one session's stream, numbered from zero.\<close>

lemma timeline_loop_sound:
  assumes "timeline_loop fs i events sid items = Inr es"
    and "case sid of None \<Rightarrow> events = [] | Some x \<Rightarrow> stream_ok x SCHEMA_VERSION events"
  shows "\<exists>x. stream_ok x SCHEMA_VERSION es"
  using assms
proof (induction items arbitrary: i events sid)
  case Nil
  then show ?case by (auto split: option.splits)
next
  case (Cons item items)
  show ?case
  proof (cases "line_text item")
    case (Inr line)
    show ?thesis
    proof (cases "is_blank line")
      case True
      then show ?thesis using Cons Inr by simp
    next
      case False
      then obtain event where ev: "fs line = Inr event" "check_event (i + 1) events sid event = Inr ()"
        "timeline_loop fs (Suc i) (events @ [event]) (Some (ev_session_id event)) items = Inr es"
        using Cons.prems(1) Inr by (auto split: sum.splits)
      have "stream_ok (ev_session_id event) SCHEMA_VERSION (events @ [event])"
        using ev(2) Cons.prems(2) by (auto simp: check_event_def split: option.splits if_splits)
      then show ?thesis using Cons.IH [OF ev(3)] by simp
    qed
  qed (use Cons.prems in simp)
qed

lemma timeline_read_sound: "timeline_read fs f = Inr es \<Longrightarrow> \<exists>x. stream_ok x SCHEMA_VERSION es"
  unfolding timeline_read_def by (erule timeline_loop_sound) simp

text \<open>
  What \<open>serde_json\<close> documents of an encoded struct, beyond \<open>codec_ok\<close>: it is UTF-8 and starts and
  ends with a brace.
\<close>

definition text_codec_ok ::
  "(event \<Rightarrow> string + bytes) \<Rightarrow> (bytes \<Rightarrow> string + event) \<Rightarrow> event \<Rightarrow> bool" where
  "text_codec_ok to_vec from_str e \<longleftrightarrow>
     codec_ok to_vec from_str e
     \<and> (case to_vec e of
          Inl _ \<Rightarrow> False
        | Inr b \<Rightarrow> utf8_valid b \<and> hd b = CHR 0x7B \<and> last b = CHR 0x7D)"

lemma text_codecE:
  assumes "text_codec_ok tv fs e"
  obtains b where "tv e = Inr b" "b \<noteq> []" "newline \<notin> set b" "fs b = Inr e" "utf8_valid b"
    "\<not> is_blank b" "chomp b = b" "event_line tv e = b @ [newline]"
proof -
  from assms obtain b where b: "tv e = Inr b" "b \<noteq> []" "newline \<notin> set b" "fs b = Inr e" "utf8_valid b"
    "hd b = CHR 0x7B" "last b = CHR 0x7D"
    by (auto simp: text_codec_ok_def codec_ok_def split: sum.splits)
  from b(2,6) have "white_char b = 0"
    by (cases b) (auto simp: white_char_def split: list.splits)
  then have "\<not> is_blank b" using b(2) by (simp add: is_blank.simps [of b])
  moreover have "chomp b = b" using b(7) by (auto simp: chomp_def)
  ultimately show thesis using that b by (simp add: event_line_def)
qed

lemma text_codec_list: "list_all (text_codec_ok tv fs) es \<Longrightarrow> list_all (codec_ok tv fs) es"
  by (auto simp: list_all_iff text_codec_ok_def)

lemma split_written:
  "list_all (text_codec_ok tv fs) es \<Longrightarrow>
     split_on newline (event_lines tv es) = map (\<lambda>e. projr (tv e)) es @ [[]]"
proof (induction es)
  case (Cons e es)
  then obtain b where b: "tv e = Inr b" "newline \<notin> set b" "event_line tv e = b @ [newline]"
    by (auto elim: text_codecE)
  then show ?case using Cons split_on_line [of newline b] by simp
qed simp

lemma lines_of_complete:
  "\<forall>l \<in> set ls. chomp l = l \<Longrightarrow> lines_of (ls @ [[]]) None = map Inr ls"
proof (induction ls)
  case (Cons l ls)
  then show ?case by (cases ls) auto
qed simp

lemma timeline_loop_complete:
  assumes "list_all (text_codec_ok tv fs) es"
    and "stream_from sid SCHEMA_VERSION (length events) es"
    and "s = None \<or> s = Some sid"
  shows "timeline_loop fs i events s (map (\<lambda>e. Inr (projr (tv e))) es) = Inr (events @ es)"
  using assms
proof (induction es arbitrary: i events s)
  case (Cons e es)
  from Cons.prems(1) have "text_codec_ok tv fs e" by simp
  then obtain b where b: "tv e = Inr b" "fs b = Inr e" "utf8_valid b" "\<not> is_blank b"
    by (rule text_codecE)
  have "check_event (i + 1) events s e = Inr ()"
    using Cons.prems by (auto simp: check_event_def split: option.splits)
  then show ?case
    using b Cons.IH [of "events @ [e]" "Some sid" "Suc i"] Cons.prems by (simp add: line_text_def)
qed simp

lemma timeline_read_written:
  assumes "list_all (text_codec_ok tv fs) es" and "stream_ok sid SCHEMA_VERSION es"
  shows "timeline_read fs \<lparr>fc_bytes = event_lines tv es, fc_error = None\<rparr> = Inr es"
proof -
  have "chomp l = l" if "l \<in> set (map (\<lambda>e. projr (tv e)) es)" for l
  proof -
    from that obtain e where "e \<in> set es" "l = projr (tv e)" by auto
    then have "text_codec_ok tv fs e" using assms(1) by (simp add: list_all_iff)
    then show ?thesis using \<open>l = projr (tv e)\<close> by (auto elim: text_codecE)
  qed
  then have "file_lines \<lparr>fc_bytes = event_lines tv es, fc_error = None\<rparr> = map (\<lambda>e. Inr (projr (tv e))) es"
    using lines_of_complete [of "map (\<lambda>e. projr (tv e)) es"]
    by (simp add: file_lines_def split_written [OF assms(1)] comp_def)
  then show ?thesis
    using timeline_loop_complete [OF assms(1), of sid "[]" None 0] assms(2)
    by (simp add: timeline_read_def)
qed

section \<open>Opened sessions\<close>

lemma session_openE:
  assumes "session_open env root = Inr s"
  obtains durable path f where "sm_durable_seq (rs_manifest s) = Some durable" "is_compatible (rs_manifest s)"
    "re_open env root path = Inr f" "timeline_read (re_from_str env) f = Inr (rs_timeline s)"
    "rs_timeline s \<noteq> []" "ev_seq (last (rs_timeline s)) = durable" "rs_root s = root"
  using assms
  by (auto simp: session_open_def read_manifest_def read_events_def last_seq_def
      split: sum.splits option.splits if_splits)

lemma timeline_event_stream:
  assumes "stream_ok sid v es" and "es \<noteq> []" and "n \<le> ev_seq (last es)"
  shows "unat n < length es \<and> ev_seq (es ! unat n) = n"
proof -
  have "ev_seq (last es) = word_of_nat (length es - 1)"
    using stream_from_nth [OF assms(1), of "length es - 1"] assms(2) by (simp add: last_conv_nth)
  then have "unat (ev_seq (last es)) \<le> length es - 1" by (simp add: unat_of_nat)
  then have "unat n < length es"
    using assms(2,3) by (cases es) (auto simp: word_le_nat_alt)
  then show ?thesis using stream_from_nth [OF assms(1)] by simp
qed

lemma inspect_operation_ok:
  assumes "inspect_operation s op = Inr info"
  shows "oi_op info = op \<and>
    (\<exists>e \<in> set (rs_timeline s). ev_seq e = oi_seq info \<and> te_op (index_entry e) = Some op
        \<and> te_tree (index_entry e) = Some (oi_tree info))"
proof -
  obtain e where e: "e \<in> set (rs_timeline s)" "operation_of op e = Some info"
    using assms by (auto simp: inspect_operation_def dest!: find_map_SomeD split: option.splits)
  then show ?thesis
    by (intro conjI bexI [of _ e])
      (auto simp: operation_of_def index_entry_def split: event_body.splits if_splits)
qed

section \<open>Properties\<close>

text \<open>
  The reader reads what the recorder writes: the file of one encoded event per line that the
  journal and the directory sink write for a contiguous stream is parsed to exactly that stream,
  and the parser the sinks use on their own spool returns the same events from the same bytes.
\<close>

theorem timeline_reads_written:
  assumes "list_all (text_codec_ok tv fs) es" and "stream_ok sid SCHEMA_VERSION es"
  shows "timeline_read fs \<lparr>fc_bytes = event_lines tv es, fc_error = None\<rparr> = Inr es
    \<and> parse_event_spool fs (event_lines tv es) path sid SCHEMA_VERSION name = Inr es"
  using timeline_read_written [OF assms] parse_event_spool_lines [OF text_codec_list [OF assms(1)] assms(2)]
  by simp

definition demo_line :: bytes where
  "demo_line = [CHR 0x7B, CHR ''1'', CHR 0x7D]"

lemma demo_line_valid: "utf8_valid demo_line"
  by (simp add: demo_line_def utf8_valid.simps utf8_char_def)

lemma demo_text_codec: "text_codec_ok (\<lambda>e. Inr demo_line) (\<lambda>b. Inr (demo_event 0)) (demo_event 0)"
  using demo_line_valid by (simp add: text_codec_ok_def codec_ok_def demo_line_def)

lemma demo_event_stream: "stream_ok ''s'' SCHEMA_VERSION [demo_event 0]"
  by (simp add: demo_event_def)

theorem timeline_reads_written_witness:
  "timeline_read (\<lambda>b. Inr (demo_event 0))
      \<lparr>fc_bytes = event_lines (\<lambda>e. Inr demo_line) [demo_event 0], fc_error = None\<rparr> = Inr [demo_event 0]
    \<and> parse_event_spool (\<lambda>b. Inr (demo_event 0)) (event_lines (\<lambda>e. Inr demo_line) [demo_event 0])
        ''/s'' ''s'' SCHEMA_VERSION ''x'' = Inr [demo_event 0]"
  by (rule timeline_reads_written) (use demo_text_codec demo_event_stream in simp_all)

text \<open>
  C39: An opened session is complete up to its watermark: whatever the bytes of its files, its
  timeline is a contiguous stream of one session that ends at the durable sequence number of a
  compatible manifest; every event up to it can be read by its number, and none beyond.
\<close>

theorem opened_session_serves:
  assumes "session_open env root = Inr s"
  shows "\<exists>durable sid. sm_durable_seq (rs_manifest s) = Some durable \<and> is_compatible (rs_manifest s)
    \<and> stream_ok sid SCHEMA_VERSION (rs_timeline s)
    \<and> last_seq (rs_timeline s) = Some durable
    \<and> (\<forall>n. if n \<le> durable then \<exists>e \<in> set (rs_timeline s). session_event s n = Inr e \<and> ev_seq e = n
           else session_event s n = Inl (Beyond_watermark n durable))"
proof -
  from assms obtain durable path f where
    o: "sm_durable_seq (rs_manifest s) = Some durable" "is_compatible (rs_manifest s)"
      "timeline_read (re_from_str env) f = Inr (rs_timeline s)" "rs_timeline s \<noteq> []"
      "ev_seq (last (rs_timeline s)) = durable"
    by (rule session_openE)
  from timeline_read_sound [OF o(3)] obtain sid where sid: "stream_ok sid SCHEMA_VERSION (rs_timeline s)" ..
  have served: "\<exists>e \<in> set (rs_timeline s). session_event s n = Inr e \<and> ev_seq e = n" if "n \<le> durable" for n
  proof -
    from timeline_event_stream [OF sid o(4)] that o(5)
    have "unat n < length (rs_timeline s)" "ev_seq (rs_timeline s ! unat n) = n" by auto
    then show ?thesis
      using o(1) that
      by (intro bexI [of _ "rs_timeline s ! unat n"])
        (auto simp: session_event_def timeline_event_def linorder_not_less [symmetric])
  qed
  have "session_event s n = Inl (Beyond_watermark n durable)" if "\<not> n \<le> durable" for n
    using o(1) that by (simp add: session_event_def not_le)
  then show ?thesis using o sid served by (auto simp: last_seq_def)
qed

definition demo_session_manifest :: session_manifest where
  "demo_session_manifest =
     \<lparr>sm_session_id = ''demo'',
      sm_format = \<lparr>fm_session_format = SESSION_FORMAT_VERSION, fm_schema_version = SCHEMA_VERSION,
        fm_rrjj_version = ''0'', fm_jj_lib_version = ''0'', fm_jj_store_version = ''0''\<rparr>,
      sm_last_seq = 0, sm_last_op = ''o'', sm_events_object = None, sm_durable_seq = Some 0,
      sm_durable_op = Some ''o'', sm_storage = None\<rparr>"

definition demo_reader :: reader_env where
  "demo_reader =
     \<lparr>re_read_manifest = (\<lambda>root. Inr ''m''), re_parse_manifest = (\<lambda>b. Inr demo_session_manifest),
      re_open = (\<lambda>root path. Inr \<lparr>fc_bytes = demo_line, fc_error = None\<rparr>),
      re_from_str = (\<lambda>b. Inr (demo_event 0))\<rparr>"

definition demo_opened :: session where
  "demo_opened = \<lparr>rs_root = [''s''], rs_manifest = demo_session_manifest, rs_timeline = [demo_event 0]\<rparr>"

lemma demo_session_open: "session_open demo_reader [''s''] = Inr demo_opened"
  using demo_line_valid
  by (simp add: session_open_def read_manifest_def read_events_def demo_reader_def demo_opened_def
      demo_session_manifest_def is_compatible_def timeline_read_def file_lines_def demo_line_def
      is_blank.simps white_char_def line_text_def check_event_def demo_event_def last_seq_def)

theorem opened_session_serves_witness:
  "\<exists>durable sid. sm_durable_seq (rs_manifest demo_opened) = Some durable
    \<and> is_compatible (rs_manifest demo_opened)
    \<and> stream_ok sid SCHEMA_VERSION (rs_timeline demo_opened)
    \<and> last_seq (rs_timeline demo_opened) = Some durable
    \<and> (\<forall>n. if n \<le> durable then \<exists>e \<in> set (rs_timeline demo_opened). session_event demo_opened n = Inr e \<and> ev_seq e = n
           else session_event demo_opened n = Inl (Beyond_watermark n durable))"
  by (rule opened_session_serves [OF demo_session_open])

section \<open>Materialisation is guarded\<close>

lemma check_destination_cases:
  assumes "check_destination env s destination w = (r, w')"
  obtains (refused) e where "r = Inl e" "w' = w"
  | (passed) root path where "me_canonicalize env w (rs_root s) = Inr root"
      "absolute (me_current_dir env) destination = Inr path" "\<not> path_starts_with path root"
      "me_exists env w path \<longrightarrow> me_is_dir env w path \<and> me_has_entries env w path = Inr False"
      "\<forall>p. r = Inr p \<longrightarrow> p = path"
proof (cases "me_canonicalize env w (rs_root s)")
  case (Inl e)
  then show thesis using assms refused by (auto simp: check_destination_def)
next
  case root: (Inr root)
  show thesis
  proof (cases "absolute (me_current_dir env) destination")
    case (Inl e)
    then show thesis using assms refused root by (auto simp: check_destination_def)
  next
    case path: (Inr path)
    show thesis
    proof (cases "path_starts_with path root")
      case True
      then show thesis using assms refused root path by (auto simp: check_destination_def)
    next
      case False
      obtain y w1 where y: "prepare_destination env path w = (y, w1)" by (rule prod.exhaust)
      then have "(\<exists>e. y = Inl e \<and> w1 = w)
        \<or> (me_exists env w path \<longrightarrow> me_is_dir env w path \<and> me_has_entries env w path = Inr False)"
        by (auto simp: prepare_destination_def split: if_splits sum.splits bool.splits)
      moreover have "(r, w') = (case y of Inl e \<Rightarrow> (Inl e, w1) | Inr _ \<Rightarrow> (Inr path, w1))"
        using assms root path False y by (simp add: check_destination_def)
      ultimately show thesis using refused passed root path False by (auto split: sum.splits)
    qed
  qed
qed

lemma check_out_ok:
  "check_out_commit env path repo commit w = (Inr u, w') \<Longrightarrow>
     \<exists>state w1. me_check_out env path state repo commit w1 = (Inr (), w')"
  by (auto simp: check_out_commit_def split: prod.splits sum.splits)

lemma repository_ok: "repository r k = Inr y \<longleftrightarrow> (\<exists>x. r = Inr x \<and> k x = Inr y)"
  by (simp add: repository_def split: sum.splits)

text \<open>
  C40: Materialisation is guarded: it changes nothing unless the operation is in the durable
  timeline and the destination is, by its components, outside the session and absent or an empty
  directory; and it succeeds only by checking out, there, the working-copy commit of the
  repository at exactly that operation.
\<close>

theorem materialize_guarded:
  assumes "materialize jj env s op destination w = (r, w')"
  shows "(w' \<noteq> w \<longrightarrow> (\<exists>info. inspect_operation s op = Inr info \<and> oi_op info = op)
      \<and> (\<exists>root path. me_canonicalize env w (rs_root s) = Inr root
          \<and> absolute (me_current_dir env) destination = Inr path \<and> \<not> path_starts_with path root
          \<and> (me_exists env w path \<longrightarrow> me_is_dir env w path \<and> me_has_entries env w path = Inr False)))
    \<and> (r = Inr () \<longrightarrow> (\<exists>path loader repo commit state w1.
          absolute (me_current_dir env) destination = Inr path
          \<and> rj_loader jj (store_repo s) = Inr loader \<and> load_repo_at jj loader op = Inr repo
          \<and> wc_commit jj repo = Inr commit
          \<and> me_check_out env path state repo commit w1 = (Inr (), w')))"
proof (cases "inspect_operation s op")
  case (Inl e)
  then show ?thesis using assms by (auto simp: materialize_def bindE_def)
next
  case info: (Inr info)
  obtain y w1 where y: "check_destination env s destination w = (y, w1)" by (rule prod.exhaust)
  from y show ?thesis
  proof (cases rule: check_destination_cases)
    case (refused e)
    then show ?thesis using assms y info by (auto simp: materialize_def bindE_def)
  next
    case (passed root path)
    have "\<exists>loader repo commit state w2. rj_loader jj (store_repo s) = Inr loader
        \<and> load_repo_at jj loader op = Inr repo \<and> wc_commit jj repo = Inr commit
        \<and> me_check_out env path state repo commit w2 = (Inr (), w')" if ok: "r = Inr ()"
    proof -
      from assms ok obtain p repo commit where
        "y = Inr p" "repository (rj_loader jj (store_repo s)) (\<lambda>loader. load_repo_at jj loader op) = Inr repo"
        "wc_commit jj repo = Inr commit" "check_out_commit env p repo commit w1 = (Inr (), w')"
        using y by (auto simp: materialize_def elim!: bindE_InrE)
      then show ?thesis using passed(5) check_out_ok by (fastforce simp: repository_ok)
    qed
    then show ?thesis using passed info inspect_operation_ok [OF info] by blast
  qed
qed

text \<open>
  The guard compares components: a destination that leaves and enters the session again through
  \<open>..\<close> passes it, although the directory it leads to is inside the session.
\<close>

lemma dotted_destination_passes:
  assumes "me_canonicalize env w (rs_root s) = Inr (base @ [name])"
    and "outside \<noteq> name" and "''..'' \<notin> set (base @ [outside, name, sub])"
    and "destination = base @ [outside, ''..'', name, sub]"
    and "\<not> me_exists env w destination" and "me_create_dir_all env destination w = (Inr (), w1)"
  shows "check_destination env s (Absolute destination) w = (Inr destination, w1)
    \<and> path_starts_with (resolve_path [] destination) (base @ [name])"
proof -
  have "\<not> path_starts_with destination (base @ [name])"
    using assms(2,4) by (auto simp: path_starts_with_iff)
  moreover have "resolve_path acc (cs @ ds) = resolve_path (resolve_path acc cs) ds" for acc cs ds
    by (induction cs arbitrary: acc) auto
  then have "resolve_path [] destination = base @ [name, sub]"
    using assms(3,4) by (auto simp: resolve_path_plain butlast_append)
  then have "path_starts_with (resolve_path [] destination) (base @ [name])"
    by (simp add: path_starts_with_iff)
  ultimately show ?thesis
    using assms(1,5,6) by (simp add: check_destination_def absolute_def prepare_destination_def)
qed

definition demo_reader_jj :: "nat reader_jj" where
  "demo_reader_jj =
     \<lparr>rj_loader = (\<lambda>p. Inr 0), rj_load_operation = (\<lambda>l bs. Inr (length bs)), rj_load_at = (\<lambda>l op. Inr (op + 1)),
      rj_wc_commit_id = (\<lambda>r. Some r), rj_get_commit = (\<lambda>r i. Inr (i + 1)), rj_diff = (\<lambda>a b. [])\<rparr>"

text \<open>A world that records the directory and the commit of the last check-out.\<close>

definition demo_materialize :: "(nat, (string list \<times> nat) option) materialize_env" where
  "demo_materialize =
     \<lparr>me_canonicalize = (\<lambda>w p. Inr p), me_current_dir = Inr [''home''], me_exists = (\<lambda>w p. False),
      me_is_dir = (\<lambda>w p. False), me_has_entries = (\<lambda>w p. Inr False),
      me_create_dir_all = (\<lambda>p w. (Inr (), w)), me_tempdir = (\<lambda>w. (Inr ''tmp'', w)),
      me_check_out = (\<lambda>p state repo commit w. (Inr (), Some (p, commit)))\<rparr>"

definition demo_snapshot_session :: session where
  "demo_snapshot_session =
     demo_opened\<lparr>rs_timeline := [event_at ''s'' 0 ''t''
       (Snapshot \<lparr>sn_op = ''o:0a0b'', sn_parent_op = ''o:00'', sn_commit = ''c:1'', sn_tree = ''t:1'',
          sn_changes = [], sn_stats = change_stats_default, sn_truncated = False\<rparr>)]\<rparr>"

lemma demo_materialized:
  "materialize demo_reader_jj demo_materialize demo_snapshot_session ''o:0a0b'' (Relative [''out'']) None
     = (Inr (), Some ([''home'', ''out''], 4))"
  by code_simp

theorem materialize_guarded_witness:
  "(\<exists>info. inspect_operation demo_snapshot_session ''o:0a0b'' = Inr info \<and> oi_op info = ''o:0a0b'')
    \<and> (\<exists>loader repo commit. rj_loader demo_reader_jj (store_repo demo_snapshot_session) = Inr loader
        \<and> load_repo_at demo_reader_jj loader ''o:0a0b'' = Inr repo \<and> wc_commit demo_reader_jj repo = Inr commit)"
  using materialize_guarded [OF demo_materialized] by auto

end
