(* ===== verification/Published_Session.thy ===== *)
theory Published_Session
  imports Coordinator_Props Broadcast_Sink Reader
begin

text \<open>
  The whole path of an event: the coordinator emits it, the directory sink accepts it into the
  spool and publishes it, and the reader opens the published session. The components meet in the
  interface \<open>sink_contract\<close>, interpreted here on a stronger relation than in \<open>Directory_Sink\<close>:
  the events objects of the session directory are prefixes of the accepted stream.
\<close>

section \<open>Publication adds only its own events object\<close>

definition adds_only :: "string \<Rightarrow> bytes \<Rightarrow> session_disk \<Rightarrow> session_disk \<Rightarrow> bool" where
  "adds_only obj spool d d' \<longleftrightarrow>
     (\<forall>k. k \<noteq> temporary_path obj \<longrightarrow>
        event_file d' k = event_file d k
        \<or> k = obj \<and> event_file d k = None \<and> event_file d' k = Some (DReg spool))"

lemma adds_only_trans:
  "adds_only obj spool d0 d1 \<Longrightarrow> adds_only obj spool d1 d2 \<Longrightarrow> adds_only obj spool d0 d2"
  unfolding adds_only_def by metis

lemma same_events_adds: "sd_events d' = sd_events d \<Longrightarrow> adds_only obj spool d d'"
  by (simp add: adds_only_def event_file_def)

lemma keeps_adds:
  assumes "\<And>d r d'. m d = (r, d') \<Longrightarrow> adds_only obj spool d d'"
  shows "keeps (adds_only obj spool d0) m"
  by (rule keepsI) (use assms adds_only_trans in blast)

lemma keeps_same_adds:
  assumes "\<And>d r d'. m d = (r, d') \<Longrightarrow> same_files d d'"
  shows "keeps (adds_only obj spool d0) m"
  by (rule keeps_adds, rule same_events_adds) (use assms in \<open>simp add: same_files_def\<close>)

lemma copy_events_adds:
  assumes "copy_events spool name d = (r, d')" and "event_file d name = None"
  shows "adds_only name spool d d'"
proof -
  let ?es = "case sd_events d of Some es \<Rightarrow> es | None \<Rightarrow> []"
  obtain x t where x: "copy_file_atomic spool name (?es, sd_sync d) = (x, t)" by (rule prod.exhaust)
  have d': "d' = d\<lparr>sd_events := Some (fst t), sd_sync := snd t\<rparr>"
    using assms(1) x by (auto simp: copy_events_def split: sum.splits prod.splits)
  have st: "steps_to name spool ?es t" using copy_file_atomic_steps [OF x] by simp
  have es: "map_of ?es k = event_file d k" for k by (simp add: event_file_def split: option.splits)
  have new: "event_file d' k = map_of (fst t) k" for k by (simp add: d' event_file_def)
  show ?thesis
    unfolding adds_only_def
  proof (intro allI impI)
    fix k assume k: "k \<noteq> temporary_path name"
    show "event_file d' k = event_file d k
        \<or> k = name \<and> event_file d k = None \<and> event_file d' k = Some (DReg spool)"
      using st assms(2) k new [of k] es [of k] by (cases "k = name") (simp_all add: steps_to_def)
  qed
qed

lemma publish_events_adds:
  assumes "publish_events_object spool name d = (r, d')"
  shows "adds_only name spool d d'"
proof -
  let ?c = "\<lambda>d. d\<lparr>sd_events := Some (case sd_events d of Some es \<Rightarrow> es | None \<Rightarrow> [])\<rparr>"
  obtain x d1 where x: "disk_call ?c d = (x, d1)" by (rule prod.exhaust)
  then have d1: "event_file d1 = event_file d"
    by (auto elim!: disk_call_cases simp: event_file_def fun_eq_iff split: option.splits)
  then have a1: "adds_only name spool d d1" by (simp add: adds_only_def)
  show ?thesis
  proof (cases "x = Inr () \<and> event_file d1 name = None")
    case True
    then have b: "bindE (copy_events spool name) (\<lambda>_. bindE (disk_call id) (\<lambda>_. disk_call id)) d1 = (r, d')"
      using assms x
      by (simp add: publish_events_object_def bindE_def [of "disk_call ?c"] event_file_def split: option.splits)
    obtain z d2 where z: "copy_events spool name d1 = (z, d2)" by (rule prod.exhaust)
    have "same_files d2 d'"
    proof (cases z)
      case (Inl e)
      then show ?thesis using b z by (simp add: bindE_def [of "copy_events spool name"] same_files_def)
    next
      case (Inr v)
      then show ?thesis
        using b z same_files_two_calls by (simp add: bindE_def [of "copy_events spool name"])
    qed
    then have "adds_only name spool d2 d'" by (intro same_events_adds) (simp add: same_files_def)
    then show ?thesis using a1 copy_events_adds [OF z conjunct2 [OF True]] adds_only_trans by blast
  next
    case False
    then have "d' = d1"
      using assms x by (cases x) (auto simp: publish_events_object_def bindE_def event_file_def split: option.splits)
    then show ?thesis using a1 by simp
  qed
qed

lemma prepare_adds:
  assumes "prepare_session dir source spool m checkpoint d = (r, d')"
  shows "adds_only (events_name (sm_last_seq m)) spool d d'"
proof -
  let ?obj = "events_name (sm_last_seq m)"
  have "keeps (adds_only ?obj spool d) (prepare_session dir source spool m checkpoint)"
    unfolding prepare_session_def
  proof (intro keeps_bindE)
    show "keeps (adds_only ?obj spool d) (on_sync (\<lambda>s. s\<lparr>sy_stats := sync_stats_default, sy_dirty := []\<rparr>))"
      by (rule keeps_same_adds [OF on_sync_same])
    show "keeps (adds_only ?obj spool d) (create_store dir)"
      by (rule keeps_same_adds [OF same_files_create_store])
    show "keeps (adds_only ?obj spool d) (sync_repo dir source)"
      by (rule keeps_adds, rule same_events_adds) (use sync_repo_extends in blast)
    show "keeps (adds_only ?obj spool d) (\<lambda>d. sync_directories (sy_dirty (sd_sync d)) d)"
      by (rule keeps_same_adds [OF sync_directories_same])
    show "keeps (adds_only ?obj spool d) (publish_events_object spool ?obj)"
      by (rule keeps_adds [OF publish_events_adds])
    show "keeps (adds_only ?obj spool d) (write_cursor (durable_cursor (durable_manifest m) checkpoint))"
      by (rule keeps_same_adds [OF same_files_write_cursor])
  qed
  from keepsD [OF this _ assms] show ?thesis by (simp add: adds_only_def)
qed

lemma publish_adds:
  assumes "sync_directory_session dir source spool m checkpoint d = (r, d')"
  shows "adds_only (events_name (sm_last_seq m)) spool d d'"
  using assms
proof (cases rule: publish_cases)
  case (failed e)
  then show ?thesis using prepare_adds by blast
next
  case (prepared d1 x)
  from prepared(2) have "sd_events d' = sd_events d1"
    by (cases rule: write_manifest_cases) (simp_all add: same_files_def)
  then show ?thesis using prepare_adds [OF prepared(1)] by (blast intro: adds_only_trans same_events_adds)
qed

section \<open>Sinks that serve the accepted stream\<close>

text \<open>
  The spool holds the stream, the manifest knows its last number, and every events object of the
  session directory is the encoding of a prefix of it, named by the last number of the prefix.
\<close>

definition object_of :: "(event \<Rightarrow> string + bytes) \<Rightarrow> event list \<Rightarrow> u64 \<Rightarrow> dest_node \<Rightarrow> bool" where
  "object_of to_vec es n x \<longleftrightarrow>
     (\<exists>fs e. prefix (fs @ [e]) es \<and> events_name n = events_name (ev_seq e)
        \<and> x = DReg (event_lines to_vec (fs @ [e])))"

definition served :: "(event \<Rightarrow> string + bytes) \<Rightarrow> directory_sink \<Rightarrow> event list \<Rightarrow> bool" where
  "served to_vec s es \<longleftrightarrow>
     spool_is to_vec s es \<and> es \<noteq> [] \<and> is_compatible (di_manifest s)
     \<and> (di_failed s = None \<longrightarrow> sm_last_seq (di_manifest s) = ev_seq (last es))
     \<and> (\<forall>n x. event_file (di_disk s) (events_name n) = Some x \<longrightarrow> object_of to_vec es n x)"

lemma object_of_append: "object_of tv es n x \<Longrightarrow> object_of tv (es @ [e]) n x"
  by (auto simp: object_of_def)

lemma object_of_whole: "es \<noteq> [] \<Longrightarrow> object_of tv es (ev_seq (last es)) (DReg (event_lines tv es))"
  unfolding object_of_def
  by (intro exI [of _ "butlast es"] exI [of _ "last es"]) simp

lemma is_compatible_cong: "sm_format m' = sm_format m \<Longrightarrow> is_compatible m' = is_compatible m"
  by (simp add: is_compatible_def)

lemma accept_event_format [simp]: "sm_format (di_manifest (accept_event e n s)) = sm_format (di_manifest s)"
  by (simp add: accept_event_def Let_def split: option.splits)

lemma directory_emit_manifest:
  assumes "directory_emit disp tv e s = (r, t)"
  shows "sm_format (di_manifest t) = sm_format (di_manifest s)
    \<and> event_file (di_disk t) = event_file (di_disk s)
    \<and> (r = Inr () \<longrightarrow> sm_last_seq (di_manifest t) = ev_seq e)
    \<and> (r \<noteq> Inr () \<longrightarrow> di_failed t = None \<longrightarrow> t = s)"
  using assms unfolding directory_emit_def
proof (cases rule: check_failed_cases)
  case live
  show ?thesis
  proof (cases "tv e")
    case (Inr b)
    then have "append_line disp e (b @ [newline]) s = (r, t)" using live by simp
    then show ?thesis
    proof (cases rule: append_line_cases)
      case (failed x w m)
      have "di_manifest t = di_manifest (s\<lparr>di_spool := di_spool t, di_failed := Some m\<rparr>)"
        "di_disk t = di_disk (s\<lparr>di_spool := di_spool t, di_failed := Some m\<rparr>)"
        "di_failed t = di_failed (s\<lparr>di_spool := di_spool t, di_failed := Some m\<rparr>)"
        using failed(3) by metis+
      then show ?thesis using failed(1) by simp
    next
      case (accepted w)
      let ?a = "accept_event e (word_of_nat (length (b @ [newline]))) (s\<lparr>di_spool := w\<rparr>)"
      obtain y d where y: "write_manifest_atomic (di_manifest ?a) (di_disk ?a) = (y, d)" by (rule prod.exhaust)
      then have "sd_events d = sd_events (di_disk ?a)"
        by (cases rule: write_manifest_cases) (simp_all add: same_files_def)
      then have "event_file (di_disk t) = event_file (di_disk s)"
        using accepted(3) y by (simp add: observe_manifest_def event_file_def fun_eq_iff)
      then show ?thesis using accepted by simp
    qed simp
  qed (use live in auto)
qed auto

lemma served_flush_session:
  assumes "directory_flush_session shadow fr s = (r, t)" and "served tv s es"
  shows "served tv t es"
proof -
  have sp: "spool_is tv t es"
    using directory_flush_session_spool [OF assms(1)] assms(2) by (simp add: served_def spool_is_def)
  from assms(1) show ?thesis
  proof (cases rule: flush_session_cases)
    case (refused e)
    have "di_manifest t = di_manifest (s\<lparr>di_spool := di_spool t\<rparr>)"
      "di_disk t = di_disk (s\<lparr>di_spool := di_spool t\<rparr>)"
      "di_failed t = di_failed (s\<lparr>di_spool := di_spool t\<rparr>)"
      using refused(2) by metis+
    then show ?thesis using assms(2) sp by (simp add: served_def)
  next
    case (published w x d)
    let ?m = "(di_manifest s)\<lparr>sm_last_op := fr_last_op fr\<rparr>"
    note p = publish_session_simps [OF published(5)]
    have live: "di_failed s = None" by (rule published(1))
    have d: "di_disk t = d" "di_failed t = None" using p published(4) live by simp_all
    have m: "sm_format (di_manifest t) = sm_format (di_manifest s)"
      "sm_last_seq (di_manifest t) = sm_last_seq (di_manifest s)"
      using p by (auto split: sum.splits)
    have spool: "wr_file w = event_lines tv es"
      using flush_synced_ok [OF published(2)] assms(2) live by (simp add: served_def spool_is_def)
    have "adds_only (events_name (sm_last_seq (di_manifest s))) (event_lines tv es) (di_disk s) d"
      using publish_adds [OF published(4)] spool by simp
    moreover have "object_of tv es n (DReg (event_lines tv es))"
      if "events_name n = events_name (sm_last_seq (di_manifest s))" for n
      using object_of_whole [of es tv] assms(2) live that by (simp add: served_def object_of_def)
    ultimately have "object_of tv es n x" if "event_file d (events_name n) = Some x" for n x
      using assms(2) that unfolding served_def adds_only_def by (metis events_name_not_temporary option.inject)
    then show ?thesis
      using assms(2) sp d m live is_compatible_cong [OF m(1)] by (simp add: served_def)
  qed
qed

text \<open>The name of an events object determines its sequence number.\<close>

lemma events_name_inj: "events_name a = events_name b \<longleftrightarrow> a = b"
proof
  assume "events_name a = events_name b"
  then have "dec_value (pad_zero 20 (show_u64 a)) = dec_value (pad_zero 20 (show_u64 b))"
    by (simp add: events_name_def)
  then show "a = b" by (simp add: dec_value_pad show_u64_def dec_value_show word_unat_eq_iff)
qed simp

section \<open>The invariant of the recorded directory\<close>

definition recorded :: "(event \<Rightarrow> string + bytes) \<Rightarrow> directory_sink \<Rightarrow> event list \<Rightarrow> bool" where
  "recorded to_vec s es \<longleftrightarrow>
     served to_vec s es \<and> sink_backed s
     \<and> (\<forall>m \<in> set_option (sd_manifest (di_disk s)). is_compatible m)"

lemma emit_disk_manifest:
  assumes "directory_emit disp tv e s = (r, t)"
  shows "sd_manifest (di_disk t) = sd_manifest (di_disk s) \<or> sd_manifest (di_disk t) = Some (di_manifest t)"
  using assms unfolding directory_emit_def
proof (cases rule: check_failed_cases)
  case live
  show ?thesis
  proof (cases "tv e")
    case (Inr b)
    then have "append_line disp e (b @ [newline]) s = (r, t)" using live by simp
    then show ?thesis
    proof (cases rule: append_line_cases)
      case (failed x w m)
      have "di_disk t = di_disk (s\<lparr>di_spool := di_spool t, di_failed := Some m\<rparr>)"
        using failed(3) by metis
      then show ?thesis by simp
    next
      case (accepted w)
      let ?a = "accept_event e (word_of_nat (length (b @ [newline]))) (s\<lparr>di_spool := w\<rparr>)"
      obtain y d where y: "write_manifest_atomic (di_manifest ?a) (di_disk ?a) = (y, d)" by (rule prod.exhaust)
      then have "di_disk t = d" "di_manifest t = di_manifest ?a"
        using accepted(3) by (simp_all add: observe_manifest_def)
      with y show ?thesis by (cases rule: write_manifest_cases) (simp_all add: same_files_def)
    qed simp
  qed (use live in auto)
qed auto

lemma recorded_emit:
  assumes "directory_emit disp tv e s = (r, t)" and "recorded tv s es"
  shows "recorded tv t (if r = Inr () then es @ [e] else es)"
proof -
  note m = directory_emit_manifest [OF assms(1)]
  have c: "is_compatible (di_manifest t)"
    using m is_compatible_cong [of "di_manifest t" "di_manifest s"] assms(2) by (simp add: recorded_def served_def)
  have "\<forall>m \<in> set_option (sd_manifest (di_disk t)). is_compatible m"
    using emit_disk_manifest [OF assms(1)] c assms(2) by (auto simp: recorded_def)
  moreover have "sink_backed t" using emit_backed [OF assms(1)] assms(2) by (simp add: recorded_def)
  moreover have "served tv t (if r = Inr () then es @ [e] else es)"
  proof (cases r)
    case (Inl x)
    then have "spool_is tv t es"
      using directory.emit_err [of tv s es disp undefined e x t] assms by (simp add: recorded_def served_def directory_ops_def)
    then show ?thesis using m c assms(2) Inl by (auto simp: recorded_def served_def)
  next
    case (Inr u)
    then have "spool_is tv t (es @ [e])"
      using directory.emit_ok [of tv s es disp undefined e u t] assms by (simp add: recorded_def served_def directory_ops_def)
    then show ?thesis
      using m c assms(2) Inr object_of_append by (auto simp: recorded_def served_def)
  qed
  ultimately show ?thesis by (simp add: recorded_def)
qed

lemma recorded_flush:
  assumes "directory_flush s = (r, t)" and "recorded tv s es"
  shows "recorded tv t es"
proof -
  have t: "di_manifest t = di_manifest s" "di_disk t = di_disk s" "di_failed t = di_failed s"
    using assms(1) by (cases rule: directory_flush_cases; simp)+
  have "spool_is tv t es"
    using directory_flush_spool [OF assms(1)] t(3) assms(2) by (simp add: recorded_def served_def spool_is_def)
  then show ?thesis
    using t flush_backed [OF assms(1)] assms(2) by (simp add: recorded_def served_def)
qed

lemma recorded_flush_session:
  assumes "directory_flush_session shadow fr s = (r, t)" and "recorded tv s es"
  shows "recorded tv t es"
proof -
  have old: "\<forall>m \<in> set_option (sd_manifest (di_disk s)). is_compatible m" "is_compatible (di_manifest s)"
    using assms(2) by (simp_all add: recorded_def served_def)
  from assms(1) have "\<forall>m \<in> set_option (sd_manifest (di_disk t)). is_compatible m"
  proof (cases rule: flush_session_cases)
    case (refused e)
    have "di_disk t = di_disk (s\<lparr>di_spool := di_spool t\<rparr>)" using refused(2) by metis
    then show ?thesis using old by simp
  next
    case (published w x d)
    then show ?thesis
      using publish_backed [OF published(4)] publish_session_simps [OF published(5)] old
      by (auto simp: is_compatible_def durable_manifest_def)
  qed
  then show ?thesis
    using served_flush_session [OF assms(1)] flush_session_backed [OF assms(1)] assms(2)
    by (simp add: recorded_def)
qed

interpretation recorder: sink_contract "directory_ops disp to_vec shadow" "recorded to_vec"
    for disp to_vec shadow
proof unfold_locales
  fix disp to_vec shadow s es e u t
  assume "recorded to_vec s es" "so_emit (directory_ops disp to_vec shadow) e s = (Inr u, t)"
  then show "recorded to_vec t (es @ [e])"
    using recorded_emit [of disp to_vec e s "Inr u" t es] by (simp add: directory_ops_def)
next
  fix disp to_vec shadow s es e x t
  assume "recorded to_vec s es" "so_emit (directory_ops disp to_vec shadow) e s = (Inl x, t)"
  then show "recorded to_vec t es"
    using recorded_emit [of disp to_vec e s "Inl x" t es] by (simp add: directory_ops_def)
next
  fix disp to_vec shadow s es r t
  assume "recorded to_vec s es" "so_flush (directory_ops disp to_vec shadow) s = (r, t)"
  then show "recorded to_vec t es" using recorded_flush by (simp add: directory_ops_def)
next
  fix disp to_vec shadow s es fr r t
  assume "recorded to_vec s es" "so_flush_session (directory_ops disp to_vec shadow) fr s = (r, t)"
  then show "recorded to_vec t es" using recorded_flush_session by (simp add: directory_ops_def)
qed

interpretation live_recorder: sink_contract "broadcast_ops (directory_ops disp to_vec shadow)"
    "\<lambda>s es. recorded to_vec (bs_durable s) es \<and> bs_sent s = es" for disp to_vec shadow
  by (rule recorder.broadcast_contract)

section \<open>Recorded sessions open\<close>

text \<open>
  A reader that sees the session directory: it decodes its manifest and reads its events objects
  without an error.
\<close>

definition reads_disk :: "reader_env \<Rightarrow> string list \<Rightarrow> session_disk \<Rightarrow> bool" where
  "reads_disk env root d \<longleftrightarrow>
     (\<forall>m. sd_manifest d = Some m \<longrightarrow>
        (\<exists>b. re_read_manifest env root = Inr b \<and> re_parse_manifest env b = Inr m))
     \<and> (\<forall>name b. event_file d name = Some (DReg b) \<longrightarrow>
          re_open env root (''events/'' @ name) = Inr \<lparr>fc_bytes = b, fc_error = None\<rparr>)"

lemma recorded_opens:
  assumes "recorded tv s es" and "stream_ok sid SCHEMA_VERSION es"
    and "list_all (text_codec_ok tv (re_from_str env)) es"
    and "reads_disk env root (di_disk s)"
    and "sd_manifest (di_disk s) = Some m" and "sm_durable_seq m = Some n"
  shows "\<exists>log. prefix log es \<and> last_seq log = Some n
    \<and> session_open env root = Inr \<lparr>rs_root = root, rs_manifest = m, rs_timeline = log\<rparr>"
proof -
  have m: "is_compatible m" "backed m (di_disk s)"
    using assms(1,5) by (simp_all add: recorded_def sink_backed_def)
  then obtain x where x: "sm_events_object m = Some (events_object n)"
    "event_file (di_disk s) (events_name n) = Some x"
    using assms(6) by (auto simp: backed_def)
  then obtain fs e where fs: "prefix (fs @ [e]) es" "ev_seq e = n" "x = DReg (event_lines tv (fs @ [e]))"
  proof -
    have "object_of tv es n x" using assms(1) x(2) by (simp add: recorded_def served_def)
    then obtain fs e where "prefix (fs @ [e]) es" "events_name n = events_name (ev_seq e)"
      "x = DReg (event_lines tv (fs @ [e]))"
      unfolding object_of_def by blast
    then show thesis using that by (simp add: events_name_inj)
  qed
  obtain rest where rest: "es = (fs @ [e]) @ rest" using fs(1) by (auto simp: prefix_def)
  have "timeline_read (re_from_str env) \<lparr>fc_bytes = event_lines tv (fs @ [e]), fc_error = None\<rparr> = Inr (fs @ [e])"
    by (rule timeline_read_written [where sid = sid]) (use assms(2,3) rest in simp_all)
  moreover have "re_open env root (events_object n)
      = Inr \<lparr>fc_bytes = event_lines tv (fs @ [e]), fc_error = None\<rparr>"
    using assms(4) x(2) fs(3) by (simp add: reads_disk_def events_object_def)
  ultimately have "read_events env root m n = Inr (fs @ [e])"
    using x(1) fs(2) by (simp add: read_events_def last_seq_def)
  moreover have "read_manifest env root = Inr m"
    using assms(4,5) m(1) by (auto simp: reads_disk_def read_manifest_def)
  ultimately show ?thesis
    using fs assms(6) by (intro exI [of _ "fs @ [e]"]) (simp add: session_open_def last_seq_def)
qed

text \<open>The first event of an empty directory.\<close>

lemma recorded_start:
  assumes "directory_create fs faults disk spool_path dir session_id format max_bytes = Inr d"
    and "df_spool fs = []" and "sd_events disk = None" and "sd_manifest disk = None"
    and "fm_session_format format = SESSION_FORMAT_VERSION" and "fm_schema_version format = SCHEMA_VERSION"
    and "directory_emit disp tv e d = (Inr u, t)"
  shows "recorded tv t [e]"
proof -
  have d: "wr_file (di_spool d) = []" "wr_buf (di_spool d) = []" "di_disk d = disk"
    "di_manifest d = initial_manifest session_id format"
    using assms(1,2) by (auto simp: directory_create_def split: option.splits sum.splits if_splits)
  have "spool_is tv d []" using d by (simp add: spool_is_def)
  then have "spool_is tv t [e]"
    using directory.emit_ok [of tv d "[]" disp undefined e u t] assms(7) by (simp add: directory_ops_def)
  moreover have "is_compatible (di_manifest d)"
    using assms(5,6) d(4) by (simp add: is_compatible_def initial_manifest_def)
  then have c: "is_compatible (di_manifest t)"
    using directory_emit_manifest [OF assms(7)] is_compatible_cong [of "di_manifest t" "di_manifest d"] by simp
  moreover have "event_file (di_disk t) k = None" for k
    using directory_emit_manifest [OF assms(7)] d(3) assms(3) by (simp add: event_file_def)
  moreover have "sink_backed d" using assms(4) d by (simp add: sink_backed_def backed_def initial_manifest_def)
  then have "sink_backed t" by (rule emit_backed [OF assms(7)])
  moreover have "\<forall>m \<in> set_option (sd_manifest (di_disk t)). is_compatible m"
    using emit_disk_manifest [OF assms(7)] d(3) assms(4) c by auto
  ultimately show ?thesis
    using directory_emit_manifest [OF assms(7)] by (simp add: recorded_def served_def)
qed

lemma recorded_begins:
  assumes "directory_create fs faults disk spool_path dir session_id format max_bytes = Inr d"
    and "df_spool fs = []" and "sd_events disk = None" and "sd_manifest disk = None"
    and "fm_session_format format = SESSION_FORMAT_VERSION" and "fm_schema_version format = SCHEMA_VERSION"
    and "cx_sink cx = broadcast_ops (directory_ops disp tv shadow)"
    and "audit_ok (aa_state acc)"
    and "initialize cx config (fst (broadcast_new d 1024)) acc arrivals w = Inr s0"
  obtains e where "reachable cx s0 [e]" "recorded tv (bs_durable (co_sink s0)) [e]"
    "bs_sent (co_sink s0) = [e]"
proof -
  obtain baseline where b: "reachable cx s0 [start_event cx config baseline]"
    "so_emit (cx_sink cx) (start_event cx config baseline) (fst (broadcast_new d 1024)) = (Inr (), co_sink s0)"
    by (rule initialize_reachable [OF assms(8,9)])
  let ?e = "start_event cx config baseline"
  have "broadcast_emit (directory_ops disp tv shadow) ?e \<lparr>bs_durable = d, bs_sent = []\<rparr> = (Inr (), co_sink s0)"
    using b(2) by (simp add: assms(7) broadcast_new_def broadcast_ops_def)
  then obtain d0 where "directory_emit disp tv ?e d = (Inr (), d0)"
    "co_sink s0 = \<lparr>bs_durable = d0, bs_sent = [?e]\<rparr>"
    by (auto simp: broadcast_emit_def directory_ops_def split: prod.splits sum.splits)
  then show thesis using that b(1) recorded_start [OF assms(1-6)] by simp
qed

text \<open>
  C28: Recorded sessions open. Take the recorder as the daemon builds it for local sessions, a
  coordinator over a broadcast sink over a directory sink opened on an empty directory; run any
  commands and notifications, with any I/O failures. Whenever the manifest of the session directory
  then claims a durable sequence number, the reader opens the session, and its timeline is the
  prefix up to that number of exactly the events the live subscribers were sent.
\<close>

theorem recorded_session_opens:
  assumes "directory_create fs faults disk spool_path dir session_id format max_bytes = Inr d"
    and "df_spool fs = []" and "sd_events disk = None" and "sd_manifest disk = None"
    and "fm_session_format format = SESSION_FORMAT_VERSION" and "fm_schema_version format = SCHEMA_VERSION"
    and "cx_sink cx = broadcast_ops (directory_ops disp tv shadow)"
    and "audit_ok (aa_state acc)"
    and "initialize cx config (fst (broadcast_new d 1024)) acc arrivals w = Inr s0"
    and "run cx inputs s0 = Some (replies, s)"
    and "list_all (text_codec_ok tv (re_from_str env)) (bs_sent (co_sink s))"
    and "reads_disk env root (di_disk (bs_durable (co_sink s)))"
    and "sd_manifest (di_disk (bs_durable (co_sink s))) = Some m" and "sm_durable_seq m = Some n"
  shows "\<exists>log. prefix log (bs_sent (co_sink s)) \<and> last_seq log = Some n
    \<and> session_open env root = Inr \<lparr>rs_root = root, rs_manifest = m, rs_timeline = log\<rparr>"
proof -
  obtain e where b: "reachable cx s0 [e]" "recorded tv (bs_durable (co_sink s0)) [e]" "bs_sent (co_sink s0) = [e]"
    by (rule recorded_begins [OF assms(1-9)])
  note inv = reachable_inv [OF b(1)]
  from run_steps [OF assms(10) inv(1)] obtain es where st: "csteps cx (s0, [e]) (s, es)" by blast
  have es: "recorded tv (bs_durable (co_sink s)) es" "bs_sent (co_sink s) = es"
    using live_recorder.csteps_accepted [OF st assms(7)] b(2,3) by auto
  have "stream_ok (cf_session_id (co_config s)) SCHEMA_VERSION es"
    using csteps_session_inv [OF st inv(2)] by (simp add: session_inv_def numbered_def)
  from recorded_opens [OF es(1) this _ assms(12,13,14)] assms(11) es(2) show ?thesis by simp
qed
section \<open>A recorded session\<close>

text \<open>
  A session of two events before its last flush, encoded as their numbers between braces and
  decoded from the list of events the session sends.
\<close>

definition pub_encode :: "event \<Rightarrow> string + bytes" where
  "pub_encode e = Inr ([CHR 0x7B] @ show_u64 (ev_seq e) @ [CHR 0x7D])"

definition pub_decode :: "event list \<Rightarrow> bytes \<Rightarrow> string + event" where
  "pub_decode es b =
     (case find (\<lambda>e. pub_encode e = Inr b) es of Some e \<Rightarrow> Inr e | None \<Rightarrow> Inl ''unknown'')"

definition pub_cx :: "(directory_sink broadcast_sink, nat, nat) ctx" where
  "pub_cx = \<lparr>cx_sink = broadcast_ops (directory_ops (\<lambda>e. []) pub_encode (\<lambda>p. [])), cx_jj = demo_jj,
     cx_now = (\<lambda>k. ''now''), cx_version = ''0''\<rparr>"

definition pub_format :: format_metadata where
  "pub_format = \<lparr>fm_session_format = SESSION_FORMAT_VERSION, fm_schema_version = SCHEMA_VERSION,
     fm_rrjj_version = ''0'', fm_jj_lib_version = ''0'', fm_jj_store_version = ''0''\<rparr>"

definition pub_fs :: directory_fs where
  "pub_fs = \<lparr>df_create_parent = None, df_create_session_dir = None, df_session_permissions = None,
     df_open = None, df_spool_permissions = None, df_len = Inr 0, df_spool = []\<rparr>"

definition pub_disk :: session_disk where
  "pub_disk = \<lparr>sd_store = False, sd_repo = None, sd_events = None, sd_cursor = None,
     sd_manifest = None, sd_sync = \<lparr>sy_stats = sync_stats_default, sy_dirty = [], sy_faults = []\<rparr>\<rparr>"

definition pub_sink :: directory_sink where
  "pub_sink = projr (directory_create pub_fs [] pub_disk ''spool'' [''s''] ''demo'' pub_format 1000)"

definition pub_start :: "(directory_sink broadcast_sink, nat, nat) coordinator" where
  "pub_start = projr (initialize pub_cx demo_config (fst (broadcast_new pub_sink 1024)) accumulator_new [] 0)"

definition pub_end :: "(directory_sink broadcast_sink, nat, nat) coordinator" where
  "pub_end = snd (the (run pub_cx [Command (Shutdown ''bye'')] pub_start))"

definition pub_log :: "event list" where
  "pub_log = bs_sent (co_sink pub_end)"

text \<open>The reader of a session directory.\<close>

definition directory_reader :: "(bytes \<Rightarrow> string + event) \<Rightarrow> session_disk \<Rightarrow> reader_env" where
  "directory_reader from_str d =
     \<lparr>re_read_manifest = (\<lambda>root. case sd_manifest d of Some m \<Rightarrow> Inr [] | None \<Rightarrow> Inl (Os_error 2)),
      re_parse_manifest = (\<lambda>b. case sd_manifest d of Some m \<Rightarrow> Inr m | None \<Rightarrow> Inl []),
      re_open = (\<lambda>root path.
        case strip_prefix path ''events/'' of
          Some name \<Rightarrow>
            (case event_file d name of
               Some (DReg b) \<Rightarrow> Inr \<lparr>fc_bytes = b, fc_error = None\<rparr>
             | _ \<Rightarrow> Inl (Os_error 2))
        | None \<Rightarrow> Inl (Os_error 2)),
      re_from_str = from_str\<rparr>"

lemma directory_reader_reads: "reads_disk (directory_reader fs d) root d"
  by (simp add: reads_disk_def directory_reader_def strip_prefix_def starts_with_def)

lemma pub_created: "directory_create pub_fs [] pub_disk ''spool'' [''s''] ''demo'' pub_format 1000 = Inr pub_sink"
  by (simp add: pub_sink_def directory_create_def pub_fs_def first_error_def)

lemma pub_initialized:
  "initialize pub_cx demo_config (fst (broadcast_new pub_sink 1024)) accumulator_new [] 0 = Inr pub_start"
proof -
  have "(case initialize pub_cx demo_config (fst (broadcast_new pub_sink 1024)) accumulator_new [] 0 of
      Inr s \<Rightarrow> True | Inl e \<Rightarrow> False)"
    by code_simp
  then show ?thesis by (auto simp: pub_start_def split: sum.splits)
qed

lemma pub_ran: "run pub_cx [Command (Shutdown ''bye'')] pub_start = Some ([R_unit (Inr ())], pub_end)"
proof -
  have "(case run pub_cx [Command (Shutdown ''bye'')] pub_start of
      Some (rs, s) \<Rightarrow> rs = [R_unit (Inr ())] | None \<Rightarrow> False)"
    by code_simp
  then show ?thesis by (auto simp: pub_end_def split: option.splits)
qed

lemma pub_codec: "list_all (text_codec_ok pub_encode (pub_decode pub_log)) pub_log"
  by code_simp

lemma pub_durable:
  "\<exists>m. sd_manifest (di_disk (bs_durable (co_sink pub_end))) = Some m \<and> sm_durable_seq m = Some 2"
proof -
  have "(case sd_manifest (di_disk (bs_durable (co_sink pub_end))) of
      Some m \<Rightarrow> sm_durable_seq m = Some 2 | None \<Rightarrow> False)"
    by code_simp
  then show ?thesis by (auto split: option.splits)
qed

theorem recorded_session_opens_witness:
  "\<exists>m log. sd_manifest (di_disk (bs_durable (co_sink pub_end))) = Some m \<and> sm_durable_seq m = Some 2
    \<and> prefix log pub_log \<and> last_seq log = Some 2
    \<and> session_open (directory_reader (pub_decode pub_log) (di_disk (bs_durable (co_sink pub_end)))) [''s'']
        = Inr \<lparr>rs_root = [''s''], rs_manifest = m, rs_timeline = log\<rparr>"
proof -
  obtain m where m: "sd_manifest (di_disk (bs_durable (co_sink pub_end))) = Some m" "sm_durable_seq m = Some 2"
    using pub_durable by blast
  have codec: "list_all (text_codec_ok pub_encode
      (re_from_str (directory_reader (pub_decode pub_log) (di_disk (bs_durable (co_sink pub_end))))))
      (bs_sent (co_sink pub_end))"
    using pub_codec by (simp add: directory_reader_def pub_log_def)
  have f: "df_spool pub_fs = []" "sd_events pub_disk = None" "sd_manifest pub_disk = None"
    "fm_session_format pub_format = SESSION_FORMAT_VERSION" "fm_schema_version pub_format = SCHEMA_VERSION"
    "cx_sink pub_cx = broadcast_ops (directory_ops (\<lambda>e. []) pub_encode (\<lambda>p. []))"
    by (simp_all add: pub_fs_def pub_disk_def pub_format_def pub_cx_def)
  from recorded_session_opens [OF pub_created f demo_accumulator pub_initialized pub_ran codec
      directory_reader_reads m, of "[''s'']"]
  show ?thesis using m unfolding pub_log_def by blast
qed

end
