(* ===== verification/Daemon_Run.thy ===== *)
theory Daemon_Run
  imports Daemon Published_Session
begin

text \<open>
  A daemon's life (\<open>run_daemon\<close> and \<open>serve\<close> of \<open>crates/rrjj/src/main.rs\<close>): what happens before the coordinator is started, between its start and
  the first request, and after the last one. The operating system is a world of type \<open>'w\<close>; its
  calls are operations on it.
\<close>

section \<open>The rest of the handle\<close>

definition handle_touched ::
  "string \<Rightarrow> nat \<Rightarrow> touched_path list \<Rightarrow> u64 \<Rightarrow> ('s, 't, 'j) live \<Rightarrow> ('s, 't, 'j) live" where
  "handle_touched now instant paths raw_events l =
     l\<lparr>lv_core := (lv_core l)\<lparr>co_audit := observe now instant paths raw_events (co_audit (lv_core l))\<rparr>,
       lv_audit_changed := (lv_audit_changed l \<or> paths \<noteq> [])\<rparr>"

definition handle_overflow :: "nat \<Rightarrow> string \<Rightarrow> u64 \<Rightarrow> ('s, 't, 'j) live \<Rightarrow> ('s, 't, 'j) live" where
  "handle_overflow instant source raw_events l =
     l\<lparr>lv_core := (lv_core l)\<lparr>co_audit := report_overflow instant source raw_events (co_audit (lv_core l))\<rparr>,
       lv_audit_changed := True\<rparr>"

definition handle_shutdown ::
  "('s, 't, 'j) ctx \<Rightarrow> string \<Rightarrow> ('s, 't, 'j) live \<Rightarrow> (reply \<times> ('s, 't, 'j) live) option" where
  "handle_shutdown cx reason l = send cx (Shutdown reason) l"

section \<open>Serving\<close>

text \<open>
  What \<open>serve\<close> waits for: a connection, Ctrl-C, or SIGTERM (whose stream may have closed). The
  first decisive event ends it; \<open>None\<close> is a daemon that is still serving.
\<close>

datatype serve_event =
    Accepted
  | Accept_failed io_error
  | Interrupted "io_error + unit"
  | Terminated bool

fun serve_loop :: "(io_error \<Rightarrow> string) \<Rightarrow> serve_event list \<Rightarrow> (string + unit) option" where
  "serve_loop disp [] = None"
| "serve_loop disp (Accepted # events) = serve_loop disp events"
| "serve_loop disp (Accept_failed e # events) = Some (Inl (disp e))"
| "serve_loop disp (Interrupted r # events) =
     Some (case r of Inl e \<Rightarrow> Inl (disp e) | Inr _ \<Rightarrow> Inr ())"
| "serve_loop disp (Terminated open # events) =
     Some (if open then Inr () else Inl ''SIGTERM handler closed unexpectedly'')"

definition serve :: "(io_error \<Rightarrow> string) \<Rightarrow> io_error + unit \<Rightarrow> serve_event list \<Rightarrow> (string + unit) option" where
  "serve disp signal events =
     (case signal of Inl e \<Rightarrow> Some (Inl ''install SIGTERM handler'') | Inr _ \<Rightarrow> serve_loop disp events)"

section \<open>The daemon\<close>

record ('w, 's) daemon_env =
  de_disp :: "io_error \<Rightarrow> string"
  de_http :: "(string \<times> bool) option"
  de_bind_http :: "string \<Rightarrow> ('w, string, unit) op"
  de_create_dir_all :: "fs_path \<Rightarrow> ('w, string, unit) op"
  de_socket :: "'w socket_env"
  de_open_sink :: "durable_mode \<Rightarrow> ('w, string, 's) op"
  de_roots :: "'w \<Rightarrow> root_env"
  de_bind_control :: "('w, string, unit) op"
  de_secure_control :: "('w, string, unit) op"
  de_parse_origin :: "string \<Rightarrow> string + string"
  de_remove_socket :: "'w \<Rightarrow> 'w"
  de_show_error :: "core_error \<Rightarrow> string"

text \<open>Before anything is recorded: the listener, the parent directories and a left-over socket.\<close>

definition create_parent :: "('w, 's) daemon_env \<Rightarrow> string \<Rightarrow> ('w, string, unit) op" where
  "create_parent env path w =
     (case parent_path (parse_path path) of
        None \<Rightarrow> (Inr (), w)
      | Some parent \<Rightarrow> de_create_dir_all env parent w)"

definition prepare_daemon :: "('w, 's) daemon_env \<Rightarrow> daemon_options \<Rightarrow> ('w, string, unit) op" where
  "prepare_daemon env options =
     bindE (case de_http env of Some (address, _) \<Rightarrow> de_bind_http env address | None \<Rightarrow> Pair (Inr ())) (\<lambda>_.
     bindE (create_parent env (op_shadow options)) (\<lambda>_.
     bindE (create_parent env (op_events options)) (\<lambda>_.
     bindE (create_parent env (op_socket options)) (\<lambda>_.
     remove_stale_socket (de_socket env) (de_disp env) (op_socket options)))))"

text \<open>After the coordinator has started: the control socket and the HTTP router.\<close>

definition open_control :: "('w, 's) daemon_env \<Rightarrow> daemon_options \<Rightarrow> ('w, string, unit) op" where
  "open_control env options =
     bindE (de_bind_control env) (\<lambda>_.
     bindE (de_secure_control env) (\<lambda>_ w.
       case de_http env of
         None \<Rightarrow> (Inr (), w)
       | Some (_, loopback) \<Rightarrow>
           (case cors_of (de_parse_origin env) loopback (op_cors_origin options) of
              Inl m \<Rightarrow> (Inl m, w)
            | Inr _ \<Rightarrow> (Inr (), w))))"

text \<open>\<open>result.and(shutdown)\<close>: the session is ended whatever ended the service.\<close>

definition end_daemon ::
  "(core_error \<Rightarrow> string) \<Rightarrow> ('s, 't, 'j) ctx \<Rightarrow> string + unit \<Rightarrow> ('s, 't, 'j) live
     \<Rightarrow> ((string + unit) \<times> ('s, 't, 'j) live) option" where
  "end_daemon show_error cx result l =
     (case handle_shutdown cx ''terminated'' l of
        None \<Rightarrow> None
      | Some (r, l) \<Rightarrow>
          Some (case result of
                  Inl m \<Rightarrow> Inl m
                | Inr _ \<Rightarrow>
                    (case r of R_unit (Inl e) \<Rightarrow> Inl (show_error e) | _ \<Rightarrow> Inr ()), l))"

text \<open>
  How far a daemon got: it recorded nothing of its own, it returned with the coordinator running,
  or it ended its session. The clients' requests and the watcher act while it serves: \<open>session\<close> is
  what they make of the live session.
\<close>

datatype 'l daemon_end = Not_started | Abandoned 'l | Ended 'l

definition run_session ::
  "('w, 's) daemon_env \<Rightarrow> ('s broadcast_sink, 't, 'j) ctx \<Rightarrow> daemon_options
     \<Rightarrow> (('s broadcast_sink, 't, 'j) live \<Rightarrow> ('s broadcast_sink, 't, 'j) live)
     \<Rightarrow> io_error + unit \<Rightarrow> serve_event list \<Rightarrow> ('s broadcast_sink, 't, 'j) live \<Rightarrow> 'w
     \<Rightarrow> ((string + unit) \<times> ('s broadcast_sink, 't, 'j) live daemon_end \<times> 'w) option" where
  "run_session env cx options session signal events l w =
     (case open_control env options w of
        (Inl m, w) \<Rightarrow> Some (Inl m, Abandoned l, w)
      | (Inr _, w) \<Rightarrow>
     (case serve (de_disp env) signal events of
        None \<Rightarrow> None
      | Some result \<Rightarrow>
     (case end_daemon (de_show_error env) cx result (session l) of
        None \<Rightarrow> None
      | Some (r, l) \<Rightarrow> Some (r, Ended l, de_remove_socket env w))))"

definition run_daemon ::
  "('w, 's) daemon_env \<Rightarrow> string option \<Rightarrow> string option \<Rightarrow> 'g glob_ops \<Rightarrow> (string list \<Rightarrow> string + unit)
     \<Rightarrow> ('s broadcast_sink, 't, 'j) ctx \<Rightarrow> audit_input list list \<Rightarrow> 'j \<Rightarrow> nat \<Rightarrow> daemon_options
     \<Rightarrow> (('s broadcast_sink, 't, 'j) live \<Rightarrow> ('s broadcast_sink, 't, 'j) live)
     \<Rightarrow> io_error + unit \<Rightarrow> serve_event list \<Rightarrow> 'w
     \<Rightarrow> ((string + unit) \<times> ('s broadcast_sink, 't, 'j) live daemon_end \<times> 'w) option" where
  "run_daemon env ga ha globs watch cx arrivals jw now options session signal events w =
     (case validate_options options of
        Inl m \<Rightarrow> Some (Inl m, Not_started, w)
      | Inr (checkpoint, event) \<Rightarrow>
     (case prepare_daemon env options w of
        (Inl m, w) \<Rightarrow> Some (Inl m, Not_started, w)
      | (Inr _, w) \<Rightarrow>
     (case de_open_sink env (durable_sink_mode (cx_version cx) ga ha options checkpoint event) w of
        (Inl m, w) \<Rightarrow> Some (Inl m, Not_started, w)
      | (Inr sink, w) \<Rightarrow>
     (case start (de_roots env w) (de_disp env) globs watch cx (daemon_config options)
             (fst (broadcast_new sink 1024)) arrivals jw now of
        Inl e \<Rightarrow> Some (Inl (de_show_error env e), Not_started, w)
      | Inr (l, setup) \<Rightarrow> run_session env cx options session signal events l w))))"
section \<open>Reports of the handle and reachability\<close>

lemma handle_touched_step: "live_step cx l (handle_touched now (lv_now l) paths raw_events l)"
  using watch_step.notified [of "Observe now (lv_now l) paths raw_events" l cx]
  by (simp add: live_step_def handle_touched_def)

lemma handle_overflow_step: "live_step cx l (handle_overflow (lv_now l) source raw_events l)"
  using watch_step.notified [of "Report_overflow (lv_now l) source raw_events" l cx]
  by (simp add: live_step_def handle_overflow_def)

lemma live_step_reachable:
  assumes "live_step cx l l'" and "reachable cx (lv_core l) es"
  shows "\<exists>es'. reachable cx (lv_core l') es' \<and> csteps cx (lv_core l, es) (lv_core l', es')"
  using assms(1)
proof (cases rule: live_step_core)
  case same
  then show ?thesis using assms(2) by auto
next
  case (input n)
  have "cstep cx (lv_core l, es) (lv_core l', es)" unfolding input by (rule notify)
  moreover have "reachable cx (lv_core l') es" unfolding input by (rule reachable.notified [OF assms(2)])
  ultimately show ?thesis by blast
next
  case (handled c r)
  then obtain es' where "csteps cx (lv_core l, es) (lv_core l', es')"
    using handle_command_steps [OF handled(1) reachable_inv(1) [OF assms(2)]] by blast
  then show ?thesis using reachable.commanded [OF assms(2) handled(1)] by blast
qed

lemma live_steps_reachable:
  assumes "live_steps cx l l'" and "reachable cx (lv_core l) es"
  shows "\<exists>es'. reachable cx (lv_core l') es' \<and> csteps cx (lv_core l, es) (lv_core l', es')"
  using assms
proof (induction rule: rtranclp_induct)
  case (step l1 l2)
  then obtain es1 where "reachable cx (lv_core l1) es1" "csteps cx (lv_core l, es) (lv_core l1, es1)" by blast
  then show ?case using live_step_reachable [OF step.hyps(2)] by (meson rtranclp_trans)
qed auto

section \<open>What the last flush leaves in the directory\<close>

lemma flushed_manifest:
  assumes "directory_flush_session shadow request k = (Inr u, t)"
  shows "di_failed t = None
    \<and> (\<exists>m. sd_manifest (di_disk t) = Some m \<and> sm_durable_seq m = Some (sm_last_seq (di_manifest t)))"
  using assms
proof (cases rule: flush_session_cases)
  case (published w x d)
  note p = publish_session_simps [OF published(5)]
  have "\<exists>stats. x = Inr stats" and d: "di_disk t = d" using p published(4) by auto
  then have "sd_manifest d = Some (durable_manifest ((di_manifest k)\<lparr>sm_last_op := fr_last_op request\<rparr>))"
    using publish_step [OF published(4)] by blast
  then show ?thesis using d p published(1) by (simp add: durable_manifest_def)
qed simp

lemma stream_last_seq_inj:
  assumes "stream_ok sid sv es" and "prefix log es" and "last_seq log = last_seq es"
    and "length es < 2 ^ 64" and "es \<noteq> []"
  shows "log = es"
proof -
  have seq: "ev_seq (es ! i) = word_of_nat i" if "i < length es" for i
    using assms(1) that by (simp add: stream_from_nth)
  obtain rest where rest: "es = log @ rest" using assms(2) by (auto simp: prefix_def)
  have "log \<noteq> []" using assms(3,5) by (auto simp: last_seq_def split: if_splits)
  then have len: "length log - 1 < length es" "length es - 1 < length es"
    using rest by (cases log; simp)+
  with \<open>log \<noteq> []\<close> have "ev_seq (es ! (length log - 1)) = ev_seq (es ! (length es - 1))"
    using assms(3,5) rest by (simp add: last_seq_def last_conv_nth nth_append split: if_splits)
  then have "word_of_nat (length log - 1) = (word_of_nat (length es - 1) :: u64)"
    using seq [of "length log - 1"] seq [of "length es - 1"] len by metis
  then have "length log - 1 = length es - 1"
    using assms(4) rest by (simp add: word_of_nat_eq_iff take_bit_nat_eq_self)
  then show ?thesis using rest \<open>log \<noteq> []\<close> by (cases log) auto
qed

section \<open>Runs that end\<close>

lemma ended_cases:
  assumes "run_daemon env ga ha globs watch cx arrivals jw now options session signal events w
      = Some (r, Ended l, w')"
  obtains checkpoint event sink w1 w2 l0 ws reply where
    "de_open_sink env (durable_sink_mode (cx_version cx) ga ha options checkpoint event) w1 = (Inr sink, w2)"
    "start (de_roots env w2) (de_disp env) globs watch cx (daemon_config options)
       (fst (broadcast_new sink 1024)) arrivals jw now = Inr (l0, ws)"
    "send cx (Shutdown ''terminated'') (session l0) = Some (R_unit reply, l)"
    "r = Inr () \<Longrightarrow> reply = Inr ()"
proof -
  from assms obtain checkpoint event sink w1 w2 l0 ws where
    o: "de_open_sink env (durable_sink_mode (cx_version cx) ga ha options checkpoint event) w1 = (Inr sink, w2)"
      "start (de_roots env w2) (de_disp env) globs watch cx (daemon_config options)
         (fst (broadcast_new sink 1024)) arrivals jw now = Inr (l0, ws)"
      "run_session env cx options session signal events l0 w2 = Some (r, Ended l, w')"
    by (auto simp: run_daemon_def split: sum.splits prod.splits)
  from o(3) obtain result where e: "end_daemon (de_show_error env) cx result (session l0) = Some (r, l)"
    by (auto simp: run_session_def split: sum.splits prod.splits option.splits)
  then obtain rep where s: "send cx (Shutdown ''terminated'') (session l0) = Some (rep, l)"
    by (auto simp: end_daemon_def handle_shutdown_def split: option.splits prod.splits)
  then obtain reply where reply: "rep = R_unit reply"
    by (auto simp: send_def map_reply_def split: option.splits)
  have "reply = Inr ()" if "r = Inr ()"
    using e s reply that by (auto simp: end_daemon_def handle_shutdown_def split: sum.splits)
  then show thesis using that o(1,2) s reply by blast
qed
text \<open>
  A daemon in local mode: opening its durable sink creates the directory sink on the session
  directory it finds.
\<close>

definition opens_local ::
  "(durable_mode \<Rightarrow> ('w, string, directory_sink) op) \<Rightarrow> directory_fs \<Rightarrow> io_fault list \<Rightarrow> session_disk
     \<Rightarrow> string list \<Rightarrow> string \<Rightarrow> bool" where
  "opens_local open_sink fs faults disk dir session_id \<longleftrightarrow>
     (\<forall>mode w d w'. open_sink mode w = (Inr d, w') \<longrightarrow>
        (\<exists>spool target max_bytes format. mode = Local_mode spool target max_bytes format
           \<and> directory_create fs faults disk spool dir session_id format max_bytes = Inr d))"

text \<open>A recorder that has just flushed: the reader opens the whole session.\<close>

lemma flushed_opens:
  assumes "so_flush_session (broadcast_ops (directory_ops disp tv shadow)) request k = (Inr (), b)"
    and "recorded tv (bs_durable b) es" and "stream_ok sid SCHEMA_VERSION es" and "length es < 2 ^ 64"
    and "list_all (text_codec_ok tv (re_from_str env)) es" and "reads_disk env root (di_disk (bs_durable b))"
  shows "\<exists>m. session_open env root = Inr \<lparr>rs_root = root, rs_manifest = m, rs_timeline = es\<rparr>"
proof -
  have ne: "es \<noteq> []" using assms(2) by (simp add: recorded_def served_def)
  obtain u where "directory_flush_session shadow request (bs_durable k) = (Inr u, bs_durable b)"
    using assms(1) by (auto simp: broadcast_ops_def lift_durable_def directory_ops_def split: prod.splits)
  from flushed_manifest [OF this] obtain m where m: "di_failed (bs_durable b) = None"
    "sd_manifest (di_disk (bs_durable b)) = Some m"
    "sm_durable_seq m = Some (sm_last_seq (di_manifest (bs_durable b)))"
    by blast
  then have n: "Some (sm_last_seq (di_manifest (bs_durable b))) = last_seq es"
    using assms(2) ne by (simp add: recorded_def served_def last_seq_def)
  from recorded_opens [OF assms(2,3,5,6) m(2,3)] obtain log where log: "prefix log es"
    "last_seq log = last_seq es"
    "session_open env root = Inr \<lparr>rs_root = root, rs_manifest = m, rs_timeline = log\<rparr>"
    unfolding n by blast
  then show ?thesis using stream_last_seq_inj [OF assms(3) log(1,2) assms(4) ne] by blast
qed

lemma local_format:
  "durable_sink_mode version ga ha options checkpoint event = Local_mode spool dir max_bytes format \<Longrightarrow>
     format = daemon_format version"
  by (auto simp: durable_sink_mode_def remote_mode_def
      split: option.splits checkpoint_backend.splits event_backend.splits)
lemma send_shutdown:
  "send cx (Shutdown reason) l = Some (R_unit (Inr u), l') \<Longrightarrow>
     finish cx reason (lv_core l) = Some (Inr (), lv_core l')"
  by (auto simp: send_def map_reply_def core_moved_def split: option.splits prod.splits)

context sink_contract
begin

text \<open>What a shutdown after any live steps leaves, of any sink: the whole log, and its last flush.\<close>

lemma session_terminates:
  assumes "reachable cx (lv_core l0) es0" and "accepted (co_sink (lv_core l0)) es0" and "cx_sink cx = ops"
    and "live_steps cx l0 l1" and "finish cx reason (lv_core l1) = Some (Inr u, s)"
  obtains es1 fs e1 e2 v fl k r where "accepted (co_sink (lv_core l1)) es1"
    "accepted k ((es1 @ fs) @ [e1, e2])" "accepted (co_sink s) ((es1 @ fs) @ [e1, e2])"
    "so_flush_session ops r k = (Inr (), co_sink s)" "fr_checkpoint r = commit_id (co_recorder s)"
    "ev_body e1 = Session_end v" "se_reason v = reason" "ev_body e2 = Flush fl"
    "session_inv cx s ((es1 @ fs) @ [e1, e2])"
    "\<forall>p. tracked p (lv_core l1) es1 \<longrightarrow> reported p (es1 @ fs)"
proof -
  note at = csteps_accepted [OF _ assms(3)]
  obtain es1 where es1: "reachable cx (lv_core l1) es1" "csteps cx (lv_core l0, es0) (lv_core l1, es1)"
    using live_steps_reachable [OF assms(4,1)] by blast
  obtain fs e1 e2 t k r where f: "csteps cx (lv_core l1, es1) (s, es1 @ fs @ [e1, e2])"
    "ev_body e1 = Session_end \<lparr>se_final_op = op_id (co_recorder t), se_reason = reason,
       se_snapshots = co_snapshots t, se_events = co_seq t\<rparr>"
    "ev_body e2 = Flush \<lparr>fl_op = op_id (co_recorder t), fl_through_seq = co_seq t + 1\<rparr>"
    "session_inv cx t (es1 @ fs)" "retry_due (lv_core l1) \<longrightarrow> co_pending_snapshot_event t = None"
    "\<forall>p. tracked p (lv_core l1) es1 \<longrightarrow> reported p (es1 @ fs)" "held_nothing s"
    "csteps cx (lv_core l1, es1) (k, es1 @ fs @ [e1, e2])"
    "so_flush_session (cx_sink cx) r (co_sink k) = (Inr (), co_sink s)"
    "fr_checkpoint r = commit_id (co_recorder s)"
    by (rule finish_shape [OF es1(1) assms(5)])
  have a: "accepted (co_sink (lv_core l1)) es1" using at [OF es1(2)] assms(2) by simp
  have "accepted (co_sink k) (es1 @ fs @ [e1, e2])" "accepted (co_sink s) (es1 @ fs @ [e1, e2])"
    using at [OF f(8)] at [OF f(1)] a by simp_all
  moreover have "session_inv cx s (es1 @ fs @ [e1, e2])"
    by (rule csteps_session_inv [OF f(1) reachable_inv(2) [OF es1(1)]])
  ultimately show thesis
    using f(6,9) assms(3) by (intro that [OF a _ _ _ f(10,2) _ f(3)]) simp_all
qed

end

lemma started_recorded:
  assumes "start env disp' globs watch cx config (fst (broadcast_new d 1024)) arrivals jw now = Inr (l0, ws)"
    and "directory_create fs faults disk spool_path dir session_id (daemon_format version) max_bytes = Inr d"
    and "df_spool fs = []" and "sd_events disk = None" and "sd_manifest disk = None"
    and "cx_sink cx = broadcast_ops (directory_ops disp tv shadow)"
  obtains e where "reachable cx (lv_core l0) [e]" "recorded tv (bs_durable (co_sink (lv_core l0))) [e]"
    "bs_sent (co_sink (lv_core l0)) = [e]"
proof -
  from assms(1) obtain s0 where s0: "initialize cx config (fst (broadcast_new d 1024))
      accumulator_new arrivals jw = Inr s0" "l0 = live_start now s0"
    by (auto simp: start_def split: sum.splits)
  have f: "fm_session_format (daemon_format version) = SESSION_FORMAT_VERSION"
    "fm_schema_version (daemon_format version) = SCHEMA_VERSION" by (simp_all add: daemon_format_def)
  show thesis
    by (rule recorded_begins [OF assms(2-5) f assms(6) demo_accumulator s0(1)])
      (use s0(2) that in \<open>simp add: live_start_def\<close>)
qed

text \<open>
  A late failure abandons the session: when the control socket cannot be bound or secured, or the
  configured origin is not one, \<open>run_daemon\<close> returns an error after the coordinator has accepted
  \<open>session_start\<close> and without a shutdown, so that nothing ends the session; and the same command
  is refused from then on, because the shadow root is no longer empty.
\<close>

theorem late_failure_abandons:
  assumes "run_daemon env ga ha globs watch cx arrivals jw now options session signal events w
      = Some (r, Abandoned l, w')"
  shows "(\<exists>m. r = Inl m)
    \<and> (\<exists>e v. reachable cx (lv_core l) [e] \<and> ev_body e = Session_start v)
    \<and> (\<forall>roots sink jw' now'. rt_is_dir roots (op_root options) \<longrightarrow> rt_exists roots (op_shadow options) \<longrightarrow>
         rt_has_entries roots (op_shadow options) = Inr True \<longrightarrow>
         start roots (de_disp env) globs watch cx (daemon_config options) sink arrivals jw' now'
           = Inl (Recorder_failed ''shadow root must be empty''))"
proof -
  from assms obtain sink w2 ws m where
    o: "start (de_roots env w2) (de_disp env) globs watch cx (daemon_config options)
         (fst (broadcast_new sink 1024)) arrivals jw now = Inr (l, ws)" "r = Inl m"
    by (auto simp: run_daemon_def run_session_def split: sum.splits prod.splits option.splits)
  from o(1) obtain s0 where s0: "initialize cx (daemon_config options) (fst (broadcast_new sink 1024))
      accumulator_new arrivals jw = Inr s0" "l = live_start now s0"
    by (auto simp: start_def split: sum.splits)
  obtain baseline where "reachable cx s0 [start_event cx (daemon_config options) baseline]"
    by (rule initialize_reachable [OF demo_accumulator s0(1)])
  moreover have "\<exists>v. ev_body (start_event cx (daemon_config options) baseline) = Session_start v"
    by (simp add: start_event_def start_body_def)
  ultimately show ?thesis
    using o(2) s0(2) by (auto simp: live_start_def start_def validate_roots_def daemon_config_def)
qed

section \<open>A daemon in local mode\<close>

definition dm_options :: daemon_options where
  "dm_options = demo_options\<lparr>op_events := ''/s/spool'', op_session_dir := Some ''/s/session'',
     op_git_remote_url := None, op_event_http_url := None\<rparr>"

definition dm_env :: "(unit, directory_sink) daemon_env" where
  "dm_env =
     \<lparr>de_disp = (\<lambda>e. []), de_http = Some (''127.0.0.1:7347'', True),
      de_bind_http = (\<lambda>address w. (Inr (), w)), de_create_dir_all = (\<lambda>path w. (Inr (), w)),
      de_socket = \<lparr>se_is_socket = (\<lambda>w. Inl (Os_error 2)), se_connect = Pair (Inr ()), se_remove = Pair (Inr ())\<rparr>,
      de_open_sink = (\<lambda>mode w.
        case mode of
          Local_mode spool target max_bytes format \<Rightarrow>
            (case directory_create pub_fs [] pub_disk spool [''s'', ''session''] ''demo'' format max_bytes of
               Inl e \<Rightarrow> (Inl [], w)
             | Inr d \<Rightarrow> (Inr d, w))
        | _ \<Rightarrow> (Inl [], w)),
      de_roots = (\<lambda>w. demo_roots), de_bind_control = Pair (Inr ()), de_secure_control = Pair (Inr ()),
      de_parse_origin = Inr, de_remove_socket = id, de_show_error = (\<lambda>e. [])\<rparr>"

text \<open>While the daemon serves, a client is about to pause the session: the flag is set.\<close>

definition dm_session ::
  "(directory_sink broadcast_sink, nat, nat) live \<Rightarrow> (directory_sink broadcast_sink, nat, nat) live" where
  "dm_session l = l\<lparr>lv_paused := True, lv_paused_changed := True\<rparr>"

definition dm_run ::
  "((string + unit) \<times> (directory_sink broadcast_sink, nat, nat) live daemon_end \<times> unit) option" where
  "dm_run = run_daemon dm_env None None demo_globs (\<lambda>p. Inr ()) pub_cx [] 0 0 dm_options dm_session
     (Inr ()) [Accepted, Terminated True] ()"

definition dm_log :: "(directory_sink broadcast_sink, nat, nat) live \<Rightarrow> event list" where
  "dm_log l = bs_sent (co_sink (lv_core l))"

lemma ended_case:
  "(case y of Some (Inr u, Ended l, w) \<Rightarrow> P l | _ \<Rightarrow> False) \<Longrightarrow>
     \<exists>l. y = Some (Inr (), Ended l, ()) \<and> P l"
  by (auto split: option.splits prod.splits sum.splits daemon_end.splits)

lemma dm_ran:
  "\<exists>l. dm_run = Some (Inr (), Ended l, ()) \<and> length (dm_log l) = 3
    \<and> list_all (text_codec_ok pub_encode (pub_decode (dm_log l))) (dm_log l)"
  by (rule ended_case) code_simp

lemma dm_opens: "opens_local (de_open_sink dm_env) pub_fs [] pub_disk [''s'', ''session''] ''demo''"
  by (auto simp: opens_local_def dm_env_def split: durable_mode.splits sum.splits)

text \<open>The same daemon when its control socket cannot be bound.\<close>

definition dm_refused ::
  "((string + unit) \<times> (directory_sink broadcast_sink, nat, nat) live daemon_end \<times> unit) option" where
  "dm_refused = run_daemon (dm_env\<lparr>de_bind_control := Pair (Inl ''bind control socket'')\<rparr>) None None
     demo_globs (\<lambda>p. Inr ()) pub_cx [] 0 0 dm_options dm_session (Inr ()) [Accepted, Terminated True] ()"

lemma abandoned_case:
  "(case y of Some (Inl m, Abandoned l, w) \<Rightarrow> P m | _ \<Rightarrow> False) \<Longrightarrow>
     \<exists>m l. y = Some (Inl m, Abandoned l, ()) \<and> P m"
proof (cases y)
  case (Some z)
  assume c: "case y of Some (Inl m, Abandoned l, w) \<Rightarrow> P m | _ \<Rightarrow> False"
  obtain r d w where z: "z = (r, d, w)" by (rule prod_cases3)
  show ?thesis by (cases d; cases r) (use c Some z in simp_all)
qed simp

lemma dm_refused_run: "\<exists>m l. dm_refused = Some (Inl m, Abandoned l, ()) \<and> m = ''bind control socket''"
  by (rule abandoned_case) code_simp

theorem late_failure_abandons_witness:
  "\<exists>l e v. dm_refused = Some (Inl ''bind control socket'', Abandoned l, ())
    \<and> reachable pub_cx (lv_core l) [e] \<and> ev_body e = Session_start v"
proof -
  from dm_refused_run obtain l where l: "dm_refused = Some (Inl ''bind control socket'', Abandoned l, ())"
    by blast
  from late_failure_abandons [OF l [unfolded dm_refused_def]] show ?thesis using l by blast
qed

end
