(* ===== verification/Remote_Contract.thy ===== *)
theory Remote_Contract
  imports Durable_Sink
begin

text \<open>
  The contracts of the remotes of a durable session sink (\<open>crates/rrjj-sinks/src/durable.rs\<close>): what
  a checkpoint sink and an event sink promise of the repository and the server behind them, and
  what a flush over two sinks that keep their promises delivers. \<open>Remote_Http\<close> and \<open>Remote_Git\<close>
  interpret them for the sinks of the program.
\<close>

section \<open>What a remote promises\<close>

text \<open>
  A checkpoint sink whose remote ref is \<open>tip\<close>: a publication that succeeds names the canonical id
  of the requested commit, and the ref is there.
\<close>

locale checkpoint_contract =
  fixes publish :: "'c checkpoint_sink"
    and well :: "'c \<Rightarrow> bool"
    and tip :: "'c \<Rightarrow> string option"
  assumes checkpoint_keeps: "well s \<Longrightarrow> publish q s = (r, t) \<Longrightarrow> well t"
    and checkpoint_moves: "well s \<Longrightarrow> publish q s = (Inr p, t) \<Longrightarrow>
      normalize_commit_oid (cr_commit q) = Inr (cp_checkpoint p) \<and> tip t = Some (cp_checkpoint p)"

text \<open>
  An event sink whose server holds the events \<open>stored\<close>: it loses none, gets none but those of the
  requests, and an acknowledgement through a number covers every number up to it.
\<close>

locale event_contract =
  fixes publish :: "'e event_sink"
    and well :: "'e \<Rightarrow> bool"
    and stored :: "'e \<Rightarrow> event set"
  assumes event_keeps: "well s \<Longrightarrow> publish q s = (r, t) \<Longrightarrow>
      well t \<and> stored s \<subseteq> stored t \<and> stored t \<subseteq> stored s \<union> set (ep_events q)"
    and event_acks: "well s \<Longrightarrow> publish q s = (Inr a, t) \<Longrightarrow>
      {..ea_accepted_through_seq a} \<subseteq> ev_seq ` stored t"

definition remote_accepted ::
  "('c \<Rightarrow> bool) \<Rightarrow> ('e \<Rightarrow> bool) \<Rightarrow> ('e \<Rightarrow> event set) \<Rightarrow> ('c, 'e) durable_sink \<Rightarrow> event list \<Rightarrow> bool" where
  "remote_accepted cwell ewell stored s es \<longleftrightarrow>
     nj_accepted (ds_journal s) = es \<and> cwell (ds_checkpoint s) \<and> ewell (ds_events s)
     \<and> stored (ds_events s) \<subseteq> set es"

lemma stream_seq_inj:
  assumes "stream_ok sid sv es" and "length es \<le> 2 ^ 64" and "e \<in> set es" and "f \<in> set es"
    and "ev_seq e = ev_seq f"
  shows "e = f"
proof -
  obtain i j where i: "i < length es" "e = es ! i" and j: "j < length es" "f = es ! j"
    using assms(3,4) by (metis in_set_conv_nth)
  have "(word_of_nat i :: u64) = word_of_nat j"
    using assms(5) i j stream_from_nth [OF assms(1)] by simp
  then have "i = j"
    using i(1) j(1) assms(2) by (simp add: word_of_nat_eq_iff take_bit_nat_eq_self)
  then show ?thesis using i j by simp
qed

text \<open>A set of events of the stream that has every number up to the last is the whole stream.\<close>

lemma stored_all:
  assumes "stream_ok sid sv es" and "length es \<le> 2 ^ 64" and "es \<noteq> []"
    and "S \<subseteq> set es" and "{..ev_seq (last es)} \<subseteq> ev_seq ` S"
  shows "S = set es"
proof
  show "set es \<subseteq> S"
  proof
    fix e assume e: "e \<in> set es"
    then obtain i where i: "i < length es" "e = es ! i" by (metis in_set_conv_nth)
    obtain n where n: "length es = Suc n" using assms(3) by (cases es) simp_all
    then have "ev_seq e = word_of_nat i" "ev_seq (last es) = word_of_nat n"
      using stream_from_nth [OF assms(1)] i assms(3) by (simp_all add: last_conv_nth)
    moreover have "(word_of_nat i :: u64) \<le> word_of_nat n"
      using i(1) n assms(2) by (simp add: word_le_nat_alt unat_of_nat take_bit_nat_eq_self)
    ultimately obtain f where f: "f \<in> S" "ev_seq f = ev_seq e" using assms(5) by fastforce
    then show "e \<in> S" using stream_seq_inj [OF assms(1,2) e, of f] assms(4) by auto
  qed
qed (rule assms(4))

lemma durable_flush_calls:
  assumes "durable_flush_session pc pe q s = (r, t)"
  shows "(ds_checkpoint t = ds_checkpoint s \<or> (\<exists>cq x. pc cq (ds_checkpoint s) = (x, ds_checkpoint t)))
    \<and> (ds_events t = ds_events s
       \<or> (\<exists>eq x. ep_events eq = nj_accepted (ds_journal s) \<and> pe eq (ds_events s) = (x, ds_events t)))"
proof (cases r)
  case (Inr u)
  then show ?thesis
    using durable_flush_parts assms unfolding flush_publish_request_def by fastforce
next
  case (Inl x)
  show ?thesis
    using assms unfolding durable_flush_session_def Inl
    by (elim bindE_InlE; (drule nj_flush_accepted)?; (auto dest!: durable_frames nj_flush_accepted
        simp: events_through_def flush_publish_request_def split: if_splits); blast)
qed

locale remote_contract = checkpoint_contract pc cwell tip + event_contract pe ewell stored
  for pc :: "'c checkpoint_sink" and cwell tip and pe :: "'e event_sink" and ewell stored
begin

lemma flush_keeps_accepted:
  assumes "durable_flush_session pc pe q s = (r, t)" and "remote_accepted cwell ewell stored s es"
  shows "remote_accepted cwell ewell stored t es"
proof -
  have "nj_accepted (ds_journal t) = nj_accepted (ds_journal s)" by (rule durable_flush_accepted [OF assms(1)])
  moreover note calls = durable_flush_calls [OF assms(1)]
  have "cwell (ds_checkpoint t)"
    using calls [THEN conjunct1] assms(2) checkpoint_keeps by (auto simp: remote_accepted_def)
  moreover have "ewell (ds_events t) \<and> stored (ds_events t) \<subseteq> set es"
    using calls [THEN conjunct2]
  proof (elim disjE exE conjE)
    fix eq x assume "ep_events eq = nj_accepted (ds_journal s)" "pe eq (ds_events s) = (x, ds_events t)"
    then show ?thesis using event_keeps [of "ds_events s" eq] assms(2) by (fastforce simp: remote_accepted_def)
  qed (use assms(2) in \<open>simp add: remote_accepted_def\<close>)
  ultimately show ?thesis using assms(2) by (simp add: remote_accepted_def)
qed

sublocale remote_sink: sink_contract "durable_ops tv pc pe" "remote_accepted cwell ewell stored" for tv
proof unfold_locales
  show "remote_accepted cwell ewell stored t (es @ [e])"
    if a: "remote_accepted cwell ewell stored s es" "so_emit (durable_ops tv pc pe) e s = (Inr u, t)"
    for tv s es e u t
  proof -
    obtain j where "nj_emit tv e (ds_journal s) = (Inr u, j)" "t = s\<lparr>ds_journal := j\<rparr>"
      using a(2) by (auto simp: durable_ops_def dest!: on_journal_frame)
    then show ?thesis using a(1) nj_emit_ok by (fastforce simp: remote_accepted_def)
  qed
  show "remote_accepted cwell ewell stored t es"
    if a: "remote_accepted cwell ewell stored s es" "so_emit (durable_ops tv pc pe) e s = (Inl x, t)"
    for tv s es e x t
  proof -
    obtain j where "nj_emit tv e (ds_journal s) = (Inl x, j)" "t = s\<lparr>ds_journal := j\<rparr>"
      using a(2) by (auto simp: durable_ops_def dest!: on_journal_frame)
    then show ?thesis using a(1) nj_emit_err by (fastforce simp: remote_accepted_def)
  qed
  show "remote_accepted cwell ewell stored t es"
    if a: "remote_accepted cwell ewell stored s es" "so_flush (durable_ops tv pc pe) s = (r, t)"
    for tv s es r t
  proof -
    obtain j where "nj_flush (ds_journal s) = (r, j)" "t = s\<lparr>ds_journal := j\<rparr>"
      using a(2) by (auto simp: durable_ops_def dest!: on_journal_frame)
    then show ?thesis using a(1) nj_flush_accepted by (fastforce simp: remote_accepted_def)
  qed
  show "remote_accepted cwell ewell stored t es"
    if "remote_accepted cwell ewell stored s es" "so_flush_session (durable_ops tv pc pe) fr s = (r, t)"
    for tv s es fr r t
    using that flush_keeps_accepted by (simp add: durable_ops_def)
qed

text \<open>
  A flush of the whole stream that succeeds: the server holds exactly its events, and the remote
  ref is at the commit of the flush.
\<close>

lemma flush_delivers:
  assumes "durable_flush_session pc pe q s = (Inr u, t)" and "remote_accepted cwell ewell stored s es"
    and "stream_ok sid sv es" and "length es \<le> 2 ^ 64"
  shows "stored (ds_events t) = set es
    \<and> (\<exists>commit oid. (case fr_checkpoint q of Some c \<Rightarrow> commit = c | None \<Rightarrow> latest_snapshot_commit es = Some commit)
        \<and> normalize_commit_oid commit = Inr oid \<and> tip (ds_checkpoint t) = Some oid)"
proof -
  have j: "nj_accepted (ds_journal s) = es" "cwell (ds_checkpoint s)" "ewell (ds_events s)"
    using assms(2) by (simp_all add: remote_accepted_def)
  from durable_flush_parts [OF assms(1)] obtain commit publication checkpoint ack where
    f: "es \<noteq> []" "ev_seq (last es) = fr_last_seq q"
      "case fr_checkpoint q of Some c \<Rightarrow> commit = c | None \<Rightarrow> latest_snapshot_commit es = Some commit"
      "pc (flush_checkpoint_request q (ds_session_id s) commit) (ds_checkpoint s) = (Inr publication, ds_checkpoint t)"
      "pe (flush_publish_request q (ds_session_id s) checkpoint es) (ds_events s) = (Inr ack, ds_events t)"
      "fr_last_seq q \<le> ea_accepted_through_seq ack"
    unfolding j(1) by blast
  have "normalize_commit_oid commit = Inr (cp_checkpoint publication)"
    "tip (ds_checkpoint t) = Some (cp_checkpoint publication)"
    using checkpoint_moves [OF j(2) f(4)] by (simp_all add: flush_checkpoint_request_def)
  moreover have "stored (ds_events t) = set es"
  proof (rule stored_all [OF assms(3,4) f(1)])
    show "stored (ds_events t) \<subseteq> set es"
      using flush_keeps_accepted [OF assms(1,2)] by (simp add: remote_accepted_def)
    show "{..ev_seq (last es)} \<subseteq> ev_seq ` stored (ds_events t)"
      using event_acks [OF j(3) f(5)] f(2,6) by fastforce
  qed
  ultimately show ?thesis using f(3) by blast
qed

end

end
