(* ===== verification/Remote_Http.thy ===== *)
theory Remote_Http
  imports Remote_Contract Http_Sink
begin

text \<open>
  The HTTP event sink keeps the contract of an event sink, whatever the responses, when the server
  keeps its protocol; a server that does; and a cursor file left over from another session.
\<close>

section \<open>The HTTP sink\<close>

text \<open>
  The server of the HTTP protocol: it stores what it is sent and nothing else, loses nothing, and an
  acknowledgement through a number means that it holds every number up to it.
\<close>

definition keeps_events :: "'w http_env \<Rightarrow> ('w \<Rightarrow> event set) \<Rightarrow> bool" where
  "keeps_events env stored \<longleftrightarrow>
     (\<forall>b w r w'. he_send env b w = (r, w') \<longrightarrow>
        stored w \<subseteq> stored w' \<and> stored w' \<subseteq> stored w \<union> set (hb_events b)
        \<and> (\<forall>response text ack. r = Inr response \<longrightarrow> hr_text response = Inr text \<longrightarrow>
             classify_http_status (hr_status response) \<in> {Success, Conflict} \<longrightarrow>
             he_parse_ack env text = Inr ack \<longrightarrow>
             {..ea_accepted_through_seq ack} \<subseteq> ev_seq ` stored w'))"

text \<open>The cursor says no more than the server holds.\<close>

definition http_well :: "'w http_env \<Rightarrow> ('w \<Rightarrow> event set) \<Rightarrow> 'w http_sink \<Rightarrow> bool" where
  "http_well env stored s \<longleftrightarrow>
     keeps_events env stored
     \<and> (\<forall>d. hs_delivered_seq s = Some d \<longrightarrow> {..d} \<subseteq> ev_seq ` stored (hs_world s))"

text \<open>What a post of events \<open>es\<close> does to the server.\<close>

definition grows :: "('w \<Rightarrow> event set) \<Rightarrow> event list \<Rightarrow> 'w http_sink \<Rightarrow> 'w http_sink \<Rightarrow> bool" where
  "grows stored es s t \<longleftrightarrow>
     stored (hs_world s) \<subseteq> stored (hs_world t) \<and> stored (hs_world t) \<subseteq> stored (hs_world s) \<union> set es"

lemma grows_trans:
  "grows stored es s t \<Longrightarrow> grows stored fs t u \<Longrightarrow> set es \<subseteq> set gs \<Longrightarrow> set fs \<subseteq> set gs \<Longrightarrow> grows stored gs s u"
  unfolding grows_def by blast

lemma attempt_post_grows:
  assumes "keeps_events env stored" and "attempt_post env batch attempt backoff s = (x, t)"
  shows "grows stored (hb_events batch) s t
    \<and> (\<forall>ack. x = Return (Inr ack) \<longrightarrow> {..ea_accepted_through_seq ack} \<subseteq> ev_seq ` stored (hs_world t))"
proof -
  obtain r w where w: "he_send env batch (hs_world s) = (r, w)" by (rule prod.exhaust)
  note k = assms(1) [unfolded keeps_events_def, rule_format, OF w]
  have t: "hs_world t = w"
    using assms(2) w
    by (auto simp: attempt_post_def Let_def split: sum.splits http_class.splits if_splits)
  have "{..ea_accepted_through_seq ack} \<subseteq> ev_seq ` stored w" if "x = Return (Inr ack)" for ack
  proof -
    from assms(2) w that obtain response body where "r = Inr response" "hr_text response = Inr body"
      "classify_http_status (hr_status response) \<in> {Success, Conflict}" "he_parse_ack env body = Inr ack"
      by (auto simp: attempt_post_def Let_def accept_success_def accept_conflict_def
          split: sum.splits http_class.splits if_splits)
    then show ?thesis using k by blast
  qed
  then show ?thesis using k t by (simp add: grows_def)
qed

lemma post_loop_grows:
  assumes "keeps_events env stored"
  shows "post_loop env batch attempt backoff s = (r, t) \<Longrightarrow> grows stored (hb_events batch) s t
    \<and> (\<forall>ack. r = Inr ack \<longrightarrow> {..ea_accepted_through_seq ack} \<subseteq> ev_seq ` stored (hs_world t))"
  using assms
proof (induction env batch attempt backoff s rule: post_loop.induct)
  case (1 env batch attempt backoff s)
  obtain x u where x: "attempt_post env batch (attempt + 1) backoff s = (x, u)" by (rule prod.exhaust)
  note g = attempt_post_grows [OF 1(3) x]
  show ?case
  proof (cases x)
    case (Return y)
    then show ?thesis
      using 1(2) x g by (cases y) (auto simp: post_loop.simps [of env] acknowledge_def grows_def)
  next
    case (Retry ms)
    then have "post_loop env batch (attempt + 1) (next_backoff backoff) (sleep ms u) = (r, t)"
      using 1(2) x by (simp add: post_loop.simps [of env batch attempt])
    then show ?thesis using 1(1) [OF x [symmetric] Retry _ 1(3)] g by (auto simp: grows_def sleep_def)
  qed
qed

lemma http_well_grows:
  assumes "http_well env stored s" and "hs_delivered_seq t = hs_delivered_seq s" and "grows stored es s t"
  shows "http_well env stored t"
proof -
  have sub: "ev_seq ` stored (hs_world s) \<subseteq> ev_seq ` stored (hs_world t)"
    using assms(3) by (intro image_mono) (simp add: grows_def)
  have "{..d} \<subseteq> ev_seq ` stored (hs_world t)" if "hs_delivered_seq t = Some d" for d
    by (rule subset_trans [OF _ sub]) (use assms(1,2) that in \<open>simp add: http_well_def\<close>)
  then show ?thesis using assms(1) by (simp add: http_well_def)
qed

lemma record_delivery_keeps:
  "record_delivery q ack s = (r, t) \<Longrightarrow>
     hs_world t = hs_world s \<and> hs_delivered_seq t = Some (ea_accepted_through_seq ack)"
  by (auto simp: record_delivery_def split: prod.splits sum.splits)

lemma publish_rest_grows:
  assumes "keeps_events env stored"
  shows "publish_rest env q remaining lastack s = (r, t) \<Longrightarrow> http_well env stored s \<Longrightarrow>
    http_well env stored t \<and> grows stored remaining s t
    \<and> (remaining \<noteq> [] \<longrightarrow> (\<forall>ack. r = Inr ack \<longrightarrow> {..ea_accepted_through_seq ack} \<subseteq> ev_seq ` stored (hs_world t)))"
  using assms
proof (induction env q remaining lastack s arbitrary: r t rule: publish_rest.induct)
  case (1 env q remaining lastack s)
  show ?case
  proof (cases "remaining = []")
    case True
    then show ?thesis using 1(2,3) by (simp add: publish_rest.simps grows_def)
  next
    case False
    show ?thesis
    proof (cases "take_batch (he_to_vec env) (hc_max_events_per_batch (hs_config s))
        (hc_max_bytes_per_batch (hs_config s)) remaining")
      case (Inl e)
      then show ?thesis using 1(2,3) False by (auto simp: publish_rest.simps grows_def)
    next
      case taken: (Inr batch)
      obtain n where n: "batch = take n remaining" using take_batch_nonempty [OF taken False] by blast
      define rest where "rest = drop (length batch) remaining"
      define durable where "durable = (if rest = [] then ep_durable q else None)"
      have sub: "set batch \<subseteq> set remaining" "set rest \<subseteq> set remaining"
        using n by (auto simp: rest_def dest: in_set_takeD in_set_dropD)
      obtain x u where x: "post_batch env q batch durable s = (x, u)" by (rule prod.exhaust)
      note p = post_batch_posted [OF x]
      have g: "grows stored batch s u"
        "\<And>ack. x = Inr ack \<Longrightarrow> {..ea_accepted_through_seq ack} \<subseteq> ev_seq ` stored (hs_world u)"
        using post_loop_grows [OF 1(4) x [unfolded post_batch_def]] by simp_all
      have d: "hs_delivered_seq u = hs_delivered_seq s" using p by (simp add: posted_def)
      have u: "http_well env stored u" by (rule http_well_grows [OF 1(3) d g(1)])
      note step = publish_rest.simps [of env q remaining lastack s, unfolded taken sum.case Let_def,
          folded rest_def, folded durable_def]
      show ?thesis
      proof (cases x)
        case (Inl e)
        then have "r = Inl e" "t = u" using 1(2) False x by (simp_all add: step)
        then show ?thesis using g u sub by (auto simp: grows_def)
      next
        case ack: (Inr ack)
        obtain y v where y: "record_delivery q ack u = (y, v)" by (rule prod.exhaust)
        note v = record_delivery_keeps [OF y]
        have wv: "http_well env stored v" using v g(2) [OF ack] 1(4) by (simp add: http_well_def)
        show ?thesis
        proof (cases y)
          case (Inl e)
          then have "r = Inl e" "t = v" using 1(2) False x ack y by (simp_all add: step)
          then show ?thesis using g v wv sub by (auto simp: grows_def)
        next
          case (Inr z)
          then have run: "publish_rest env q rest ack v = (r, t)" using 1(2) False x ack y by (simp add: step)
          have ih: "http_well env stored t \<and> grows stored rest v t
            \<and> (rest \<noteq> [] \<longrightarrow> (\<forall>ack. r = Inr ack \<longrightarrow> {..ea_accepted_through_seq ack} \<subseteq> ev_seq ` stored (hs_world t)))"
            by (rule 1(1) [OF False taken rest_def durable_def x [symmetric] ack y [symmetric] Inr run wv 1(4)])
          show ?thesis
          proof (cases "rest = []")
            case True
            then have "r = Inr ack" "t = v" using run by (simp_all add: publish_rest.simps)
            then show ?thesis using g(1) g(2) [OF ack] v wv sub by (auto simp: grows_def)
          next
            case False
            moreover have "grows stored batch s v" using g(1) v by (simp add: grows_def)
            ultimately show ?thesis using ih sub by (blast intro: grows_trans)
          qed
        qed
      qed
    qed
  qed
qed

lemma publish_events_grows:
  assumes "http_well env stored s" and "publish_events env q s = (r, t)"
  shows "http_well env stored t \<and> grows stored (ep_events q) s t
    \<and> (\<forall>ack. r = Inr ack \<longrightarrow> {..ea_accepted_through_seq ack} \<subseteq> ev_seq ` stored (hs_world t))"
  using assms(2)
proof (cases rule: publish_events_cases)
  case (refused e)
  then show ?thesis using assms(1) by (simp add: grows_def)
next
  case (all_done d)
  then show ?thesis using assms(1) by (simp add: grows_def http_well_def)
next
  case (posting ack)
  have k: "keeps_events env stored" using assms(1) by (simp add: http_well_def)
  have "set (pending (hs_delivered_seq s) (ep_events q)) \<subseteq> set (ep_events q)"
    by (auto simp: pending_def dest: set_dropWhileD split: option.splits)
  then show ?thesis
    using publish_rest_grows [OF k posting(2) assms(1)] posting(1) unfolding grows_def by blast
qed

interpretation http: event_contract "publish_events env" "http_well env stored" "\<lambda>s. stored (hs_world s)"
    for env :: "'w http_env" and stored
  by unfold_locales (use publish_events_grows in \<open>unfold grows_def; blast\<close>)+

section \<open>A server that stores events\<close>

text \<open>
  A server that stores the events it is sent when they continue its numbering, and acknowledges
  the last one; the acknowledgement is written in unary.
\<close>

definition store_env :: "(event \<Rightarrow> string + bytes) \<Rightarrow> event list http_env" where
  "store_env to_vec =
     \<lparr>he_send = (\<lambda>b w.
        let held = w @ hb_events b in
        if held \<noteq> [] \<and> map ev_seq held = map word_of_nat [0..<length held] then
          (Inr \<lparr>hr_status = 200, hr_retry_after = None, hr_text = Inr (replicate (length held - 1) (CHR ''1''))\<rparr>, held)
        else (Inr \<lparr>hr_status = 400, hr_retry_after = None, hr_text = Inr []\<rparr>, w)),
      he_to_vec = to_vec,
      he_parse_ack = (\<lambda>text. Inr \<lparr>ea_accepted_through_seq = word_of_nat (length text),
        ea_durable_through_seq = Some (word_of_nat (length text))\<rparr>),
      he_display = (\<lambda>e. []), he_status_text = show_nat\<rparr>"

lemma numbered_covers:
  assumes "map ev_seq es = map word_of_nat [0..<length es]" and "es \<noteq> []"
  shows "{..(word_of_nat (length es - 1) :: u64)} \<subseteq> ev_seq ` set es"
proof
  fix m :: u64 assume "m \<in> {..word_of_nat (length es - 1)}"
  then have "unat m \<le> length es - 1"
    by (auto simp: word_le_nat_alt unat_of_nat intro: le_trans [OF _ take_bit_nat_less_eq_self])
  then have i: "unat m < length es" using assms(2) by (cases es) simp_all
  then have "map ev_seq es ! unat m = word_of_nat (unat m)" unfolding assms(1) by (simp del: upt_Suc)
  then have "ev_seq (es ! unat m) = m" using i by simp
  then show "m \<in> ev_seq ` set es" using i by (metis image_eqI nth_mem)
qed

lemma store_keeps: "keeps_events (store_env tv) set"
  unfolding keeps_events_def
proof (intro allI impI)
  fix b w r w' assume s: "he_send (store_env tv) b w = (r, w')"
  let ?h = "w @ hb_events b"
  have "set w \<subseteq> set w' \<and> set w' \<subseteq> set w \<union> set (hb_events b)"
    using s by (auto simp: store_env_def Let_def split: if_splits)
  moreover have "{..ea_accepted_through_seq ack} \<subseteq> ev_seq ` set w'"
    if "r = Inr response" "hr_text response = Inr body"
      "classify_http_status (hr_status response) \<in> {Success, Conflict}" "he_parse_ack (store_env tv) body = Inr ack"
    for response body ack
  proof (cases "?h \<noteq> [] \<and> map ev_seq ?h = map word_of_nat [0..<length ?h]")
    case True
    then have w: "w' = ?h" "body = replicate (length ?h - 1) (CHR ''1'')"
      using s that(1,2) by (auto simp: store_env_def Let_def)
    have "ack = \<lparr>ea_accepted_through_seq = word_of_nat (length body),
        ea_durable_through_seq = Some (word_of_nat (length body))\<rparr>"
      using that(4) by (simp add: store_env_def)
    then show ?thesis using numbered_covers [of ?h] True by (simp add: w)
  next
    case False
    then have "hr_status response = 400" using s that(1) by (auto simp: store_env_def Let_def)
    then show ?thesis using that(3) by (simp add: classify_http_status_def)
  qed
  ultimately show "set w \<subseteq> set w' \<and> set w' \<subseteq> set w \<union> set (hb_events b)
        \<and> (\<forall>response body ack. r = Inr response \<longrightarrow> hr_text response = Inr body \<longrightarrow>
             classify_http_status (hr_status response) \<in> {Success, Conflict} \<longrightarrow>
             he_parse_ack (store_env tv) body = Inr ack \<longrightarrow>
             {..ea_accepted_through_seq ack} \<subseteq> ev_seq ` set w')"
    by blast
qed

section \<open>A cursor left over\<close>

text \<open>
  The cursor of a former run. The cursor file stands beside the journal and does not name its
  session: when a new session uses the same journal path (after the journal, which does name its
  session, has been removed), every event up to the old number counts as delivered. A publication
  of such events succeeds, acknowledges the old number and sends nothing.
\<close>

theorem stale_cursor_skips_events:
  assumes "http_create config file ce w = Inr s" and "read_delivered_seq file = Inr (Some d)"
    and "ep_events q \<noteq> []" and "validate_contiguous (ep_events q) = Inr ()"
    and "\<forall>e \<in> set (ep_events q). ev_seq e \<le> d"
  shows "publish_events env q s
      = (Inr \<lparr>ea_accepted_through_seq = d, ea_durable_through_seq = map_option dw_seq (ep_durable q)\<rparr>, s)
    \<and> hs_sent s = [] \<and> hs_world s = w"
proof -
  have s: "hs_delivered_seq s = Some d" "hs_sent s = []" "hs_world s = w"
    using assms(1,2) by (auto simp: http_create_def split: if_splits sum.splits option.splits)
  moreover have "skip_delivered d (ep_events q) = length (ep_events q)" using assms(5) by (simp add: skip_delivered_all)
  ultimately show ?thesis using assms(3,4) by (simp add: publish_events_def publish_start_def)
qed

theorem stale_cursor_skips_events_witness:
  "\<exists>s. http_create \<lparr>hc_authorization = None, hc_max_events_per_batch = 1, hc_max_bytes_per_batch = 100, hc_max_retries = 0\<rparr>
       \<lparr>cf_content = Some (Inr \<lparr>sc_delivered_seq = Some 5, sc_delivered_op = None, sc_checkpoint = None\<rparr>), cf_faults = []\<rparr>
       None ([] :: event list) = Inr s
     \<and> publish_events (store_env (\<lambda>e. Inr [])) http_request s
       = (Inr \<lparr>ea_accepted_through_seq = 5, ea_durable_through_seq = Some 1\<rparr>, s) \<and> hs_world s = []"
proof -
  let ?c = "\<lparr>hc_authorization = None, hc_max_events_per_batch = 1, hc_max_bytes_per_batch = 100, hc_max_retries = 0\<rparr>"
  let ?f = "\<lparr>cf_content = Some (Inr \<lparr>sc_delivered_seq = Some 5, sc_delivered_op = None, sc_checkpoint = None\<rparr>), cf_faults = []\<rparr>"
  have d: "read_delivered_seq ?f = Inr (Some 5)" by (simp add: read_delivered_seq_def read_cursor_def)
  then obtain s where s: "http_create ?c ?f None ([] :: event list) = Inr s" by (simp add: http_create_def)
  have q: "ep_events http_request \<noteq> []" "validate_contiguous (ep_events http_request) = Inr ()"
    "\<forall>e \<in> set (ep_events http_request). ev_seq e \<le> 5"
    by (simp_all add: http_request_def http_mark_def event_at_def)
  from stale_cursor_skips_events [OF s d q, of "store_env (\<lambda>e. Inr [])"] s show ?thesis
    by (auto simp: http_request_def)
qed

end
