(* ===== verification/Remote_Git.thy ===== *)
theory Remote_Git
  imports Remote_Contract Git_Sink
begin

text \<open>
  The git checkpoint sink keeps the contract of a checkpoint sink, when libgit2 does what its calls
  document and the recorder ref is not the sink's own cache ref; repositories of refs that satisfy
  the laws; and what happens when the configured prefix makes the two refs the same.
\<close>

section \<open>The git sink\<close>

text \<open>
  What the sink relies on of libgit2: \<open>local\<close> and \<open>remote\<close> are the tips of the refs of the shadow
  repository and of the configured remote. Setting a ref sets it, and a ref's name holds no colon
  (git's rules for names refuse it); a remote that can be opened as a
  path shows its refs; a forced fetch into another ref brings the remote's tip there and leaves the
  rest; and a push that is accepted brings the remote ref to the local tip.
\<close>

definition faithful_git ::
  "'g git_env \<Rightarrow> ('g \<Rightarrow> string \<Rightarrow> string option) \<Rightarrow> ('g \<Rightarrow> string \<Rightarrow> string option) \<Rightarrow> bool" where
  "faithful_git env local remote \<longleftrightarrow>
     (\<forall>c oid. canonical_oid c \<longrightarrow> ge_parse_oid env c = Inr oid \<longrightarrow> oid = c)
     \<and> (\<forall>rref oid g g'. ge_reference env rref oid g = (Inr (), g') \<longrightarrow>
          CHR '':'' \<notin> set rref \<and> local g' rref = Some oid)
     \<and> (\<forall>url rref g. ge_open_path env url g \<longrightarrow> ge_path_tip env url rref g = remote g rref)
     \<and> (\<forall>rref cache auth g g'. ge_fetch env (''+'' @ rref @ '':'' @ cache) auth g = (Inr (), g') \<longrightarrow>
          CHR '':'' \<notin> set rref \<longrightarrow> ge_local_tip env cache g' = remote g' rref)
     \<and> (\<forall>rref cache auth g r g'. ge_fetch env (''+'' @ rref @ '':'' @ cache) auth g = (r, g') \<longrightarrow>
          CHR '':'' \<notin> set rref \<longrightarrow> rref \<noteq> cache \<longrightarrow> local g' rref = local g rref)
     \<and> (\<forall>rref auth g g'. ge_push env (rref @ '':'' @ rref) auth g = (Inr None, g') \<longrightarrow>
          CHR '':'' \<notin> set rref \<longrightarrow> remote g' rref = local g rref)"

lemma faithful_gitD:
  assumes "faithful_git env local remote"
  shows "canonical_oid c \<Longrightarrow> ge_parse_oid env c = Inr oid \<Longrightarrow> oid = c"
    and "ge_reference env rref oid g = (Inr (), g') \<Longrightarrow> CHR '':'' \<notin> set rref \<and> local g' rref = Some oid"
    and "ge_open_path env url g \<Longrightarrow> ge_path_tip env url rref g = remote g rref"
    and "ge_fetch env (''+'' @ rref @ '':'' @ cache) auth g = (Inr (), g') \<Longrightarrow> CHR '':'' \<notin> set rref \<Longrightarrow>
      ge_local_tip env cache g' = remote g' rref"
    and "ge_fetch env (''+'' @ rref @ '':'' @ cache) auth g = (r, g') \<Longrightarrow> CHR '':'' \<notin> set rref \<Longrightarrow>
      rref \<noteq> cache \<Longrightarrow> local g' rref = local g rref"
    and "ge_push env (rref @ '':'' @ rref) auth g = (Inr None, g') \<Longrightarrow> CHR '':'' \<notin> set rref \<Longrightarrow>
      remote g' rref = local g rref"
  using assms unfolding faithful_git_def by simp_all

definition cache_ref :: "git_config \<Rightarrow> string" where
  "cache_ref config = ''refs/rrjj/remote-cache/'' @ gc_session_id config"

definition git_well ::
  "'g git_env \<Rightarrow> ('g \<Rightarrow> string \<Rightarrow> string option) \<Rightarrow> ('g \<Rightarrow> string \<Rightarrow> string option) \<Rightarrow> git_config
     \<Rightarrow> 'g git_sink \<Rightarrow> bool" where
  "git_well env local remote config s \<longleftrightarrow>
     faithful_git env local remote \<and> gs_config s = config \<and> session_ref config \<noteq> cache_ref config"

lemma remote_tip_faithful:
  assumes "faithful_git env local remote" and "CHR '':'' \<notin> set rref" and "rref \<noteq> cache_ref config"
    and "remote_tip env config rref g = (Inr tip, g')"
  shows "local g' rref = local g rref \<and> (\<forall>c. tip = Some c \<longrightarrow> remote g' rref = Some c)"
proof (cases "ge_open_path env (gc_remote_url config) g")
  case True
  then show ?thesis using faithful_gitD(3) [OF assms(1) True] assms(4) by (auto simp: remote_tip_def)
next
  case False
  then have f: "fetch_remote_tip env config rref g = (Inr tip, g')"
    using assms(4) by (auto simp: remote_tip_def split: sum.splits)
  obtain x where x: "ge_fetch env (''+'' @ rref @ '':'' @ cache_ref config) (gc_authorization config) g = (x, g')"
    using f by (auto simp: fetch_remote_tip_def cache_ref_def Let_def split: prod.splits sum.splits)
  have "local g' rref = local g rref" using faithful_gitD(5) [OF assms(1) x] assms(2,3) by blast
  moreover have "remote g' rref = Some c" if "tip = Some c" for c
  proof (cases x)
    case (Inr u)
    then have "ge_local_tip env (cache_ref config) g' = remote g' rref"
      using faithful_gitD(4) [OF assms(1)] x assms(2) by simp
    then show ?thesis using f x Inr that by (simp add: fetch_remote_tip_def cache_ref_def Let_def)
  next
    case (Inl m)
    then show ?thesis using f x that by (simp add: fetch_remote_tip_def cache_ref_def Let_def split: if_splits)
  qed
  ultimately show ?thesis by blast
qed

lemma push_moves_ref:
  assumes "faithful_git env local remote" and "rref \<noteq> cache_ref config" and "canonical_oid commit"
    and "push_checkpoint_from_shadow env config shadow rref commit expected g = (Inr p, g')"
  shows "cp_checkpoint p = commit \<and> remote g' rref = Some commit"
  using assms(4)
proof (cases rule: push_cases)
  case (decided g1 tip g2)
  have l1: "CHR '':'' \<notin> set rref" "local g1 rref = Some commit"
  proof -
    from decided(1) obtain oid where "ge_parse_oid env commit = Inr oid" "ge_reference env rref oid g = (Inr (), g1)"
      by (auto simp: local_ref_def Let_def split: sum.splits prod.splits)
    then show "CHR '':'' \<notin> set rref" "local g1 rref = Some commit"
      using faithful_gitD(1,2) [OF assms(1)] assms(3) by metis+
  qed
  note t = remote_tip_faithful [OF assms(1) l1(1) assms(2) decided(2)]
  show ?thesis
  proof (cases "check_lease rref commit expected tip")
    case Already
    then have "tip = Some commit" by (auto simp: check_lease_def split: option.splits if_splits)
    then show ?thesis using decided(3) Already t by auto
  next
    case Advance
    then have "push_ref env config rref commit g2 = (Inr p, g')" using decided(3) by simp
    from push_ref_ok [OF this] have "cp_checkpoint p = commit" "remote g' rref = local g2 rref"
      using faithful_gitD(6) [OF assms(1)] l1(1) by blast+
    then show ?thesis using t l1(2) by simp
  qed (use decided(3) in simp)
qed simp

lemma publish_checkpoint_config: "publish_checkpoint env q s = (r, t) \<Longrightarrow> gs_config t = gs_config s"
  by (auto simp: publish_checkpoint_def Let_def split: sum.splits prod.splits)

lemma publish_checkpoint_moves:
  assumes "git_well env local remote config s" and "publish_checkpoint env q s = (Inr p, t)"
  shows "normalize_commit_oid (cr_commit q) = Inr (cp_checkpoint p)
    \<and> remote (gs_git t) (session_ref config) = Some (cp_checkpoint p)"
proof -
  from assms(2) obtain commit g where c: "normalize_commit_oid (cr_commit q) = Inr commit"
    "push_checkpoint_from_shadow env (gs_config s) (cr_shadow_root q) (session_ref (gs_config s)) commit
       (gs_last_pushed s) (gs_git s) = (Inr p, g)" "gs_git t = g"
    by (auto simp: publish_checkpoint_def Let_def split: sum.splits prod.splits)
  then show ?thesis
    using push_moves_ref [OF _ _ normalize_canonical [OF c(1)] c(2)] assms
    by (auto simp: git_well_def)
qed

interpretation git: checkpoint_contract "publish_checkpoint env" "git_well env local remote config"
    "\<lambda>s. remote (gs_git s) (session_ref config)" for env :: "'g git_env" and local remote config
  by unfold_locales (use publish_checkpoint_moves publish_checkpoint_config in \<open>fastforce simp: git_well_def\<close>)+

section \<open>Repositories of refs\<close>

text \<open>
  A shadow repository and a remote reached over a network as their refs: the laws of
  \<open>faithful_git\<close> hold of it. A refspec is cut at its first colon.
\<close>

record refs =
  rf_local :: "string \<Rightarrow> string option"
  rf_remote :: "string \<Rightarrow> string option"

definition spec_source :: "string \<Rightarrow> string" where
  "spec_source spec = takeWhile (\<lambda>c. c \<noteq> CHR '':'') spec"

definition spec_target :: "string \<Rightarrow> string" where
  "spec_target spec = tl (dropWhile (\<lambda>c. c \<noteq> CHR '':'') spec)"

definition refs_env :: "refs git_env" where
  "refs_env =
     \<lparr>ge_open_bare = (\<lambda>p g. Inr ()), ge_parse_oid = Inr, ge_find_commit = (\<lambda>c g. Inr ()),
      ge_reference = (\<lambda>r c g. if CHR '':'' \<in> set r then (Inl ''invalid reference name'', g)
        else (Inr (), g\<lparr>rf_local := (rf_local g)(r \<mapsto> c)\<rparr>)),
      ge_open_path = (\<lambda>u g. False), ge_path_tip = (\<lambda>u r g. None), ge_remote_anonymous = (\<lambda>u g. Inr ()),
      ge_fetch = (\<lambda>spec a g.
        case rf_remote g (spec_source (tl spec)) of
          None \<Rightarrow> (Inl ''reference not found'', g)
        | Some c \<Rightarrow> (Inr (), g\<lparr>rf_local := (rf_local g)(spec_target spec \<mapsto> c)\<rparr>)),
      ge_local_tip = (\<lambda>r g. rf_local g r),
      ge_push = (\<lambda>spec a g.
        case rf_local g (spec_source spec) of
          None \<Rightarrow> (Inl ''src refspec does not match any existing object'', g)
        | Some c \<Rightarrow> (Inr None, g\<lparr>rf_remote := (rf_remote g)(spec_target spec \<mapsto> c)\<rparr>))\<rparr>"

lemma spec_parts:
  assumes "CHR '':'' \<notin> set r"
  shows "spec_source (r @ CHR '':'' # s) = r" "spec_target (r @ CHR '':'' # s) = s"
    "spec_target (CHR ''+'' # r @ CHR '':'' # s) = s"
proof -
  have "\<And>c. c \<in> set r \<Longrightarrow> c \<noteq> CHR '':''" using assms by blast
  then show "spec_source (r @ CHR '':'' # s) = r" "spec_target (r @ CHR '':'' # s) = s"
    "spec_target (CHR ''+'' # r @ CHR '':'' # s) = s"
    by (simp_all add: spec_source_def spec_target_def takeWhile_append2 dropWhile_append2)
qed

lemma refs_faithful: "faithful_git refs_env rf_local rf_remote"
  unfolding faithful_git_def refs_env_def by (auto simp: spec_parts split: if_splits option.splits)

text \<open>
  A prefix that collides with the sink's own cache. The validation accepts
  \<open>refs/rrjj/remote-cache\<close> as the prefix of recorder refs, and the recorder ref is then the ref
  into which the forced fetch puts the remote's tip: the second publication overwrites the commit
  it has just set, pushes the old tip and reports the new one as published; and from then on the
  remembered tip is not the remote's, so that every publication is refused.
\<close>

definition cache_config :: git_config where
  "cache_config =
     \<lparr>gc_remote_url = ''https://h/r'', gc_authorization = None, gc_ref_prefix = ''refs/rrjj/remote-cache'',
      gc_session_id = ''s''\<rparr>"

definition publish_commits :: "git_config \<Rightarrow> string list
    \<Rightarrow> (sink_error + checkpoint_publication) list \<times> refs git_sink" where
  "publish_commits config commits =
     foldl (\<lambda>(rs, s) commit. case publish_checkpoint refs_env
          \<lparr>cr_shadow_root = ''/x'', cr_session_id = gc_session_id config, cr_commit = commit,
           cr_last_seq = 0, cr_last_op = ''o''\<rparr> s of (r, s) \<Rightarrow> (rs @ [r], s))
       ([], \<lparr>gs_config = config, gs_last_pushed = None, gs_cursor = demo_file,
             gs_git = \<lparr>rf_local = Map.empty, rf_remote = Map.empty\<rparr>\<rparr>) commits"

definition oid_of :: "char \<Rightarrow> string" where
  "oid_of c = replicate 40 c"

theorem cache_prefix_loses_checkpoint:
  "validate_ref_prefix (gc_ref_prefix cache_config) = Inr ()
   \<and> (case publish_commits cache_config [oid_of (CHR ''a''), oid_of (CHR ''b''), oid_of (CHR ''c'')] of
        ([Inr p, Inr q, Inl (CheckpointConflict m)], s) \<Rightarrow>
          cp_checkpoint q = oid_of (CHR ''b'')
          \<and> rf_remote (gs_git s) (session_ref cache_config) = Some (oid_of (CHR ''a''))
      | _ \<Rightarrow> False)"
  by code_simp

end
