(* ===== verification/Remote_Daemon.thy ===== *)
theory Remote_Daemon
  imports Daemon_Run Remote_Http Remote_Git
begin

text \<open>
  The daemon in remote mode (\<open>run_daemon\<close> of \<open>crates/rrjj/src/main.rs\<close> with the git and HTTP
  backends): how it opens its durable sink, and what its session leaves on the remotes.
\<close>

interpretation remote: remote_contract "publish_checkpoint genv" "git_well genv local remote config"
    "\<lambda>s. remote (gs_git s) (session_ref config)" "publish_events henv" "http_well henv stored"
    "\<lambda>s. stored (hs_world s)" for genv :: "'g git_env" and local remote config and henv :: "'w http_env" and stored ..

section \<open>Opening the remote sinks\<close>

text \<open>
  The journal, the two cursor files, the repositories and the server that the daemon finds.
\<close>

record ('g, 'w) remote_setup =
  rm_from_slice :: "bytes \<Rightarrow> string + event"
  rm_journal :: journal_fs
  rm_faults :: "io_fault list"
  rm_git_cursor :: "string option cursor_file"
  rm_git :: 'g
  rm_http_cursor :: "sink_cursor cursor_file"
  rm_client_error :: "string option"
  rm_server :: 'w

definition open_remote ::
  "('g, 'w) remote_setup \<Rightarrow> string \<Rightarrow> u64 \<Rightarrow> git_config \<Rightarrow> http_config
     \<Rightarrow> sink_error + ('g git_sink, 'w http_sink) durable_sink" where
  "open_remote rs path max_spool_bytes git http =
     (case create_for_session (rm_from_slice rs) (rm_journal rs) (rm_faults rs) path max_spool_bytes
             (Some (gc_session_id git)) (Some SCHEMA_VERSION) of
        Inl e \<Rightarrow> Inl e
      | Inr journal \<Rightarrow>
     (case git_create git (rm_git_cursor rs) (rm_git rs) of
        Inl e \<Rightarrow> Inl e
      | Inr checkpoint \<Rightarrow>
     (case http_create http (rm_http_cursor rs) (rm_client_error rs) (rm_server rs) of
        Inl e \<Rightarrow> Inl e
      | Inr events \<Rightarrow> Inr (durable_new journal checkpoint events (gc_session_id git)))))"

text \<open>A first run: no journal, nothing delivered, a server without events of the session.\<close>

definition first_run :: "('w \<Rightarrow> event set) \<Rightarrow> ('g, 'w) remote_setup \<Rightarrow> bool" where
  "first_run stored rs \<longleftrightarrow>
     read_existing (jf_read (rm_journal rs)) = Inr [] \<and> read_delivered_seq (rm_http_cursor rs) = Inr None
     \<and> stored (rm_server rs) = {}"

definition opens_remote ::
  "(durable_mode \<Rightarrow> ('x, string, ('g git_sink, 'w http_sink) durable_sink) op) \<Rightarrow> ('g, 'w) remote_setup \<Rightarrow> bool" where
  "opens_remote open_sink rs \<longleftrightarrow>
     (\<forall>mode w d w'. open_sink mode w = (Inr d, w') \<longrightarrow>
        (\<exists>path max_bytes git git_path http url http_path.
           mode = Remote_mode path max_bytes git git_path http url http_path
           \<and> open_remote rs path max_bytes git http = Inr d))"

lemma journal_begins:
  "create_for_session from_slice fs faults path n (Some sid) (Some sv) = Inr j \<Longrightarrow>
     read_existing (jf_read fs) = Inr [] \<Longrightarrow> nj_accepted j = []"
  by (auto simp: create_for_session_def existing_events_def parse_event_spool_def spool_lines_def
      split: option.splits sum.splits if_splits)

lemma http_begins:
  assumes "http_create config file ce w = Inr s" and "keeps_events env stored"
    and "read_delivered_seq file = Inr None"
  shows "http_well env stored s \<and> hs_world s = w"
  using assms by (auto simp: http_create_def http_well_def split: option.splits sum.splits if_splits)

lemma git_begins:
  "git_create config file g = Inr s \<Longrightarrow> faithful_git env local remote \<Longrightarrow> session_ref config \<noteq> cache_ref config \<Longrightarrow>
     git_well env local remote config s"
  by (simp add: git_create_ok git_well_def)

lemma remote_begins:
  assumes "open_remote rs path n git http = Inr d" and "first_run stored rs"
    and "faithful_git genv local remote" and "keeps_events henv stored" and "session_ref git \<noteq> cache_ref git"
  shows "remote_accepted (git_well genv local remote git) (http_well henv stored) (\<lambda>s. stored (hs_world s)) d []"
  using assms
  by (auto simp: open_remote_def first_run_def remote_accepted_def durable_new_def
      dest: journal_begins git_begins http_begins split: sum.splits)

text \<open>The recorder ref is the cache only under the prefix of the cache.\<close>

lemma cache_ref_prefix:
  assumes "git_create config file g = Inr s" and "gc_ref_prefix config \<noteq> ''refs/rrjj/remote-cache''"
  shows "session_ref config \<noteq> cache_ref config"
  using recorder_ref_outside_heads [OF assms(1)] assms(2) by (simp add: cache_ref_def)


text \<open>The refs and the repositories, and the server, of a remote sink.\<close>

abbreviation remote_git :: "('g git_sink, 'w http_sink) durable_sink broadcast_sink \<Rightarrow> 'g" where
  "remote_git b \<equiv> gs_git (ds_checkpoint (bs_durable b))"

abbreviation remote_server :: "('g git_sink, 'w http_sink) durable_sink broadcast_sink \<Rightarrow> 'w" where
  "remote_server b \<equiv> hs_world (ds_events (bs_durable b))"

lemma remote_mode_config:
  "durable_sink_mode version ga ha options checkpoint event = Remote_mode path n git gp http url hp \<Longrightarrow>
     gc_ref_prefix git = op_git_ref_prefix options \<and> gc_session_id git = op_session_id options"
  by (auto simp: durable_sink_mode_def remote_mode_def
      split: option.splits checkpoint_backend.splits event_backend.splits)

text \<open>A flush of a broadcast remote sink.\<close>

lemma broadcast_flush_delivers:
  assumes "so_flush_session (broadcast_ops (durable_ops tv (publish_checkpoint genv) (publish_events henv))) q k
      = (Inr u, b)"
    and "remote_accepted (git_well genv local remote config) (http_well henv stored) (\<lambda>s. stored (hs_world s))
      (bs_durable k) es"
    and "stream_ok sid sv es" and "length es \<le> 2 ^ 64"
  shows "stored (remote_server b) = set es
    \<and> (\<exists>commit oid. (case fr_checkpoint q of Some c \<Rightarrow> commit = c | None \<Rightarrow> latest_snapshot_commit es = Some commit)
        \<and> normalize_commit_oid commit = Inr oid \<and> remote (remote_git b) (session_ref config) = Some oid)"
proof -
  obtain d where "durable_flush_session (publish_checkpoint genv) (publish_events henv) q (bs_durable k) = (Inr u, d)"
    "bs_durable b = d"
    using assms(1) by (auto simp: broadcast_ops_def lift_durable_def durable_ops_def split: prod.splits)
  then show ?thesis using remote.flush_delivers [OF _ assms(2-4)] by simp
qed


section \<open>A daemon with remotes\<close>

definition rd_jj :: "(nat, nat) jj_ops" where
  "rd_jj = demo_jj\<lparr>jo_write_commit := (\<lambda>parent t w. (Inr (oid_of (CHR ''c'')), w))\<rparr>"

definition rd_cx :: "((refs git_sink, event list http_sink) durable_sink broadcast_sink, nat, nat) ctx" where
  "rd_cx = \<lparr>cx_sink = broadcast_ops (durable_ops pub_encode (publish_checkpoint refs_env) (publish_events (store_env pub_encode))),
     cx_jj = rd_jj, cx_now = (\<lambda>k. ''now''), cx_version = ''0''\<rparr>"

definition rd_setup :: "(refs, event list) remote_setup" where
  "rd_setup = \<lparr>rm_from_slice = (\<lambda>b. Inl []), rm_journal = fresh_fs [], rm_faults = [], rm_git_cursor = demo_file,
     rm_git = \<lparr>rf_local = Map.empty, rf_remote = Map.empty\<rparr>,
     rm_http_cursor = \<lparr>cf_content = None, cf_faults = []\<rparr>, rm_client_error = None, rm_server = []\<rparr>"

definition rd_env :: "(unit, (refs git_sink, event list http_sink) durable_sink) daemon_env" where
  "rd_env =
     \<lparr>de_disp = de_disp dm_env, de_http = de_http dm_env, de_bind_http = de_bind_http dm_env,
      de_create_dir_all = de_create_dir_all dm_env, de_socket = de_socket dm_env,
      de_open_sink = (\<lambda>mode w.
        case mode of
          Remote_mode path max_bytes git git_path http url http_path \<Rightarrow>
            (case open_remote rd_setup path max_bytes git http of
               Inl e \<Rightarrow> (Inl [], w)
             | Inr d \<Rightarrow> (Inr d, w))
        | _ \<Rightarrow> (Inl [], w)),
      de_roots = de_roots dm_env, de_bind_control = de_bind_control dm_env,
      de_secure_control = de_secure_control dm_env, de_parse_origin = de_parse_origin dm_env,
      de_remove_socket = de_remove_socket dm_env, de_show_error = de_show_error dm_env\<rparr>"

definition rd_session ::
  "((refs git_sink, event list http_sink) durable_sink broadcast_sink, nat, nat) live
     \<Rightarrow> ((refs git_sink, event list http_sink) durable_sink broadcast_sink, nat, nat) live" where
  "rd_session l = l\<lparr>lv_paused := True, lv_paused_changed := True\<rparr>"

definition rd_run ::
  "((string + unit) \<times> ((refs git_sink, event list http_sink) durable_sink broadcast_sink, nat, nat) live daemon_end
     \<times> unit) option" where
  "rd_run = run_daemon rd_env None None demo_globs (\<lambda>p. Inr ()) rd_cx [] 0 0 demo_options rd_session
     (Inr ()) [Accepted, Terminated True] ()"

lemma rd_opens: "opens_remote (de_open_sink rd_env) rd_setup"
  by (auto simp: opens_remote_def rd_env_def split: durable_mode.splits sum.splits)

lemma rd_first: "first_run set rd_setup"
  by (simp add: first_run_def rd_setup_def fresh_fs_def read_existing_def read_delivered_seq_def read_cursor_def)

lemma rd_ran: "\<exists>l. rd_run = Some (Inr (), Ended l, ())
    \<and> length (bs_sent (co_sink (lv_core l))) = 3"
  by (rule ended_case) code_simp



end
