(* ===== verification/Sink_Tests.thy ===== *)
theory Sink_Tests
  imports Remote_Daemon
begin

text \<open>
  The tests of \<open>crates/rrjj-sinks/src/lib.rs\<close>, run on the model. A test is a boolean: the calls of
  the test in its order, \<open>unwrap\<close> of a failure being false, and its assertions; that it passes is a
  theorem, by evaluation. Files are those of the model (the modes of the private files are not in
  it), an event is encoded as its number, git and the HTTP server are those of \<open>Remote_Git\<close>
  and \<open>Http_Sink\<close>. The two recording sinks of the tests share a log; here each keeps its own, and
  \<open>events_after_checkpoint\<close> has the order.
\<close>

section \<open>Assertions\<close>

text \<open>\<open>unwrap\<close> and \<open>unwrap_err\<close> of a result, and of an operation, with the rest of the test.\<close>

abbreviation unwrap :: "'e + 'a \<Rightarrow> ('a \<Rightarrow> bool) \<Rightarrow> bool" where
  "unwrap r rest \<equiv> (case r of Inl _ \<Rightarrow> False | Inr a \<Rightarrow> rest a)"

abbreviation unwrap_op :: "('e + 'a) \<times> 's \<Rightarrow> ('a \<Rightarrow> 's \<Rightarrow> bool) \<Rightarrow> bool" where
  "unwrap_op r rest \<equiv> (case r of (Inl _, s) \<Rightarrow> False | (Inr a, s) \<Rightarrow> rest a s)"

abbreviation unwrap_err :: "('e + 'a) \<times> 's \<Rightarrow> ('e \<Rightarrow> 's \<Rightarrow> bool) \<Rightarrow> bool" where
  "unwrap_err r rest \<equiv> (case r of (Inl e, s) \<Rightarrow> rest e s | (Inr _, s) \<Rightarrow> False)"

definition test_event :: event where
  "test_event = event_at ''s'' 0 ''now''
     (Overflow \<lparr>of_source = ''test'', of_raw_events = 1, of_recovery = Full_scan_snapshot\<rparr>)"

definition test_format :: format_metadata where
  "test_format =
     \<lparr>fm_session_format = SESSION_FORMAT_VERSION, fm_schema_version = SCHEMA_VERSION,
      fm_rrjj_version = ''test'', fm_jj_lib_version = ''0.43.0'', fm_jj_store_version = ''test''\<rparr>"

definition line_count :: "bytes \<Rightarrow> nat" where
  "line_count bs = length (spool_lines bs)"

section \<open>Journal, broadcast and directory\<close>

definition writes_one_json_object_per_line :: bool where
  "writes_one_json_object_per_line =
     unwrap (journal_create (pub_decode []) (fresh_fs []) [] ''events.ndjson'') (\<lambda>sink.
     unwrap_op (so_emit (journal_ops pub_encode) test_event sink) (\<lambda>_ sink.
       line_count (wr_file (nj_writer sink)) = 1
       \<and> map (pub_decode [test_event]) (spool_lines (wr_file (nj_writer sink))) = [Inr test_event]
       \<and> ev_seq test_event = 0))"

definition broadcasts_only_after_durable_sink_accepts_event :: bool where
  "broadcasts_only_after_durable_sink_accepts_event =
     unwrap (journal_create (pub_decode []) (fresh_fs []) [] ''events.ndjson'') (\<lambda>durable.
     unwrap_op (so_emit (broadcast_ops (journal_ops pub_encode)) test_event (fst (broadcast_new durable 4)))
       (\<lambda>_ sink. bs_sent sink = [test_event] \<and> line_count (wr_file (nj_writer (bs_durable sink))) = 1))"

text \<open>The shadow repository: its \<open>repo\<close> directory; the working copy beside it is not a source.\<close>

definition test_shadow :: "string \<Rightarrow> (string \<times> source_node) list" where
  "test_shadow p = [(''store'', Dir [(''object'', Reg ''jj state'')])]"

definition syncs_spool_repository_and_advances_manifest_atomically :: bool where
  "syncs_spool_repository_and_advances_manifest_atomically =
     (let ops = directory_ops (\<lambda>e. []) pub_encode test_shadow in
      unwrap (directory_create pub_fs [] pub_disk ''spool.ndjson'' [''session''] ''s'' test_format 10000) (\<lambda>sink.
      unwrap_op (so_emit ops test_event sink) (\<lambda>_ sink.
      unwrap_op (so_flush_session ops
          \<lparr>fr_shadow_root = ''shadow'', fr_last_seq = 0, fr_last_op = ''op:abc'',
           fr_checkpoint = Some (''c:'' @ oid_of (CHR ''a''))\<rparr> sink) (\<lambda>_ sink.
        (case sd_manifest (di_disk sink) of
           None \<Rightarrow> False
         | Some manifest \<Rightarrow> sm_durable_seq manifest = Some 0 \<and> sm_durable_op manifest = Some ''op:abc'')
        \<and> sd_repo (di_disk sink) = Some [(''store'', DDir [(''object'', DReg ''jj state'')])]))))"

section \<open>The durable sink\<close>

text \<open>\<open>RecordingCheckpoint\<close> and \<open>RecordingEvents\<close>; the state of the latter has the flag \<open>fail_once\<close>.\<close>

definition recording_checkpoint :: "string list checkpoint_sink" where
  "recording_checkpoint request order =
     (Inr \<lparr>cp_checkpoint = oid_of (CHR ''b'')\<rparr>, order @ [''checkpoint''])"

definition recording_events :: "(bool \<times> string list) event_sink" where
  "recording_events request s =
     (case s of (fail_once, order) \<Rightarrow>
        if fail_once then (Inl (Failed ''injected event failure''), (False, order @ [''events'']))
        else
          (Inr \<lparr>ea_accepted_through_seq = (if ep_events request = [] then 0 else ev_seq (last (ep_events request))),
                ea_durable_through_seq = map_option dw_seq (ep_durable request)\<rparr>,
           (False, order @ [''events''])))"

definition durable_test ::
  "bool \<Rightarrow> ((sink_error + unit) \<times> (string list, bool \<times> string list) durable_sink \<Rightarrow> bool) \<Rightarrow> bool" where
  "durable_test fail_once rest =
     (let ops = durable_ops pub_encode recording_checkpoint recording_events in
      unwrap (create_for_session (pub_decode []) (fresh_fs []) [] ''spool.ndjson'' 10000 (Some ''s'')
          (Some SCHEMA_VERSION)) (\<lambda>journal.
      unwrap_op (so_emit ops test_event (durable_new journal [] (fail_once, []) ''s'')) (\<lambda>_ sink.
        rest (so_flush_session ops
          \<lparr>fr_shadow_root = ''shadow'', fr_last_seq = 0, fr_last_op = ''op:a'',
           fr_checkpoint = Some (''c:'' @ oid_of (CHR ''b''))\<rparr> sink))))"

definition durable_session_publishes_checkpoint_before_events_and_watermark :: bool where
  "durable_session_publishes_checkpoint_before_events_and_watermark =
     durable_test False (\<lambda>r. unwrap_op r (\<lambda>_ sink.
       ds_checkpoint sink @ snd (ds_events sink) = [''checkpoint'', ''events'']))"

definition durable_flush_does_not_advance_when_events_fail_after_checkpoint :: bool where
  "durable_flush_does_not_advance_when_events_fail_after_checkpoint =
     durable_test True (\<lambda>r. unwrap_err r (\<lambda>e sink.
       (case e of Failed m \<Rightarrow> True | _ \<Rightarrow> False)
       \<and> ds_checkpoint sink @ snd (ds_events sink) = [''checkpoint'', ''events'']))"

section \<open>The HTTP sink\<close>

definition test_publish_request :: event_publish_request where
  "test_publish_request =
     \<lparr>ep_session_id = ''s'', ep_schema_version = SCHEMA_VERSION, ep_events = [test_event],
      ep_durable = Some \<lparr>dw_seq = 0, dw_op = ''op:a'', dw_checkpoint = oid_of (CHR ''b'')\<rparr>\<rparr>"

text \<open>The server answers 500 to the first request and 200 to the second, with the same body.\<close>

definition http_event_sink_batches_retries_and_acknowledges_duplicates :: bool where
  "http_event_sink_batches_retries_and_acknowledges_duplicates =
     (let env = scripted pub_encode
          (\<lambda>text. Inr \<lparr>ea_accepted_through_seq = 0, ea_durable_through_seq = Some 0\<rparr>) in
      unwrap (http_create \<lparr>hc_authorization = Some ''Bearer secret-token'', hc_max_events_per_batch = 10,
          hc_max_bytes_per_batch = 10000, hc_max_retries = 3\<rparr> \<lparr>cf_content = None, cf_faults = []\<rparr> None
          [http_reply 500, http_reply 200]) (\<lambda>sink.
      unwrap_op (publish_events env test_publish_request sink) (\<lambda>ack sink.
        ea_accepted_through_seq ack = 0
        \<and> unwrap_op (publish_events env test_publish_request sink) (\<lambda>ack sink.
            ea_accepted_through_seq ack = 0 \<and> 2 \<le> length (hs_sent sink)))))"

section \<open>The git sink\<close>

text \<open>A bare repository given by its path: it opens, and shows its refs.\<close>

definition path_env :: "refs git_env" where
  "path_env = refs_env\<lparr>ge_open_path := (\<lambda>url g. True), ge_path_tip := (\<lambda>url r g. rf_remote g r)\<rparr>"

definition test_git_config :: git_config where
  "test_git_config =
     \<lparr>gc_remote_url = ''/remote.git'', gc_authorization = None, gc_ref_prefix = ''refs/rrjj/sessions'',
      gc_session_id = ''session-1''\<rparr>"

definition test_checkpoint_request :: "string \<Rightarrow> checkpoint_request" where
  "test_checkpoint_request oid =
     \<lparr>cr_shadow_root = ''shadow'', cr_session_id = ''session-1'', cr_commit = ''c:'' @ oid, cr_last_seq = 0,
      cr_last_op = ''op:a''\<rparr>"

text \<open>\<open>write_test_commit\<close> and \<open>write_child_commit\<close>: a commit under an internal ref of the source.\<close>

definition write_test_commit :: "string \<Rightarrow> refs \<Rightarrow> refs" where
  "write_test_commit oid g = g\<lparr>rf_local := (rf_local g)(''refs/rrjj/internal/seed'' \<mapsto> oid)\<rparr>"

definition write_child_commit :: "string \<Rightarrow> refs \<Rightarrow> refs" where
  "write_child_commit oid g = g\<lparr>rf_local := (rf_local g)(''refs/rrjj/internal/child'' \<mapsto> oid)\<rparr>"

definition bare_refs :: refs where
  "bare_refs = \<lparr>rf_local = Map.empty, rf_remote = Map.empty\<rparr>"

definition git_checkpoint_pushes_to_bare_remote_under_recorder_ref :: bool where
  "git_checkpoint_pushes_to_bare_remote_under_recorder_ref =
     (let oid = oid_of (CHR ''a''); request = test_checkpoint_request oid in
      unwrap (git_create test_git_config demo_file (write_test_commit oid bare_refs)) (\<lambda>sink.
      unwrap_op (publish_checkpoint path_env request sink) (\<lambda>publication sink.
        cp_checkpoint publication = oid
        \<and> rf_remote (gs_git sink) ''refs/rrjj/sessions/session-1'' = Some oid
        \<and> rf_remote (gs_git sink) ''refs/heads/main'' = None
        \<and> unwrap_op (publish_checkpoint path_env request sink) (\<lambda>again sink. cp_checkpoint again = oid))))"

definition git_checkpoint_rejects_cas_conflict :: bool where
  "git_checkpoint_rejects_cas_conflict =
     (let first = oid_of (CHR ''a''); second = oid_of (CHR ''b'');
          source = write_child_commit second (write_test_commit first bare_refs) in
      case ge_push path_env ''refs/rrjj/internal/seed:refs/rrjj/internal/seed'' None source of (r1, source) \<Rightarrow>
      case ge_push path_env ''refs/rrjj/internal/child:refs/rrjj/sessions/session-1'' None source of (r2, source) \<Rightarrow>
        r1 = Inr None \<and> r2 = Inr None
        \<and> unwrap (git_create test_git_config \<lparr>cf_content = Some (Inr (Some first)), cf_faults = []\<rparr> source) (\<lambda>sink.
          unwrap_err (publish_checkpoint path_env (test_checkpoint_request first) sink) (\<lambda>e sink.
            case e of CheckpointConflict m \<Rightarrow> True | _ \<Rightarrow> False)))"

definition secrets_are_redacted_from_messages :: bool where
  "secrets_are_redacted_from_messages =
     (let message = redact_secrets ''Authorization: Bearer super-secret failed'' [''super-secret''] in
      \<not> contains message ''super-secret'' \<and> contains message ''***'')"

section \<open>The tests pass\<close>

theorem journal_tests_pass: "writes_one_json_object_per_line"
  by code_simp

theorem broadcast_tests_pass: "broadcasts_only_after_durable_sink_accepts_event"
  by code_simp

theorem directory_tests_pass: "syncs_spool_repository_and_advances_manifest_atomically"
  by code_simp

theorem durable_tests_pass:
  "durable_session_publishes_checkpoint_before_events_and_watermark"
  "durable_flush_does_not_advance_when_events_fail_after_checkpoint"
  by code_simp+

theorem http_tests_pass: "http_event_sink_batches_retries_and_acknowledges_duplicates"
  by code_simp

theorem git_tests_pass:
  "git_checkpoint_pushes_to_bare_remote_under_recorder_ref" "git_checkpoint_rejects_cas_conflict"
  by code_simp+

theorem redaction_tests_pass: "secrets_are_redacted_from_messages"
  by code_simp

end
