(* ===== verification/Core_Tests.thy ===== *)
theory Core_Tests
  imports Sink_Tests
begin

text \<open>
  The tests of \<open>crates/rrjj-core/src/lib.rs\<close>, run on the model, as in \<open>Sink_Tests\<close>. The disk and
  the repository are concrete: files with their contents, one executable tree diff, a commit and
  an operation for each capture. A test that writes a file changes the disk of the recorder; what
  the platform's watcher reports of it is handed over as a call of the watcher's callback at the
  instants of the test, and the timer task arms, waits and fires once.
\<close>

section \<open>A disk and a repository\<close>

type_synonym file_tree = "(string \<times> string) list"

record tree_world =
  tw_files :: file_tree
  tw_commits :: "file_tree list"

definition ignored_file :: "string \<Rightarrow> string \<Rightarrow> bool" where
  "ignored_file rules path \<longleftrightarrow>
     list_ex (\<lambda>rule. rule \<noteq> [] \<and> rule \<in> set (split_on (CHR ''/'') path)) (split_on newline rules)"

definition file_value :: "file_tree \<Rightarrow> string \<Rightarrow> tree_value option" where
  "file_value t p = map_option (\<lambda>c. File c False) (map_of t p)"

definition tree_changes :: "file_tree \<Rightarrow> file_tree \<Rightarrow> diff_entry list" where
  "tree_changes before after =
     map (\<lambda>p. \<lparr>de_path = p, de_values = Inr (Some (file_value before p), Some (file_value after p))\<rparr>)
       (filter (\<lambda>p. map_of before p \<noteq> map_of after p) (bs_extend [] (map fst before @ map fst after)))"

definition tree_done :: "'a \<Rightarrow> (tree_world, string, unit) op" where
  "tree_done a w = (Inr (), w)"

definition tree_init_working_copy :: "string \<Rightarrow> string \<Rightarrow> string \<Rightarrow> (tree_world, string, unit) op" where
  "tree_init_working_copy root state_path op w = (Inr (), w)"

definition tree_init_repo :: "string \<Rightarrow> (tree_world, string, string) op" where
  "tree_init_repo p w = (Inr ''00'', w)"

definition tree_exists :: "tree_world \<Rightarrow> string \<Rightarrow> bool" where
  "tree_exists w p = False"

definition tree_parse_ignores :: "string \<Rightarrow> string + unit" where
  "tree_parse_ignores t = Inr ()"

definition tree_snapshot :: "string \<Rightarrow> string \<Rightarrow> (tree_world, string, file_tree) op" where
  "tree_snapshot rules op w = (Inr (filter (\<lambda>(p, c). \<not> ignored_file rules p) (tw_files w)), w)"

definition tree_diff_of :: "tree_world \<Rightarrow> file_tree \<Rightarrow> file_tree \<Rightarrow> diff_entry list" where
  "tree_diff_of w before after = tree_changes before after"

definition tree_metadata_len :: "tree_world \<Rightarrow> string \<Rightarrow> u64 option" where
  "tree_metadata_len w p = map_option (\<lambda>c. word_of_nat (length c)) (map_of (tw_files w) p)"

definition tree_write_commit :: "string option \<Rightarrow> file_tree \<Rightarrow> (tree_world, string, string) op" where
  "tree_write_commit parent t w = (Inr ''0c'', w\<lparr>tw_commits := tw_commits w @ [t]\<rparr>)"

definition tree_commit_transaction :: "(tree_world, string, string) op" where
  "tree_commit_transaction w = (Inr (pad_zero 2 (show_nat (length (tw_commits w)))), w)"

definition tree_id_of :: "file_tree \<Rightarrow> string option" where
  "tree_id_of t = Some ''tree''"

definition tree_jj :: "(file_tree, tree_world) jj_ops" where
  "tree_jj =
     \<lparr>jo_create_dir_all = tree_done, jo_set_private = tree_done, jo_exists = tree_exists,
      jo_create_dir = tree_done, jo_init_repo = tree_init_repo, jo_init_working_copy = tree_init_working_copy,
      jo_parse_ignores = tree_parse_ignores, jo_empty_tree = [], jo_snapshot = tree_snapshot,
      jo_diff = tree_diff_of, jo_metadata_len = tree_metadata_len, jo_write_commit = tree_write_commit,
      jo_commit_transaction = tree_commit_transaction, jo_tree_id = tree_id_of, jo_finish_working_copy = tree_done\<rparr>"

type_synonym 's test_live = "('s, file_tree, tree_world) live"

definition test_now :: "nat \<Rightarrow> string" where
  "test_now k = ''now''"

definition test_cx :: "'s sink_ops \<Rightarrow> ('s, file_tree, tree_world) ctx" where
  "test_cx ops = \<lparr>cx_sink = ops, cx_jj = tree_jj, cx_now = test_now, cx_version = ''test''\<rparr>"

definition test_disk :: "'s test_live \<Rightarrow> tree_world" where
  "test_disk l = jr_world (co_recorder (lv_core l))"

definition write_file :: "string \<Rightarrow> string \<Rightarrow> 's test_live \<Rightarrow> 's test_live" where
  "write_file p contents l =
     l\<lparr>lv_core := (lv_core l)\<lparr>co_recorder := (co_recorder (lv_core l))\<lparr>jr_world :=
       (test_disk l)\<lparr>tw_files := bt_insert p contents (tw_files (test_disk l))\<rparr>\<rparr>\<rparr>\<rparr>"

section \<open>Sinks and calls\<close>

definition memory_emit :: "event \<Rightarrow> (event list, sink_error, unit) op" where
  "memory_emit e es = (Inr (), es @ [e])"

definition memory_flush :: "('s, sink_error, unit) op" where
  "memory_flush s = (Inr (), s)"

definition memory_ops :: "event list sink_ops" where
  "memory_ops =
     \<lparr>so_emit = memory_emit, so_flush = memory_flush, so_flush_session = default_flush_session memory_flush\<rparr>"

text \<open>\<open>FailAuditOnceSink\<close> and \<open>FailSnapshotOnceSink\<close>: the first event of a kind is refused.\<close>

definition fail_once_emit ::
  "(event_body \<Rightarrow> bool) \<Rightarrow> string \<Rightarrow> event \<Rightarrow> (event list \<times> bool, sink_error, unit) op" where
  "fail_once_emit fails message e s =
     (case s of (es, armed) \<Rightarrow>
        if fails (ev_body e) \<and> armed then (Inl (Io (Custom_io message)), (es, False))
        else (Inr (), (es @ [e], armed)))"

definition fail_once_ops :: "(event_body \<Rightarrow> bool) \<Rightarrow> string \<Rightarrow> (event list \<times> bool) sink_ops" where
  "fail_once_ops fails message =
     \<lparr>so_emit = fail_once_emit fails message, so_flush = memory_flush,
      so_flush_session = default_flush_session memory_flush\<rparr>"

fun is_touched :: "event_body \<Rightarrow> bool" where
  "is_touched (Touched_paths t) = True"
| "is_touched _ = False"

fun is_snapshot_body :: "event_body \<Rightarrow> bool" where
  "is_snapshot_body (Snapshot sn) = True"
| "is_snapshot_body _ = False"

definition fail_audit_once :: "(event list \<times> bool) sink_ops" where
  "fail_audit_once = fail_once_ops is_touched ''injected audit failure''"

definition fail_snapshot_once :: "(event list \<times> bool) sink_ops" where
  "fail_snapshot_once = fail_once_ops is_snapshot_body ''injected snapshot failure''"

definition core_test_config :: "string \<Rightarrow> config" where
  "core_test_config session_id =
     \<lparr>cf_session_id = session_id, cf_watched_root = ''/w'', cf_shadow_root = ''/s'', cf_ignore = [],
      cf_excluded_paths = [], cf_max_changes_per_event = 100, cf_quiescence = 60000, cf_max_delay = 60000\<rparr>"

text \<open>\<open>start\<close> on a disk, and the calls of the handle with \<open>unwrap\<close> or \<open>is_err\<close> of their replies.\<close>

abbreviation start_test ::
  "'s sink_ops \<Rightarrow> config \<Rightarrow> 's \<Rightarrow> file_tree \<Rightarrow> ('s test_live \<Rightarrow> watch_setup \<Rightarrow> bool) \<Rightarrow> bool" where
  "start_test ops config sink files rest \<equiv>
     unwrap (start demo_roots (\<lambda>e. []) demo_globs (\<lambda>p. Inr ()) (test_cx ops) config sink []
         \<lparr>tw_files = files, tw_commits = []\<rparr> 0) (\<lambda>(l, setup). rest l setup)"

abbreviation unwrap_call :: "(reply \<times> 'l) option \<Rightarrow> (response_data \<Rightarrow> 'l \<Rightarrow> bool) \<Rightarrow> bool" where
  "unwrap_call r rest \<equiv>
     (case r of None \<Rightarrow> False
      | Some (reply, l) \<Rightarrow> (case reply_data reply of Inl e \<Rightarrow> False | Inr d \<Rightarrow> rest d l))"

abbreviation refused_call :: "(reply \<times> 'l) option \<Rightarrow> ('l \<Rightarrow> bool) \<Rightarrow> bool" where
  "refused_call r rest \<equiv>
     (case r of None \<Rightarrow> False
      | Some (reply, l) \<Rightarrow> (case reply_data reply of Inl e \<Rightarrow> rest l | Inr d \<Rightarrow> False))"

definition touched_at :: "nat \<Rightarrow> string \<Rightarrow> touch_operation \<Rightarrow> u64 \<Rightarrow> 's test_live \<Rightarrow> 's test_live" where
  "touched_at instant path operation raw_events l =
     handle_touched ''now'' instant [\<lparr>tp_path = path, tp_operations = [operation]\<rparr>] raw_events l"

definition notice :: "watch_setup \<Rightarrow> nat \<Rightarrow> event_kind \<Rightarrow> string list \<Rightarrow> 's test_live \<Rightarrow> 's test_live" where
  "notice setup instant kind path l =
     l\<lparr>lv_core := (lv_core l)\<lparr>co_audit := apply_inputs (watch_callback setup ''now'' instant
        (Inr \<lparr>ne_kind = kind, ne_paths = [Absolute (''w'' # path)], ne_rescan = False\<rparr>))
        (co_audit (lv_core l))\<rparr>, lv_now := instant\<rparr>"

definition bodies :: "event list \<Rightarrow> event_body list" where
  "bodies es = map ev_body es"

definition audits :: "event list \<Rightarrow> touched_paths list" where
  "audits es = List.map_filter (\<lambda>b. case b of Touched_paths t \<Rightarrow> Some t | _ \<Rightarrow> None) (bodies es)"

definition snapshots :: "event list \<Rightarrow> snapshot list" where
  "snapshots es = List.map_filter (\<lambda>b. case b of Snapshot sn \<Rightarrow> Some sn | _ \<Rightarrow> None) (bodies es)"

fun position :: "('a \<Rightarrow> bool) \<Rightarrow> 'a list \<Rightarrow> nat option" where
  "position P [] = None"
| "position P (x # xs) = (if P x then Some 0 else map_option Suc (position P xs))"

section \<open>The coordinator\<close>

definition snapshots_real_tree_and_orders_mark_after_pending_snapshot :: bool where
  "snapshots_real_tree_and_orders_mark_after_pending_snapshot =
     (let cx = test_cx memory_ops;
          config = (core_test_config ''test'')\<lparr>cf_ignore := [''.git''], cf_excluded_paths := [''/w/a.txt'']\<rparr> in
      start_test memory_ops config [] [(''.git/config'', ''ignored''), (''a.txt'', ''one'')] (\<lambda>l setup.
        let l = write_file ''.git/config'' ''still ignored'' (write_file ''a.txt'' ''two'' l);
            l = touched_at 0 ''a.txt'' Rename 1 (touched_at 0 ''a.txt'' Modify 3 l) in
        unwrap_call (handle_mark cx ''after-edit'' [] l) (\<lambda>_ l.
        unwrap_call (handle_shutdown cx ''test'' l) (\<lambda>_ l.
          let events = co_sink (lv_core l) in
          map ev_seq events = map word_of_nat [0..<length events]
          \<and> (case (position is_snapshot_body (bodies events),
                   position (\<lambda>b. case b of Mark m \<Rightarrow> True | _ \<Rightarrow> False) (bodies events)) of
               (Some snapshot, Some mark) \<Rightarrow>
                 snapshot < mark
                 \<and> (case bodies events ! snapshot of
                      Snapshot sn \<Rightarrow> map ch_path (sn_changes sn) = [''a.txt''] | _ \<Rightarrow> False)
                 \<and> (case bodies events ! (snapshot - 1) of
                      Touched_paths audit \<Rightarrow>
                        4 \<le> tps_raw_events audit \<and> tp_operations (tps_paths audit ! 0) = [Modify, Rename]
                    | _ \<Rightarrow> False)
             | _ \<Rightarrow> False)
          \<and> (case bodies events ! (length events - 2) of Session_end v \<Rightarrow> True | _ \<Rightarrow> False)
          \<and> (case bodies events ! (length events - 1) of
               Flush flush \<Rightarrow> fl_through_seq flush = ev_seq (events ! (length events - 1)) | _ \<Rightarrow> False)))))"

definition audit_state_survives_sink_failure_and_retries_exactly_once :: bool where
  "audit_state_survives_sink_failure_and_retries_exactly_once =
     (let cx = test_cx fail_audit_once in
      start_test fail_audit_once (core_test_config ''audit-retry'') ([], True) [(''tracked.txt'', ''before'')]
        (\<lambda>l setup.
        refused_call (handle_snap cx (touched_at 0 ''tracked.txt'' Modify 1 l)) (\<lambda>l.
        unwrap_call (handle_snap cx l) (\<lambda>_ l.
        unwrap_call (handle_shutdown cx ''test'' l) (\<lambda>_ l.
          map tps_raw_events (audits (fst (co_sink (lv_core l)))) = [1]
          \<and> map (\<lambda>a. tp_path (tps_paths a ! 0)) (audits (fst (co_sink (lv_core l)))) = [''tracked.txt''])))))"

definition committed_snapshot_event_is_retried_without_recapturing :: bool where
  "committed_snapshot_event_is_retried_without_recapturing =
     (let cx = test_cx fail_snapshot_once in
      start_test fail_snapshot_once (core_test_config ''snapshot-retry'') ([], True) [] (\<lambda>l setup.
        refused_call (handle_snap cx (touched_at 0 ''tracked.txt'' Create 1 l)) (\<lambda>l.
        unwrap_call (handle_status cx l) (\<lambda>status l.
        unwrap_call (handle_snap cx l) (\<lambda>retried l.
        unwrap_call (handle_shutdown cx ''test'' l) (\<lambda>_ l.
          (case (status, retried) of
             (Data_status st, Data_snapshot sn) \<Rightarrow> sn_op sn = st_last_op st | _ \<Rightarrow> False)
          \<and> length (snapshots (fst (co_sink (lv_core l)))) = 1))))))"

definition records_tracked :: "event list \<Rightarrow> bool" where
  "records_tracked events \<longleftrightarrow>
     list_ex (\<lambda>a. list_ex (\<lambda>p. tp_path p = ''tracked.txt'') (tps_paths a)) (audits events)
     \<and> list_ex (\<lambda>sn. list_ex (\<lambda>c. ch_path c = ''tracked.txt'') (sn_changes sn)) (snapshots events)"

definition paused_writes_captured :: "bool \<Rightarrow> bool" where
  "paused_writes_captured shutdown =
     (let cx = test_cx memory_ops in
      start_test memory_ops (core_test_config (if shutdown then ''paused-end'' else ''paused-flush'')) []
        [(''tracked.txt'', ''before'')] (\<lambda>l setup.
        unwrap_call (handle_pause cx l) (\<lambda>_ l.
        unwrap_call (handle_status cx (notice setup 10 (Kind_modify Modify_data) [''tracked.txt'']
            (write_file ''tracked.txt'' ''after'' l))) (\<lambda>status l.
        (case status of Data_status st \<Rightarrow> st_pending_snapshot st | _ \<Rightarrow> False)
        \<and> (if shutdown then unwrap_call (handle_shutdown cx ''test'' l) (\<lambda>_ l. records_tracked (co_sink (lv_core l)))
            else
              unwrap_call (handle_flush cx l) (\<lambda>_ l.
              unwrap_call (handle_shutdown cx ''test'' l) (\<lambda>_ l. records_tracked (co_sink (lv_core l)))))))))"

definition paused_writes_are_captured_by_flush_and_shutdown :: bool where
  "paused_writes_are_captured_by_flush_and_shutdown = list_all paused_writes_captured [False, True]"

definition overflow_mid_window_preserves_all_handed_off_paths :: bool where
  "overflow_mid_window_preserves_all_handed_off_paths =
     (let cx = test_cx memory_ops in
      start_test memory_ops (core_test_config ''overflow-window'') [] [] (\<lambda>l setup.
        let l = touched_at 0 ''before.txt'' Create 1 l;
            l = handle_overflow 0 ''test'' 1 l;
            l = touched_at 0 ''after.txt'' Modify 1 l in
        unwrap_call (handle_snap cx l) (\<lambda>_ l.
        unwrap_call (handle_shutdown cx ''test'' l) (\<lambda>_ l.
          case audits (co_sink (lv_core l)) of
            audit # _ \<Rightarrow> map tp_path (tps_paths audit) = [''after.txt'', ''before.txt'']
          | [] \<Rightarrow> False))))"

section \<open>The watcher\<close>

definition watcher_debounces_changes_and_aggregates_operations :: bool where
  "watcher_debounces_changes_and_aggregates_operations =
     (let cx = test_cx memory_ops;
          config = (core_test_config ''watch'')\<lparr>cf_ignore := [''ignored''], cf_quiescence := 100,
            cf_max_delay := 500\<rparr> in
      start_test memory_ops config [] [] (\<lambda>l setup.
        let l = notice setup 0 Kind_create [''tracked.txt''] (write_file ''tracked.txt'' ''one'' l);
            l = notice setup 40 (Kind_modify Modify_data) [''tracked.txt''] (write_file ''tracked.txt'' ''two'' l);
            l = notice setup 40 Kind_create [''ignored''] l;
            l = notice setup 40 Kind_create [''ignored'', ''no.txt''] (write_file ''ignored/no.txt'' ''ignored'' l) in
        unwrap_call (handle_status cx l) (\<lambda>status l.
        (case status of Data_status st \<Rightarrow> st_pending_snapshot st | _ \<Rightarrow> False)
        \<and> (case lv_watcher (arm_timer l) of
             Watching (Some due) \<Rightarrow>
               due = 140
               \<and> (let l = fire cx ((arm_timer l)\<lparr>lv_now := due\<rparr>); events = co_sink (lv_core l) in
                  list_ex (\<lambda>e. is_snapshot_body (ev_body e)) events
                  \<and> map (\<lambda>a. map tp_path (tps_paths a)) (audits events) = [[''tracked.txt'']]
                  \<and> list_ex (\<lambda>operation. operation \<in> {Create, Modify})
                      (tp_operations (tps_paths (audits events ! 0) ! 0))
                  \<and> unwrap_call (handle_shutdown cx ''test'' l) (\<lambda>_ _. True))
           | _ \<Rightarrow> False))))"

definition watcher_filter_excludes_ignored_and_sink_paths :: bool where
  "watcher_filter_excludes_ignored_and_sink_paths =
     (let root = [''tmp'']; spool = [''tmp'', ''spool'', ''events.ndjson''] in
      unwrap (build_ignore_set demo_globs [''.git'', ''*.tmp'']) (\<lambda>ignores.
        watcher_path (Inr []) root (Absolute [''tmp'', ''src'', ''lib.rs'']) [spool] ignores [''.git'', ''*.tmp'']
          = Some ''src/lib.rs''
        \<and> watcher_path (Inr []) root (Absolute [''tmp'', ''.git'', ''config'']) [spool] ignores [''.git'', ''*.tmp'']
          = None
        \<and> watcher_path (Inr []) root (Absolute (spool @ [''part''])) [spool] ignores [] = None))"

definition classifies_executable_bit_only_change :: bool where
  "classifies_executable_bit_only_change =
     (classify (Some (File ''01'' False)) (Some (File ''01'' True)) = Mode_changed)"

definition ignores_access_notifications_but_records_mutations :: bool where
  "ignores_access_notifications_but_records_mutations \<longleftrightarrow>
     touch_operation_of Kind_access = None \<and> touch_operation_of Kind_create = Some Create
     \<and> touch_operation_of (Kind_modify Modify_any) = Some Modify"

definition accumulator_drain_does_not_clear_later_observations :: bool where
  "accumulator_drain_does_not_clear_later_observations =
     (let observed = (\<lambda>operation. observe ''now'' 0
            [\<lparr>tp_path = ''during-capture.txt'', tp_operations = [operation]\<rparr>] 1) in
      case drain (observed Create accumulator_new) of (before_capture, audit) \<Rightarrow>
      case drain (observed Remove audit) of (during_capture, audit) \<Rightarrow>
        ab_raw_events before_capture = 1
        \<and> map_of (ab_paths before_capture) ''during-capture.txt'' = Some [Create]
        \<and> ab_raw_events during_capture = 1
        \<and> map_of (ab_paths during_capture) ''during-capture.txt'' = Some [Remove])"

section \<open>The tests pass\<close>

theorem mark_order_test_passes: "snapshots_real_tree_and_orders_mark_after_pending_snapshot"
  by code_simp

theorem audit_retry_test_passes: "audit_state_survives_sink_failure_and_retries_exactly_once"
  by code_simp

theorem snapshot_retry_test_passes: "committed_snapshot_event_is_retried_without_recapturing"
  by code_simp

lemma paused_shutdown_captured: "paused_writes_captured True"
  by code_simp

lemma paused_flush_captured: "paused_writes_captured False"
  by code_simp

theorem paused_writes_test_passes: "paused_writes_are_captured_by_flush_and_shutdown"
  by (simp add: paused_writes_are_captured_by_flush_and_shutdown_def paused_shutdown_captured paused_flush_captured)

theorem overflow_window_test_passes: "overflow_mid_window_preserves_all_handed_off_paths"
  by code_simp

theorem debounce_test_passes: "watcher_debounces_changes_and_aggregates_operations"
  by code_simp

theorem watcher_filter_test_passes: "watcher_filter_excludes_ignored_and_sink_paths"
  by code_simp

theorem mode_change_test_passes: "classifies_executable_bit_only_change"
  by code_simp

theorem access_test_passes: "ignores_access_notifications_but_records_mutations"
  by code_simp

theorem drain_test_passes: "accumulator_drain_does_not_clear_later_observations"
  by code_simp

end
