(* ===== verification/Session_Tests.thy ===== *)
theory Session_Tests
  imports Core_Tests
begin

text \<open>
  Two tests of \<open>crates/rrjj-core/src/lib.rs\<close> that take more than a few events: a hundred thousand
  notifications, whose effect on the accumulator is proved and then used in the evaluation, and a
  session that is published, opened by the reader, compared and checked out.
\<close>

section \<open>A notification storm\<close>

definition storm_operation :: "nat \<Rightarrow> touch_operation" where
  "storm_operation index = (if index mod 2 = 0 then Create else Remove)"

definition storm :: "nat \<Rightarrow> 's test_live \<Rightarrow> 's test_live" where
  "storm n l = fold (\<lambda>index. touched_at 0 ''transient.txt'' (storm_operation index) 1) [0..<n] l"

text \<open>What a storm leaves in an empty accumulator; its evaluation uses this in place of the loop.\<close>

definition stormed :: "nat \<Rightarrow> 's test_live \<Rightarrow> 's test_live" where
  "stormed n l =
     l\<lparr>lv_core := (lv_core l)\<lparr>co_audit :=
         \<lparr>aa_state = audit_state_default\<lparr>as_paths := [(''transient.txt'', [Create, Remove])],
            as_raw_events := word_of_nat n, as_started_at := Some ''now'', as_first := Some 0,
            as_last := Some 0\<rparr>,
          aa_changed = aa_changed (co_audit (lv_core l)) + word_of_nat n\<rparr>\<rparr>,
       lv_audit_changed := True\<rparr>"

lemma storm_Suc: "storm (Suc n) l = touched_at 0 ''transient.txt'' (storm_operation n) 1 (storm n l)"
  by (simp add: storm_def)

lemma stormed_step:
  assumes "m + 1 < 2 ^ 64"
  shows "touched_at 0 ''transient.txt'' (storm_operation k) 1 (stormed m l) = stormed (Suc m) l"
proof -
  have "unat (word_of_nat m :: u64) = m" using assms by (simp add: unat_of_nat take_bit_nat_eq_self)
  then have count: "saturating_add (word_of_nat m) 1 = word_of_nat (Suc m)"
    using assms by (simp add: saturating_add_def)
  have ops: "bs_extend [Create, Remove] [storm_operation k] = [Create, Remove]"
    by (simp add: bs_extend_def storm_operation_def less_touch_operation_def)
  show ?thesis
    by (simp add: touched_at_def handle_touched_def observe_def observe_path_def start_window_def stormed_def
        notify_changed_def get_or_insert_def count ops audit_state_default_def del: of_nat_Suc)
      (simp add: add.assoc add.commute [of 1])
qed

lemma first_two:
  assumes "aa_state acc = audit_state_default"
  shows "observe ''now'' 0 [\<lparr>tp_path = ''transient.txt'', tp_operations = [Remove]\<rparr>] 1
      (observe ''now'' 0 [\<lparr>tp_path = ''transient.txt'', tp_operations = [Create]\<rparr>] 1 acc)
    = \<lparr>aa_state = audit_state_default\<lparr>as_paths := [(''transient.txt'', [Create, Remove])],
         as_raw_events := 2, as_started_at := Some ''now'', as_first := Some 0, as_last := Some 0\<rparr>,
       aa_changed = aa_changed acc + 2\<rparr>"
proof -
  obtain n where acc: "acc = \<lparr>aa_state = audit_state_default, aa_changed = n\<rparr>"
    using assms by (cases acc) simp
  show ?thesis
    by (simp add: acc observe_def observe_path_def start_window_def notify_changed_def audit_state_default_def
        get_or_insert_def bs_extend_def less_touch_operation_def MAX_AUDIT_PATHS_def saturating_add_def)
qed

lemma storm_empty:
  assumes "aa_state (co_audit (lv_core l)) = audit_state_default" and "n + 2 < 2 ^ 64"
  shows "storm (n + 2) l = stormed (n + 2) l"
  using assms(2)
proof (induction n)
  case 0
  have "storm 2 l = touched_at 0 ''transient.txt'' Remove 1 (touched_at 0 ''transient.txt'' Create 1 l)"
    by (simp add: numeral_2_eq_2 storm_def storm_operation_def)
  then show ?case
    using first_two [OF assms(1)]
    by (simp add: touched_at_def handle_touched_def stormed_def del: add_2_eq_Suc' add_2_eq_Suc One_nat_def
        flip: numeral_2_eq_2)
next
  case (Suc n)
  then have "storm (Suc (n + 2)) l = touched_at 0 ''transient.txt'' (storm_operation (n + 2)) 1 (stormed (n + 2) l)"
    by (simp only: storm_Suc)
  then show ?case using stormed_step [of "n + 2"] Suc.prems by simp
qed

lemma storm_code [code]:
  "storm n l =
     (if aa_state (co_audit (lv_core l)) = audit_state_default \<and> 2 \<le> n \<and> n < 2 ^ 64 then stormed n l
      else fold (\<lambda>index. touched_at 0 ''transient.txt'' (storm_operation index) 1) [0..<n] l)"
proof (cases "aa_state (co_audit (lv_core l)) = audit_state_default \<and> 2 \<le> n \<and> n < 2 ^ 64")
  case True
  then have "storm n l = stormed n l" using storm_empty [of l "n - 2"] by (simp del: add_2_eq_Suc')
  then show ?thesis unfolding if_P [OF True] .
next
  case False
  show ?thesis unfolding if_not_P [OF False] by (rule storm_def)
qed

definition synthetic_notification_storm_does_not_fill_coordinator_queue :: bool where
  "synthetic_notification_storm_does_not_fill_coordinator_queue =
     (let cx = test_cx memory_ops in
      start_test memory_ops (core_test_config ''notification-storm'') [] [] (\<lambda>l setup.
        unwrap_call (handle_pause cx l) (\<lambda>_ l.
        unwrap_call (handle_status cx (storm 100000 l)) (\<lambda>status l.
        (case status of Data_status st \<Rightarrow> st_pending_snapshot st | _ \<Rightarrow> False)
        \<and> unwrap_call (handle_flush cx l) (\<lambda>_ l.
          unwrap_call (handle_shutdown cx ''test'' l) (\<lambda>_ l.
            case audits (co_sink (lv_core l)) of
              [] \<Rightarrow> False
            | audit # _ \<Rightarrow>
                tps_raw_events audit = 100000
                \<and> map tp_operations (tps_paths audit) = [[Create, Remove]]))))))"

section \<open>A durable session\<close>

text \<open>The repository behind a session: the trees of its commits, numbered by its operations.\<close>

definition commit_tree :: "file_tree list \<Rightarrow> nat \<Rightarrow> file_tree" where
  "commit_tree commits n = (if n = 0 then [] else commits ! (n - 1))"

definition repo_loader :: "string list \<Rightarrow> string + nat" where
  "repo_loader p = Inr 0"

definition repo_load_operation :: "nat \<Rightarrow> bytes \<Rightarrow> string + nat" where
  "repo_load_operation loader bytes = Inr (of_char (hd bytes))"

definition repo_load_at :: "nat \<Rightarrow> nat \<Rightarrow> string + nat" where
  "repo_load_at loader operation = Inr operation"

definition repo_commit_id :: "nat \<Rightarrow> nat option" where
  "repo_commit_id repo = Some repo"

definition repo_diff :: "file_tree list \<Rightarrow> nat \<Rightarrow> nat \<Rightarrow> diff_entry list" where
  "repo_diff commits a b = tree_changes (commit_tree commits a) (commit_tree commits b)"

definition repo_jj :: "file_tree list \<Rightarrow> nat reader_jj" where
  "repo_jj commits =
     \<lparr>rj_loader = repo_loader, rj_load_operation = repo_load_operation, rj_load_at = repo_load_at,
      rj_wc_commit_id = repo_commit_id, rj_get_commit = repo_load_at, rj_diff = repo_diff commits\<rparr>"

definition checked_out ::
  "file_tree list \<Rightarrow> string list \<Rightarrow> string \<Rightarrow> nat \<Rightarrow> nat \<Rightarrow> ((string list \<times> file_tree) option, string, unit) op" where
  "checked_out commits path state repo commit w = (Inr (), Some (path, commit_tree commits commit))"

definition tree_materialize :: "file_tree list \<Rightarrow> (nat, (string list \<times> file_tree) option) materialize_env" where
  "tree_materialize commits =
     \<lparr>me_canonicalize = (\<lambda>w. Inr), me_current_dir = Inr [], me_exists = (\<lambda>w p. True), me_is_dir = (\<lambda>w p. True),
      me_has_entries = (\<lambda>w p. Inr False), me_create_dir_all = (\<lambda>p. Pair (Inr ())),
      me_tempdir = Pair (Inr ''tmp''), me_check_out = checked_out commits\<rparr>"

text \<open>
  The directory sink is under the broadcast sink here, whose list of events serves to decode them.
\<close>

definition io_text :: "io_error \<Rightarrow> string" where
  "io_text e = []"

definition flushes_and_materializes_a_durable_session :: bool where
  "flushes_and_materializes_a_durable_session =
     (let ops = broadcast_ops (directory_ops io_text pub_encode (\<lambda>p. [])); cx = test_cx ops in
      unwrap (directory_create pub_fs [] pub_disk ''spool.ndjson'' [''session''] ''durable''
          \<lparr>fm_session_format = SESSION_FORMAT_VERSION, fm_schema_version = SCHEMA_VERSION,
           fm_rrjj_version = ''0'', fm_jj_lib_version = JJ_LIB_VERSION,
           fm_jj_store_version = JJ_STORE_VERSION\<rparr> 1000000) (\<lambda>sink.
      start_test ops (core_test_config ''durable'') (fst (broadcast_new sink 1)) [(''recorded.txt'', ''before'')] (\<lambda>l setup.
        unwrap_call (handle_flush cx (touched_at 0 ''recorded.txt'' Modify 1 (write_file ''recorded.txt'' ''after'' l)))
          (\<lambda>status l.
        let disk = di_disk (bs_durable (co_sink (lv_core l))); commits = tw_commits (test_disk l) in
        unwrap (session_open (directory_reader (pub_decode (bs_sent (co_sink (lv_core l)))) disk) [''session''])
          (\<lambda>session.
        case status of
          Data_status st \<Rightarrow>
            sm_durable_op (rs_manifest session) = Some (st_last_op st)
            \<and> (case te_op (hd (session_index session)) of
                 None \<Rightarrow> False
               | Some baseline_op \<Rightarrow>
                   unwrap (session_diff (repo_jj commits) session baseline_op (st_last_op st))
                     (\<lambda>diff. map td_path diff = [''recorded.txt'']))
            \<and> unwrap_op (materialize (repo_jj commits) (tree_materialize commits) session (st_last_op st)
                  (Absolute [''materialized'']) None) (\<lambda>_ world.
                case world of
                  None \<Rightarrow> False
                | Some (path, files) \<Rightarrow> map_of files ''recorded.txt'' = Some ''after'')
            \<and> unwrap_call (handle_shutdown cx ''test'' l) (\<lambda>_ _. True)
        | _ \<Rightarrow> False)))))"

section \<open>The tests pass\<close>

theorem storm_tests_pass: "synthetic_notification_storm_does_not_fill_coordinator_queue"
  by code_simp

theorem durable_session_tests_pass: "flushes_and_materializes_a_durable_session"
  by code_simp

end
