(* ===== verification/Schema_Json.thy ===== *)
theory Schema_Json
  imports Schema "HOL-Library.Monad_Syntax"
begin

text \<open>
  The JSON form of the schema: what the \<open>serde\<close> attributes of \<open>crates/rrjj-schema/src/lib.rs\<close> declare
  and \<open>schema/v0.md\<close> specifies. Writing gives the fields of a struct in the order of their
  declaration, a field marked \<open>skip_serializing_if\<close> only when it is there; reading finds the fields by
  name, in any order and among fields it does not know. A struct written as a JSON array, which
  \<open>serde\<close> reads as well, is refused here; the message of a refusal is not modelled.

  The text of a document is written and parsed by \<open>serde_json\<close>. A document is a value whose objects
  list their fields as the text has them, a name more than once perhaps; \<open>canonical\<close> is what
  \<open>serde_json::Value\<close> keeps of it, whose maps are B-trees.
\<close>

section \<open>Values\<close>

definition map_from :: "(string \<times> json_value) list \<Rightarrow> (string \<times> json_value) list" where
  "map_from fs = fold (\<lambda>(k, v). bt_insert k v) fs []"

primrec canonical :: "json_value \<Rightarrow> json_value" where
  "canonical Json_null = Json_null"
| "canonical (Json_bool b) = Json_bool b"
| "canonical (Json_number n) = Json_number n"
| "canonical (Json_string s) = Json_string s"
| "canonical (Json_array vs) = Json_array (map canonical vs)"
| "canonical (Json_object fs) = Json_object (map_from (map (map_prod (\<lambda>k. k) canonical) fs))"

lemma bt_insert_greatest: "\<forall>x \<in> fst ` set m. x < k \<Longrightarrow> bt_insert k v m = m @ [(k, v)]"
  by (induction k v m rule: bt_insert.induct) auto

lemma map_fold_append:
  "bt_ok (m @ m') \<Longrightarrow> fold (\<lambda>(k, v). bt_insert k v) m' m = m @ m'"
proof (induction m' arbitrary: m)
  case (Cons kv m')
  obtain k v where kv: "kv = (k, v)" by fastforce
  have "bt_insert k v m = m @ [(k, v)]"
    using Cons.prems by (intro bt_insert_greatest) (auto simp: bt_ok_def kv sorted_wrt_append)
  then show ?case using Cons.IH [of "m @ [(k, v)]"] Cons.prems by (simp add: kv)
qed simp

lemma map_of_fields_id: "bt_ok m \<Longrightarrow> map_from m = m"
  using map_fold_append [of "[]" m] by (simp add: map_from_def)

lemma bt_ok_fold: "bt_ok m \<Longrightarrow> bt_ok (fold (\<lambda>(k, v). bt_insert k v) fs m)"
  by (induction fs arbitrary: m) auto

lemma bt_ok_map_from: "bt_ok (map_from fs)"
  by (simp add: map_from_def bt_ok_fold)

lemma set_map_insert: "set (bt_insert k v m) \<subseteq> insert (k, v) (set m)"
  by (induction k v m rule: bt_insert.induct) auto

lemma set_map_from: "set (map_from fs) \<subseteq> set fs"
proof -
  have "set (fold (\<lambda>(k, v). bt_insert k v) fs m) \<subseteq> set fs \<union> set m" for m :: "(string \<times> json_value) list"
  proof (induction fs arbitrary: m)
    case (Cons kv fs)
    then show ?case using set_map_insert [of "fst kv" "snd kv" m] by (fastforce simp: case_prod_beta)
  qed simp
  from this [of "[]"] show ?thesis by (simp add: map_from_def)
qed

text \<open>What is kept of a document is a value.\<close>

lemma canonical_canonical [simp]: "canonical (canonical j) = canonical j"
proof (induction j)
  case (Json_object fs)
  let ?m = "map_from (map (map_prod (\<lambda>k. k) canonical) fs)"
  have "canonical v = v" if "(k, v) \<in> set ?m" for k v
    using that set_map_from Json_object.IH by fastforce
  then have "map (map_prod (\<lambda>k. k) canonical) ?m = ?m"
    by (intro map_idI) auto
  then show ?case by (simp add: map_of_fields_id bt_ok_map_from)
qed (auto simp: comp_def)

section \<open>Fields\<close>

text \<open>A field of a struct: an error when it is there twice.\<close>

definition field :: "string \<Rightarrow> (string \<times> json_value) list \<Rightarrow> json_value option option" where
  "field name fs =
     (case filter (\<lambda>(k, v). k = name) fs of
        [] \<Rightarrow> Some None
      | [(k, v)] \<Rightarrow> Some (Some v)
      | _ \<Rightarrow> None)"

definition required :: "(json_value \<Rightarrow> 'a option) \<Rightarrow> string \<Rightarrow> (string \<times> json_value) list \<Rightarrow> 'a option" where
  "required read name fs = do { found \<leftarrow> field name fs; v \<leftarrow> found; read v }"

text \<open>A field of type \<open>Option\<close>, with or without \<open>#[serde(default)]\<close>: missing or null is \<open>None\<close>.\<close>

definition nullable :: "(json_value \<Rightarrow> 'a option) \<Rightarrow> json_value option \<Rightarrow> 'a option option" where
  "nullable read found =
     (case found of
        None \<Rightarrow> Some None
      | Some v \<Rightarrow> if v = Json_null then Some None else map_option Some (read v))"

definition optional :: "(json_value \<Rightarrow> 'a option) \<Rightarrow> string \<Rightarrow> (string \<times> json_value) list \<Rightarrow> 'a option option" where
  "optional read name fs = do { found \<leftarrow> field name fs; nullable read found }"

definition written :: "(string \<times> json_value option) list \<Rightarrow> (string \<times> json_value) list" where
  "written fs = List.map_filter (\<lambda>(k, v). map_option (Pair k) v) fs"

lemma written_Nil [simp]: "written [] = []"
  by (simp add: written_def List.map_filter_simps)

lemma written_Cons:
  "written ((k, v) # fs) = (case v of None \<Rightarrow> written fs | Some j \<Rightarrow> (k, j) # written fs)"
  by (simp add: written_def List.map_filter_simps split: option.split)

lemma field_Nil [simp]: "field name [] = Some None"
  by (simp add: field_def)

lemma field_Cons [simp]:
  "field name ((k, v) # fs) =
     (if k = name then (if field name fs = Some None then Some (Some v) else None) else field name fs)"
  by (auto simp: field_def split: list.splits)

lemma field_written [simp]:
  "field name (written ((k, v) # fs)) =
     (if k = name then
        (if field name (written fs) = Some None then Some v else if v = None then field name (written fs) else None)
      else field name (written fs))"
  by (cases v) (simp_all add: written_Cons)

lemma nullable_read:
  assumes "\<And>x. write x \<noteq> Json_null \<and> read (write x) = Some x"
  shows "nullable read (map_option write v) = Some v"
  using assms by (cases v) (auto simp: nullable_def)

text \<open>What a struct reads of an object: fields of other names make no difference.\<close>

definition same_fields ::
  "string set \<Rightarrow> (string \<times> json_value) list \<Rightarrow> (string \<times> json_value) list \<Rightarrow> bool" where
  "same_fields names fs fs' \<longleftrightarrow>
     filter (\<lambda>(k, v). k \<in> names) fs = filter (\<lambda>(k, v). k \<in> names) fs'"

lemma same_field: "same_fields names fs fs' \<Longrightarrow> name \<in> names \<Longrightarrow> field name fs = field name fs'"
proof -
  assume a: "same_fields names fs fs'" "name \<in> names"
  have "filter (\<lambda>(k, v). k = name) xs = filter (\<lambda>(k, v). k = name) (filter (\<lambda>(k, v). k \<in> names) xs)"
    for xs :: "(string \<times> json_value) list"
    using a(2) by (induction xs) auto
  then show ?thesis using a(1) unfolding field_def same_fields_def by metis
qed

lemma same_fields_more:
  "\<forall>(k, v) \<in> set extra. k \<notin> names \<Longrightarrow> same_fields names (fs @ extra) fs"
  by (auto simp: same_fields_def filter_empty_conv)

section \<open>Scalars and lists\<close>

definition string_of :: "json_value \<Rightarrow> string option" where
  "string_of j = (case j of Json_string s \<Rightarrow> Some s | _ \<Rightarrow> None)"

definition bool_of :: "json_value \<Rightarrow> bool option" where
  "bool_of j = (case j of Json_bool b \<Rightarrow> Some b | _ \<Rightarrow> None)"

definition number :: "'w::len word \<Rightarrow> json_value" where
  "number n = Json_number (Pos_int (ucast n))"

text \<open>An unsigned integer of a width: a number that does not fit is refused.\<close>

definition word_of :: "json_value \<Rightarrow> 'w::len word option" where
  "word_of j =
     (case j of
        Json_number (Pos_int n) \<Rightarrow> if unat n < 2 ^ LENGTH('w) then Some (ucast n) else None
      | _ \<Rightarrow> None)"

definition list_of :: "(json_value \<Rightarrow> 'a option) \<Rightarrow> json_value \<Rightarrow> 'a list option" where
  "list_of read j = (case j of Json_array vs \<Rightarrow> those (map read vs) | _ \<Rightarrow> None)"

text \<open>A map of values (\<open>serde_json::Map\<close>).\<close>

definition map_of_json :: "json_value \<Rightarrow> (string \<times> json_value) list option" where
  "map_of_json j = (case canonical j of Json_object m \<Rightarrow> Some m | _ \<Rightarrow> None)"

text \<open>The fields of a struct.\<close>

definition fields_of :: "json_value \<Rightarrow> (string \<times> json_value) list option" where
  "fields_of j = (case j of Json_object fs \<Rightarrow> Some fs | _ \<Rightarrow> None)"

text \<open>A unit variant by its name.\<close>

definition variant_of :: "('a \<Rightarrow> string) \<Rightarrow> 'a list \<Rightarrow> json_value \<Rightarrow> 'a option" where
  "variant_of name variants j = do { s \<leftarrow> string_of j; find (\<lambda>x. name x = s) variants }"

lemma scalars_read [simp]:
  "string_of (Json_string s) = Some s" "bool_of (Json_bool b) = Some b"
  "fields_of (Json_object fs) = Some fs"
  by (simp_all add: string_of_def bool_of_def fields_of_def)

lemma word_read [simp]:
  assumes "LENGTH('w::len) \<le> 64"
  shows "word_of (number (n :: 'w word)) = Some n"
proof -
  have less: "unat n < 2 ^ LENGTH('w)" by (rule unsigned_less)
  also have "(2 :: nat) ^ LENGTH('w) \<le> 2 ^ 64" by (rule power_increasing) (use assms in simp_all)
  finally have "take_bit 64 (unat n) = unat n" by (rule take_bit_nat_eq_self)
  then have u: "unat (ucast n :: u64) = unat n" by (simp add: unsigned_ucast_eq unsigned_take_bit_eq)
  have "unat (ucast (ucast n :: u64) :: 'w word) = take_bit LENGTH('w) (unat (ucast n :: u64))"
    by (simp only: unsigned_ucast_eq unsigned_take_bit_eq take_bit_take_bit min.commute)
  then have "unat (ucast (ucast n :: u64) :: 'w word) = unat n"
    unfolding u by (simp only: take_bit_nat_eq_self [OF less])
  then have "(ucast (ucast n :: u64) :: 'w word) = n" by (rule word_unat_eq_iff [THEN iffD2])
  then show ?thesis by (simp add: word_of_def number_def u less)
qed

lemma list_read:
  assumes "\<forall>x \<in> set xs. read (write x) = Some x"
  shows "list_of read (Json_array (map write xs)) = Some xs"
  using assms by (induction xs) (auto simp: list_of_def)

lemma strings_read [simp]: "list_of string_of (Json_array (map Json_string ss)) = Some ss"
  by (rule list_read) simp

section \<open>The manifest\<close>

definition format_json :: "format_metadata \<Rightarrow> json_value" where
  "format_json x =
     Json_object [
      (''session_format'', number (fm_session_format x)),
      (''schema_version'', number (fm_schema_version x)),
      (''rrjj_version'', Json_string (fm_rrjj_version x)),
      (''jj_lib_version'', Json_string (fm_jj_lib_version x)),
      (''jj_store_version'', Json_string (fm_jj_store_version x))]"

definition format_of_json :: "json_value \<Rightarrow> format_metadata option" where
  "format_of_json j = do {
     fs \<leftarrow> fields_of j;
     session_format_v \<leftarrow> required word_of ''session_format'' fs;
     schema_version_v \<leftarrow> required word_of ''schema_version'' fs;
     rrjj_version_v \<leftarrow> required string_of ''rrjj_version'' fs;
     jj_lib_version_v \<leftarrow> required string_of ''jj_lib_version'' fs;
     jj_store_version_v \<leftarrow> required string_of ''jj_store_version'' fs;
     Some \<lparr>fm_session_format = session_format_v, fm_schema_version = schema_version_v,
       fm_rrjj_version = rrjj_version_v, fm_jj_lib_version = jj_lib_version_v,
       fm_jj_store_version = jj_store_version_v\<rparr> }"

definition pointers_json :: "storage_pointers \<Rightarrow> json_value" where
  "pointers_json x =
     Json_object (written [
      (''provider'', Some (Json_string (sp_provider x))),
      (''session_uri'', Some (Json_string (sp_session_uri x))),
      (''manifest_uri'', Some (Json_string (sp_manifest_uri x))),
      (''repository_uri'', Some (Json_string (sp_repository_uri x))),
      (''events_uri'', map_option Json_string (sp_events_uri x))])"

definition pointers_of_json :: "json_value \<Rightarrow> storage_pointers option" where
  "pointers_of_json j = do {
     fs \<leftarrow> fields_of j;
     provider_v \<leftarrow> required string_of ''provider'' fs;
     session_uri_v \<leftarrow> required string_of ''session_uri'' fs;
     manifest_uri_v \<leftarrow> required string_of ''manifest_uri'' fs;
     repository_uri_v \<leftarrow> required string_of ''repository_uri'' fs;
     events_uri_v \<leftarrow> optional string_of ''events_uri'' fs;
     Some \<lparr>sp_provider = provider_v, sp_session_uri = session_uri_v,
       sp_manifest_uri = manifest_uri_v, sp_repository_uri = repository_uri_v,
       sp_events_uri = events_uri_v\<rparr> }"

definition manifest_json :: "session_manifest \<Rightarrow> json_value" where
  "manifest_json x =
     Json_object (written [
      (''session_id'', Some (Json_string (sm_session_id x))),
      (''format'', Some (format_json (sm_format x))),
      (''last_seq'', Some (number (sm_last_seq x))),
      (''last_op'', Some (Json_string (sm_last_op x))),
      (''events_object'', map_option Json_string (sm_events_object x)),
      (''durable_seq'', map_option number (sm_durable_seq x)),
      (''durable_op'', map_option Json_string (sm_durable_op x)),
      (''storage'', map_option pointers_json (sm_storage x))])"

definition manifest_of_json :: "json_value \<Rightarrow> session_manifest option" where
  "manifest_of_json j = do {
     fs \<leftarrow> fields_of j;
     session_id_v \<leftarrow> required string_of ''session_id'' fs;
     format_v \<leftarrow> required format_of_json ''format'' fs;
     last_seq_v \<leftarrow> required word_of ''last_seq'' fs;
     last_op_v \<leftarrow> required string_of ''last_op'' fs;
     events_object_v \<leftarrow> optional string_of ''events_object'' fs;
     durable_seq_v \<leftarrow> optional word_of ''durable_seq'' fs;
     durable_op_v \<leftarrow> optional string_of ''durable_op'' fs;
     storage_v \<leftarrow> optional pointers_of_json ''storage'' fs;
     Some \<lparr>sm_session_id = session_id_v, sm_format = format_v, sm_last_seq = last_seq_v,
       sm_last_op = last_op_v, sm_events_object = events_object_v,
       sm_durable_seq = durable_seq_v, sm_durable_op = durable_op_v, sm_storage = storage_v\<rparr> }"

section \<open>Payloads\<close>

text \<open>The names of unit variants (\<open>rename_all = "snake_case"\<close>).\<close>

fun change_kind_name :: "change_kind \<Rightarrow> string" where
  "change_kind_name Added = ''added''"
| "change_kind_name Removed = ''removed''"
| "change_kind_name Modified = ''modified''"
| "change_kind_name Renamed = ''renamed''"
| "change_kind_name Mode_changed = ''mode_changed''"

fun touch_operation_name :: "touch_operation \<Rightarrow> string" where
  "touch_operation_name Create = ''create''"
| "touch_operation_name Modify = ''modify''"
| "touch_operation_name Remove = ''remove''"
| "touch_operation_name Rename = ''rename''"
| "touch_operation_name Other = ''other''"

fun overflow_recovery_name :: "overflow_recovery \<Rightarrow> string" where
  "overflow_recovery_name Full_scan_snapshot = ''full_scan_snapshot''"

definition change_kind_json :: "change_kind \<Rightarrow> json_value" where
  "change_kind_json k = Json_string (change_kind_name k)"

definition change_kind_of_json :: "json_value \<Rightarrow> change_kind option" where
  "change_kind_of_json = variant_of change_kind_name [Added, Removed, Modified, Renamed, Mode_changed]"

definition touch_operation_json :: "touch_operation \<Rightarrow> json_value" where
  "touch_operation_json operation = Json_string (touch_operation_name operation)"

definition touch_operation_of_json :: "json_value \<Rightarrow> touch_operation option" where
  "touch_operation_of_json = variant_of touch_operation_name [Create, Modify, Remove, Rename, Other]"

definition overflow_recovery_json :: "overflow_recovery \<Rightarrow> json_value" where
  "overflow_recovery_json r = Json_string (overflow_recovery_name r)"

definition overflow_recovery_of_json :: "json_value \<Rightarrow> overflow_recovery option" where
  "overflow_recovery_of_json = variant_of overflow_recovery_name [Full_scan_snapshot]"

lemma variants_read [simp]:
  "change_kind_of_json (change_kind_json k) = Some k"
  "touch_operation_of_json (touch_operation_json operation) = Some operation"
  "overflow_recovery_of_json (overflow_recovery_json r) = Some r"
  by (cases k, simp_all add: change_kind_of_json_def change_kind_json_def variant_of_def)
    (cases operation, simp_all add: touch_operation_of_json_def touch_operation_json_def variant_of_def,
     cases r, simp add: overflow_recovery_of_json_def overflow_recovery_json_def variant_of_def)

definition session_start_json :: "session_start \<Rightarrow> json_value" where
  "session_start_json x =
     Json_object [
      (''roots'', Json_array (map Json_string (ss_roots x))),
      (''baseline_op'', Json_string (ss_baseline_op x)),
      (''baseline_tree'', Json_string (ss_baseline_tree x)),
      (''ignore'', Json_array (map Json_string (ss_ignore x))),
      (''rrjj_version'', Json_string (ss_rrjj_version x)),
      (''jj_lib_version'', Json_string (ss_jj_lib_version x)),
      (''jj_store_version'', Json_string (ss_jj_store_version x))]"

definition session_start_of_json :: "json_value \<Rightarrow> session_start option" where
  "session_start_of_json j = do {
     fs \<leftarrow> fields_of j;
     roots_v \<leftarrow> required (list_of string_of) ''roots'' fs;
     baseline_op_v \<leftarrow> required string_of ''baseline_op'' fs;
     baseline_tree_v \<leftarrow> required string_of ''baseline_tree'' fs;
     ignore_v \<leftarrow> required (list_of string_of) ''ignore'' fs;
     rrjj_version_v \<leftarrow> required string_of ''rrjj_version'' fs;
     jj_lib_version_v \<leftarrow> required string_of ''jj_lib_version'' fs;
     jj_store_version_v \<leftarrow> required string_of ''jj_store_version'' fs;
     Some \<lparr>ss_roots = roots_v, ss_baseline_op = baseline_op_v,
       ss_baseline_tree = baseline_tree_v, ss_ignore = ignore_v,
       ss_rrjj_version = rrjj_version_v, ss_jj_lib_version = jj_lib_version_v,
       ss_jj_store_version = jj_store_version_v\<rparr> }"

definition change_json :: "change \<Rightarrow> json_value" where
  "change_json x =
     Json_object (written [
      (''path'', Some (Json_string (ch_path x))),
      (''kind'', Some (change_kind_json (ch_kind x))),
      (''blob'', map_option Json_string (ch_blob x)),
      (''prev_blob'', map_option Json_string (ch_prev_blob x)),
      (''from'', map_option Json_string (ch_from x)),
      (''bytes'', map_option number (ch_bytes x))])"

definition change_of_json :: "json_value \<Rightarrow> change option" where
  "change_of_json j = do {
     fs \<leftarrow> fields_of j;
     path_v \<leftarrow> required string_of ''path'' fs;
     kind_v \<leftarrow> required change_kind_of_json ''kind'' fs;
     blob_v \<leftarrow> optional string_of ''blob'' fs;
     prev_blob_v \<leftarrow> optional string_of ''prev_blob'' fs;
     from_v \<leftarrow> optional string_of ''from'' fs;
     bytes_v \<leftarrow> optional word_of ''bytes'' fs;
     Some \<lparr>ch_path = path_v, ch_kind = kind_v, ch_blob = blob_v,
       ch_prev_blob = prev_blob_v, ch_from = from_v, ch_bytes = bytes_v\<rparr> }"

definition change_stats_json :: "change_stats \<Rightarrow> json_value" where
  "change_stats_json x =
     Json_object [
      (''added'', number (cs_added x)),
      (''removed'', number (cs_removed x)),
      (''modified'', number (cs_modified x)),
      (''renamed'', number (cs_renamed x)),
      (''mode_changed'', number (cs_mode_changed x))]"

definition change_stats_of_json :: "json_value \<Rightarrow> change_stats option" where
  "change_stats_of_json j = do {
     fs \<leftarrow> fields_of j;
     added_v \<leftarrow> required word_of ''added'' fs;
     removed_v \<leftarrow> required word_of ''removed'' fs;
     modified_v \<leftarrow> required word_of ''modified'' fs;
     renamed_v \<leftarrow> required word_of ''renamed'' fs;
     mode_changed_v \<leftarrow> required word_of ''mode_changed'' fs;
     Some \<lparr>cs_added = added_v, cs_removed = removed_v, cs_modified = modified_v,
       cs_renamed = renamed_v, cs_mode_changed = mode_changed_v\<rparr> }"

definition snapshot_json :: "snapshot \<Rightarrow> json_value" where
  "snapshot_json x =
     Json_object [
      (''op'', Json_string (sn_op x)),
      (''parent_op'', Json_string (sn_parent_op x)),
      (''commit'', Json_string (sn_commit x)),
      (''tree'', Json_string (sn_tree x)),
      (''changes'', Json_array (map change_json (sn_changes x))),
      (''stats'', change_stats_json (sn_stats x)),
      (''truncated'', Json_bool (sn_truncated x))]"

definition snapshot_of_json :: "json_value \<Rightarrow> snapshot option" where
  "snapshot_of_json j = do {
     fs \<leftarrow> fields_of j;
     op_v \<leftarrow> required string_of ''op'' fs;
     parent_op_v \<leftarrow> required string_of ''parent_op'' fs;
     commit_v \<leftarrow> required string_of ''commit'' fs;
     tree_v \<leftarrow> required string_of ''tree'' fs;
     changes_v \<leftarrow> required (list_of change_of_json) ''changes'' fs;
     stats_v \<leftarrow> required change_stats_of_json ''stats'' fs;
     truncated_v \<leftarrow> required bool_of ''truncated'' fs;
     Some \<lparr>sn_op = op_v, sn_parent_op = parent_op_v, sn_commit = commit_v,
       sn_tree = tree_v, sn_changes = changes_v, sn_stats = stats_v, sn_truncated = truncated_v\<rparr> }"

definition touched_path_json :: "touched_path \<Rightarrow> json_value" where
  "touched_path_json x =
     Json_object [
      (''path'', Json_string (tp_path x)),
      (''operations'', Json_array (map touch_operation_json (tp_operations x)))]"

definition touched_path_of_json :: "json_value \<Rightarrow> touched_path option" where
  "touched_path_of_json j = do {
     fs \<leftarrow> fields_of j;
     path_v \<leftarrow> required string_of ''path'' fs;
     operations_v \<leftarrow> required (list_of touch_operation_of_json) ''operations'' fs;
     Some \<lparr>tp_path = path_v, tp_operations = operations_v\<rparr> }"

definition touched_paths_json :: "touched_paths \<Rightarrow> json_value" where
  "touched_paths_json x =
     Json_object [
      (''paths'', Json_array (map touched_path_json (tps_paths x))),
      (''raw_events'', number (tps_raw_events x)),
      (''window_started_at'', Json_string (tps_window_started_at x)),
      (''window_ended_at'', Json_string (tps_window_ended_at x))]"

definition touched_paths_of_json :: "json_value \<Rightarrow> touched_paths option" where
  "touched_paths_of_json j = do {
     fs \<leftarrow> fields_of j;
     paths_v \<leftarrow> required (list_of touched_path_of_json) ''paths'' fs;
     raw_events_v \<leftarrow> required word_of ''raw_events'' fs;
     window_started_at_v \<leftarrow> required string_of ''window_started_at'' fs;
     window_ended_at_v \<leftarrow> required string_of ''window_ended_at'' fs;
     Some \<lparr>tps_paths = paths_v, tps_raw_events = raw_events_v,
       tps_window_started_at = window_started_at_v, tps_window_ended_at = window_ended_at_v\<rparr> }"

text \<open>The field \<open>meta\<close> of a mark, an empty map when it is missing (\<open>#[serde(default)]\<close>).\<close>

definition meta_of :: "(string \<times> json_value) list \<Rightarrow> (string \<times> json_value) list option" where
  "meta_of fs = do {
     found \<leftarrow> field ''meta'' fs;
     (case found of None \<Rightarrow> Some [] | Some v \<Rightarrow> map_of_json v) }"

definition mark_json :: "mark \<Rightarrow> json_value" where
  "mark_json x =
     Json_object [
      (''label'', Json_string (mk_label x)),
      (''meta'', Json_object (mk_meta x)),
      (''ref_op'', Json_string (mk_ref_op x))]"

definition mark_of_json :: "json_value \<Rightarrow> mark option" where
  "mark_of_json j = do {
     fs \<leftarrow> fields_of j;
     label_v \<leftarrow> required string_of ''label'' fs;
     meta_v \<leftarrow> meta_of fs;
     ref_op_v \<leftarrow> required string_of ''ref_op'' fs;
     Some \<lparr>mk_label = label_v, mk_meta = meta_v, mk_ref_op = ref_op_v\<rparr> }"

definition flush_json :: "flush \<Rightarrow> json_value" where
  "flush_json x =
     Json_object [
      (''op'', Json_string (fl_op x)),
      (''through_seq'', number (fl_through_seq x))]"

definition flush_of_json :: "json_value \<Rightarrow> flush option" where
  "flush_of_json j = do {
     fs \<leftarrow> fields_of j;
     op_v \<leftarrow> required string_of ''op'' fs;
     through_seq_v \<leftarrow> required word_of ''through_seq'' fs;
     Some \<lparr>fl_op = op_v, fl_through_seq = through_seq_v\<rparr> }"

definition session_end_json :: "session_end \<Rightarrow> json_value" where
  "session_end_json x =
     Json_object [
      (''final_op'', Json_string (se_final_op x)),
      (''reason'', Json_string (se_reason x)),
      (''snapshots'', number (se_snapshots x)),
      (''events'', number (se_events x))]"

definition session_end_of_json :: "json_value \<Rightarrow> session_end option" where
  "session_end_of_json j = do {
     fs \<leftarrow> fields_of j;
     final_op_v \<leftarrow> required string_of ''final_op'' fs;
     reason_v \<leftarrow> required string_of ''reason'' fs;
     snapshots_v \<leftarrow> required word_of ''snapshots'' fs;
     events_v \<leftarrow> required word_of ''events'' fs;
     Some \<lparr>se_final_op = final_op_v, se_reason = reason_v, se_snapshots = snapshots_v,
       se_events = events_v\<rparr> }"

definition error_event_json :: "error_event \<Rightarrow> json_value" where
  "error_event_json x =
     Json_object [
      (''scope'', Json_string (ee_scope x)),
      (''message'', Json_string (ee_message x)),
      (''fatal'', Json_bool (ee_fatal x)),
      (''retrying'', Json_bool (ee_retrying x))]"

definition error_event_of_json :: "json_value \<Rightarrow> error_event option" where
  "error_event_of_json j = do {
     fs \<leftarrow> fields_of j;
     scope_v \<leftarrow> required string_of ''scope'' fs;
     message_v \<leftarrow> required string_of ''message'' fs;
     fatal_v \<leftarrow> required bool_of ''fatal'' fs;
     retrying_v \<leftarrow> required bool_of ''retrying'' fs;
     Some \<lparr>ee_scope = scope_v, ee_message = message_v, ee_fatal = fatal_v,
       ee_retrying = retrying_v\<rparr> }"

definition overflow_json :: "overflow \<Rightarrow> json_value" where
  "overflow_json x =
     Json_object [
      (''source'', Json_string (of_source x)),
      (''raw_events'', number (of_raw_events x)),
      (''recovery'', overflow_recovery_json (of_recovery x))]"

definition overflow_of_json :: "json_value \<Rightarrow> overflow option" where
  "overflow_of_json j = do {
     fs \<leftarrow> fields_of j;
     source_v \<leftarrow> required string_of ''source'' fs;
     raw_events_v \<leftarrow> required word_of ''raw_events'' fs;
     recovery_v \<leftarrow> required overflow_recovery_of_json ''recovery'' fs;
     Some \<lparr>of_source = source_v, of_raw_events = raw_events_v, of_recovery = recovery_v\<rparr> }"

section \<open>Events\<close>

text \<open>\<open>EventBody\<close>: the name of the variant in \<open>type\<close>, its struct in \<open>data\<close>.\<close>

fun body_type :: "event_body \<Rightarrow> string" where
  "body_type (Session_start x) = ''session_start''"
| "body_type (Snapshot x) = ''snapshot''"
| "body_type (Touched_paths x) = ''touched_paths''"
| "body_type (Mark x) = ''mark''"
| "body_type (Flush x) = ''flush''"
| "body_type (Session_end x) = ''session_end''"
| "body_type (Error x) = ''error''"
| "body_type (Overflow x) = ''overflow''"

fun body_data :: "event_body \<Rightarrow> json_value" where
  "body_data (Session_start x) = session_start_json x"
| "body_data (Snapshot x) = snapshot_json x"
| "body_data (Touched_paths x) = touched_paths_json x"
| "body_data (Mark x) = mark_json x"
| "body_data (Flush x) = flush_json x"
| "body_data (Session_end x) = session_end_json x"
| "body_data (Error x) = error_event_json x"
| "body_data (Overflow x) = overflow_json x"

definition body_of_json :: "string \<Rightarrow> json_value \<Rightarrow> event_body option" where
  "body_of_json name j =
     (if name = ''session_start'' then map_option Session_start (session_start_of_json j)
      else if name = ''snapshot'' then map_option Snapshot (snapshot_of_json j)
      else if name = ''touched_paths'' then map_option Touched_paths (touched_paths_of_json j)
      else if name = ''mark'' then map_option Mark (mark_of_json j)
      else if name = ''flush'' then map_option Flush (flush_of_json j)
      else if name = ''session_end'' then map_option Session_end (session_end_of_json j)
      else if name = ''error'' then map_option Error (error_event_of_json j)
      else if name = ''overflow'' then map_option Overflow (overflow_of_json j)
      else None)"

text \<open>\<open>Event\<close>, with the fields of its body among its own (\<open>#[serde(flatten)]\<close>).\<close>

definition event_fields :: "event \<Rightarrow> json_value \<Rightarrow> (string \<times> json_value) list" where
  "event_fields e data =
     [(''v'', number (ev_v e)),
      (''seq'', number (ev_seq e)),
      (''session_id'', Json_string (ev_session_id e)),
      (''ts'', Json_string (ev_ts e)),
      (''type'', Json_string (body_type (ev_body e))),
      (''data'', data)]"

definition event_json :: "event \<Rightarrow> json_value" where
  "event_json e = Json_object (event_fields e (body_data (ev_body e)))"

definition event_of_json :: "json_value \<Rightarrow> event option" where
  "event_of_json j = do {
     fs \<leftarrow> fields_of j;
     v_v \<leftarrow> required word_of ''v'' fs;
     seq_v \<leftarrow> required word_of ''seq'' fs;
     session_id_v \<leftarrow> required string_of ''session_id'' fs;
     ts_v \<leftarrow> required string_of ''ts'' fs;
     name \<leftarrow> required string_of ''type'' fs;
     data \<leftarrow> required Some ''data'' fs;
     body \<leftarrow> body_of_json name data;
     Some \<lparr>ev_v = v_v, ev_seq = seq_v, ev_session_id = session_id_v, ev_ts = ts_v, ev_body = body\<rparr> }"

section \<open>What is written is read\<close>

lemma number_not_null [simp]: "number n \<noteq> Json_null"
  by (simp add: number_def)

lemma nullable_scalars [simp]:
  "nullable string_of (map_option Json_string v) = Some v"
  "nullable word_of (map_option number n) = Some (n :: u64 option)"
  by (rule nullable_read; simp)+

lemma format_read [simp]: "format_of_json (format_json x) = Some x"
  by (simp add: format_of_json_def format_json_def required_def)

lemma pointers_read [simp]: "pointers_of_json (pointers_json x) = Some x"
  by (simp add: pointers_of_json_def pointers_json_def required_def optional_def)

lemma nullable_pointers [simp]: "nullable pointers_of_json (map_option pointers_json v) = Some v"
  by (rule nullable_read) (simp add: pointers_json_def pointers_read [unfolded pointers_json_def])

text \<open>A manifest is read as it was written.\<close>

theorem manifest_read [simp]: "manifest_of_json (manifest_json x) = Some x"
  by (simp add: manifest_of_json_def manifest_json_def required_def optional_def)

lemma payloads_read [simp]:
  "session_start_of_json (session_start_json a) = Some a"
  "change_stats_of_json (change_stats_json b) = Some b"
  "touched_path_of_json (touched_path_json c) = Some c"
  "flush_of_json (flush_json d) = Some d"
  "session_end_of_json (session_end_json f) = Some f"
  "error_event_of_json (error_event_json g) = Some g"
  "overflow_of_json (overflow_json h) = Some h"
  by (simp_all add: session_start_of_json_def session_start_json_def change_stats_of_json_def change_stats_json_def
      touched_path_of_json_def touched_path_json_def flush_of_json_def flush_json_def session_end_of_json_def
      session_end_json_def error_event_of_json_def error_event_json_def overflow_of_json_def overflow_json_def
      required_def list_read)

lemma change_read [simp]: "change_of_json (change_json x) = Some x"
  by (simp add: change_of_json_def change_json_def required_def optional_def)

lemma snapshot_read [simp]: "snapshot_of_json (snapshot_json x) = Some x"
  by (simp add: snapshot_of_json_def snapshot_json_def required_def list_read)

lemma touched_paths_read [simp]: "touched_paths_of_json (touched_paths_json x) = Some x"
  by (simp add: touched_paths_of_json_def touched_paths_json_def required_def list_read)

text \<open>What a mark can hold as \<open>meta\<close>: a map of values.\<close>

definition meta_ok :: "(string \<times> json_value) list \<Rightarrow> bool" where
  "meta_ok m \<longleftrightarrow> canonical (Json_object m) = Json_object m"

fun body_ok :: "event_body \<Rightarrow> bool" where
  "body_ok (Mark x) = meta_ok (mk_meta x)"
| "body_ok _ = True"

definition names_of :: "(string \<times> json_value) list \<Rightarrow> string set" where
  "names_of fs = fst ` set fs"

lemma same_names: "same_fields (names_of fs) fs' fs \<Longrightarrow> \<forall>name \<in> names_of fs. field name fs' = field name fs"
  using same_field by blast

lemma body_read:
  assumes "body_ok b" and "body_data b = Json_object ds" and "same_fields (names_of ds) ds' ds"
  shows "body_of_json (body_type b) (Json_object ds') = Some b"
proof -
  note fields = same_names [OF assms(3)]
  note reads = body_of_json_def names_of_def required_def list_read
  show ?thesis
  proof (cases b)
    case (Snapshot x)
    with fields assms(2) show ?thesis by (auto simp: reads snapshot_of_json_def snapshot_json_def)
  next
    case (Mark x)
    with fields assms(1,2) show ?thesis
      by (auto simp: reads mark_of_json_def mark_json_def meta_of_def map_of_json_def meta_ok_def
          simp del: canonical.simps)
  next
    case (Touched_paths x)
    with fields assms(2) show ?thesis by (auto simp: reads touched_paths_of_json_def touched_paths_json_def)
  next
    case (Session_start x)
    with fields assms(2) show ?thesis by (auto simp: reads session_start_of_json_def session_start_json_def)
  next
    case (Session_end x)
    with fields assms(2) show ?thesis by (auto simp: reads session_end_of_json_def session_end_json_def)
  next
    case (Error x)
    with fields assms(2) show ?thesis by (auto simp: reads error_event_of_json_def error_event_json_def)
  next
    case (Flush x)
    with fields assms(2) show ?thesis by (auto simp: reads flush_of_json_def flush_json_def)
  next
    case (Overflow x)
    with fields assms(2) show ?thesis by (auto simp: reads overflow_of_json_def overflow_json_def)
  qed
qed

text \<open>
  An event is read as it was written, and still so when a later producer adds fields to the
  envelope and to the data: a consumer ignores the fields it does not know.
\<close>

theorem event_read_among_unknown:
  assumes "body_ok (ev_body e)" and "body_data (ev_body e) = Json_object ds"
    and "same_fields (names_of ds) ds' ds"
    and "same_fields (names_of (event_fields e (Json_object ds'))) fs (event_fields e (Json_object ds'))"
  shows "event_of_json (Json_object fs) = Some e"
  using same_names [OF assms(4)] body_read [OF assms(1-3)]
  by (simp add: event_of_json_def event_fields_def names_of_def required_def)

text \<open>A document that says of an event what its own document says, among other fields.\<close>

definition says :: "json_value \<Rightarrow> event \<Rightarrow> bool" where
  "says j e =
     (case (j, body_data (ev_body e)) of
        (Json_object fs, Json_object ds) \<Rightarrow>
          (case map_of fs ''data'' of
             Some (Json_object ds') \<Rightarrow>
               same_fields (names_of ds) ds' ds
               \<and> same_fields (names_of (event_fields e (Json_object ds'))) fs (event_fields e (Json_object ds'))
           | _ \<Rightarrow> False)
      | _ \<Rightarrow> False)"

lemma says_read: "body_ok (ev_body e) \<Longrightarrow> says j e \<Longrightarrow> event_of_json j = Some e"
  using event_read_among_unknown [of e] unfolding says_def
  by (auto split: json_value.split_asm option.split_asm prod.split_asm)

lemma says_own [simp]: "says (event_json e) e"
  by (cases "ev_body e") (simp_all add: says_def event_json_def event_fields_def same_fields_def session_start_json_def
      snapshot_json_def touched_paths_json_def mark_json_def flush_json_def session_end_json_def
      error_event_json_def overflow_json_def)

lemma event_read [simp]: "body_ok (ev_body e) \<Longrightarrow> event_of_json (event_json e) = Some e"
  using says_read says_own by blast

lemma map_of_json_ok: "map_of_json v = Some m \<Longrightarrow> meta_ok m"
  unfolding meta_ok_def map_of_json_def using canonical_canonical [of v]
  by (cases "canonical v") (simp_all del: canonical.simps canonical_canonical)

lemma meta_of_ok: "meta_of fs = Some m \<Longrightarrow> meta_ok m"
  by (auto simp: meta_of_def Option.bind_eq_Some_conv map_of_json_ok split: option.splits)
    (simp add: meta_ok_def map_from_def)

lemma mark_of_meta: "mark_of_json j = Some x \<Longrightarrow> meta_ok (mk_meta x)"
  by (auto simp: mark_of_json_def Option.bind_eq_Some_conv meta_of_ok)

lemma body_of_json_ok: "body_of_json name data = Some b \<Longrightarrow> body_ok b"
  by (auto simp: body_of_json_def dest: mark_of_meta split: if_split_asm)

text \<open>What is read can be written and read again.\<close>

theorem read_body_ok:
  assumes "event_of_json j = Some e"
  shows "body_ok (ev_body e)"
proof -
  from assms obtain name data where "body_of_json name data = Some (ev_body e)"
    by (auto simp: event_of_json_def Option.bind_eq_Some_conv)
  then show ?thesis by (rule body_of_json_ok)
qed

end
