(* ===== verification/Control_Cli.thy ===== *)
theory Control_Cli
  imports Daemon Reader
begin

text \<open>
  The command line (\<open>main\<close> and the client's \<open>request\<close> of \<open>crates/rrjj/src/main.rs\<close>), the HTTP
  handlers, and the two ends of the control socket put together.
\<close>

section \<open>The commands of a client\<close>

datatype client_command =
    Client_status
  | Client_snap
  | Client_flush
  | Client_pause
  | Client_resume
  | Client_mark string string

text \<open>\<open>parse\<close> is the JSON parser: an error, a JSON object, or (\<open>None\<close>) another JSON value.\<close>

fun client_request ::
  "(string \<Rightarrow> string + (string \<times> json_value) list option) \<Rightarrow> client_command \<Rightarrow> string + request" where
  "client_request parse Client_status = Inr Req_status"
| "client_request parse Client_snap = Inr Req_snap"
| "client_request parse Client_flush = Inr Req_flush"
| "client_request parse Client_pause = Inr Req_pause"
| "client_request parse Client_resume = Inr Req_resume"
| "client_request parse (Client_mark label meta) =
     (case parse meta of
        Inl m \<Rightarrow> Inl ''--meta must be valid JSON''
      | Inr None \<Rightarrow> Inl ''--meta must be a JSON object''
      | Inr (Some members) \<Rightarrow> Inr (Req_mark label members))"

record 'w client_env =
  ce_connect :: "('w, string, unit) op"
  ce_write :: "request \<Rightarrow> ('w, string, unit) op"
  ce_read_line :: "('w, string, string) op"
  ce_parse :: "string \<Rightarrow> string + response"

definition client_exchange ::
  "'w client_env \<Rightarrow> string \<Rightarrow> request \<Rightarrow> ('w, string, response_data option) op" where
  "client_exchange env path request w =
     (case ce_connect env w of
        (Inl e, w) \<Rightarrow> (Inl (''connect to '' @ path), w)
      | (Inr _, w) \<Rightarrow>
     (case ce_write env request w of
        (Inl e, w) \<Rightarrow> (Inl e, w)
      | (Inr _, w) \<Rightarrow>
     (case ce_read_line env w of
        (Inl e, w) \<Rightarrow> (Inl e, w)
      | (Inr line, w) \<Rightarrow>
          (case ce_parse env line of
             Inl e \<Rightarrow> (Inl e, w)
           | Inr response \<Rightarrow> (client_result response, w)))))"

text \<open>\<open>Inspect\<close>: an identifier of a tree or of an operation.\<close>

definition cli_inspect :: "session \<Rightarrow> string \<Rightarrow> read_error + operation_info" where
  "cli_inspect s ident =
     (if starts_with ident ''t:'' then inspect_tree s ident else inspect_operation s ident)"

text \<open>
  \<open>main\<close> without the daemon. The world \<open>'w\<close> holds the control socket and the file system;
  \<open>Json_line\<close> is what \<open>print_json\<close> is given.
\<close>

datatype cli_command =
    Cli_control client_command string
  | Cli_index "string list"
  | Cli_inspect "string list" string
  | Cli_diff "string list" string string
  | Cli_materialize "string list" string fs_path

datatype cli_output =
    Json_response "response_data option"
  | Json_index "timeline_entry list"
  | Json_operation operation_info
  | Json_diff "tree_diff list"
  | Json_materialized string

datatype cli_error = Control_failed string | Read_failed read_error

definition read_result :: "('a \<Rightarrow> cli_output) \<Rightarrow> read_error + 'a \<Rightarrow> cli_error + cli_output" where
  "read_result f r = (case r of Inl e \<Rightarrow> Inl (Read_failed e) | Inr x \<Rightarrow> Inr (f x))"

definition run_control ::
  "(string \<Rightarrow> string + (string \<times> json_value) list option) \<Rightarrow> 'w client_env \<Rightarrow> client_command \<Rightarrow> string
     \<Rightarrow> ('w, cli_error, cli_output) op" where
  "run_control parse ce command socket w =
     (case client_request parse command of
        Inl m \<Rightarrow> (Inl (Control_failed m), w)
      | Inr request \<Rightarrow>
          (case client_exchange ce socket request w of
             (Inl m, w) \<Rightarrow> (Inl (Control_failed m), w)
           | (Inr data, w) \<Rightarrow> (Inr (Json_response data), w)))"

fun run_cli ::
  "(string \<Rightarrow> string + (string \<times> json_value) list option) \<Rightarrow> 'w client_env \<Rightarrow> ('w \<Rightarrow> reader_env)
     \<Rightarrow> 'h reader_jj \<Rightarrow> ('h, 'w) materialize_env \<Rightarrow> cli_command \<Rightarrow> ('w, cli_error, cli_output) op" where
  "run_cli parse ce re jj me (Cli_control command socket) w = run_control parse ce command socket w"
| "run_cli parse ce re jj me (Cli_index root) w =
     (read_result Json_index (and_then (session_open (re w) root) (\<lambda>s. Inr (session_index s))), w)"
| "run_cli parse ce re jj me (Cli_inspect root ident) w =
     (read_result Json_operation (and_then (session_open (re w) root) (\<lambda>s. cli_inspect s ident)), w)"
| "run_cli parse ce re jj me (Cli_diff root before after) w =
     (read_result Json_diff (and_then (session_open (re w) root) (\<lambda>s. session_diff jj s before after)), w)"
| "run_cli parse ce re jj me (Cli_materialize root oper destination) w =
     (case session_open (re w) root of
        Inl e \<Rightarrow> (Inl (Read_failed e), w)
      | Inr s \<Rightarrow>
          (case materialize jj me s oper destination w of
             (Inl e, w) \<Rightarrow> (Inl (Read_failed e), w)
           | (Inr _, w) \<Rightarrow> (Inr (Json_materialized oper), w)))"

section \<open>The HTTP handlers\<close>

text \<open>
  The routes of \<open>http_router\<close> and \<open>static_scrubber_router\<close> for GET requests; the three assets are
  the files the program includes. \<open>coordinator\<close> is \<open>None\<close> when its task has ended; the stream of a
  subscriber is the list of what \<open>BroadcastStream\<close> yields.
\<close>

record scrubber_assets =
  sa_index :: string
  sa_component :: string
  sa_model :: string

datatype page =
    Html string
  | Javascript string
  | Status_json status
  | Service_unavailable string
  | Event_stream "sse_event list"
  | Not_found

definition http_status ::
  "('s, 't, 'j) ctx \<Rightarrow> ('s, 't, 'j) live option \<Rightarrow> (page \<times> ('s, 't, 'j) live option) option" where
  "http_status cx coordinator =
     (case coordinator of
        None \<Rightarrow> Some (Service_unavailable ''channel closed'', None)
      | Some l \<Rightarrow>
          (case handle_status cx l of
             None \<Rightarrow> None
           | Some (R_status status, l) \<Rightarrow> Some (Status_json status, Some l)
           | Some (_, l) \<Rightarrow> Some (Not_found, Some l)))"

definition sse_events ::
  "(event \<Rightarrow> string) \<Rightarrow> (string \<Rightarrow> string) \<Rightarrow> (string + event) list \<Rightarrow> page" where
  "sse_events to_string overflow_json received = Event_stream (map (sse_message to_string overflow_json) received)"

definition static_scrubber :: "scrubber_assets \<Rightarrow> string \<Rightarrow> page" where
  "static_scrubber assets path =
     (if path = ''/'' then Html (sa_index assets)
      else if path = ''/rrjj-live.mjs'' then Javascript (sa_component assets)
      else if path = ''/timeline-model.mjs'' then Javascript (sa_model assets)
      else Not_found)"

definition http_get ::
  "scrubber_assets \<Rightarrow> (event \<Rightarrow> string) \<Rightarrow> (string \<Rightarrow> string) \<Rightarrow> ('s, 't, 'j) ctx \<Rightarrow> (string + event) list
     \<Rightarrow> string \<Rightarrow> ('s, 't, 'j) live option \<Rightarrow> (page \<times> ('s, 't, 'j) live option) option" where
  "http_get assets to_string overflow_json cx received path coordinator =
     (if path = ''/events'' then Some (sse_events to_string overflow_json received, coordinator)
      else if path = ''/health'' \<or> path = ''/manifest/status'' then http_status cx coordinator
      else Some (static_scrubber assets path, coordinator))"

text \<open>
  The HTTP surface observes: a request is answered and leaves the session as it was; the status it
  reports is the coordinator's.
\<close>

theorem http_observes:
  "\<exists>r. http_get assets to_string overflow_json cx received path (Some l) = Some (r, Some l)
    \<and> (path \<in> {''/health'', ''/manifest/status''} \<longrightarrow> r = Status_json (status_of (lv_core l)))"
  by (auto simp: http_get_def http_status_def handle_status_def send_def core_moved_def arrivals_notify_def)

section \<open>Both ends of the control socket\<close>

text \<open>
  A socket whose other end is the daemon: the line written is handled as one connection, and a
  connection that fails is closed without an answer.
\<close>

definition wire ::
  "('s, 't, 'j) ctx \<Rightarrow> (core_error \<Rightarrow> string) \<Rightarrow> (request \<Rightarrow> string) \<Rightarrow> (string \<Rightarrow> string + request)
     \<Rightarrow> (response \<Rightarrow> string) \<Rightarrow> (string \<Rightarrow> string + response) \<Rightarrow> (('s, 't, 'j) live \<times> string) client_env" where
  "wire cx show_error write_request read_request write_response read_response =
     \<lparr>ce_connect = (\<lambda>w. (Inr (), w)),
      ce_write = (\<lambda>request (l, line). (Inr (), l, write_request request)),
      ce_read_line = (\<lambda>(l, line).
        case handle_connection cx show_error read_request line l of
          None \<Rightarrow> (Inl ''no answer'', l, line)
        | Some (Inl m, l) \<Rightarrow> (Inr [], l, line)
        | Some (Inr response, l) \<Rightarrow> (Inr (write_response response), l, line)),
      ce_parse = read_response\<rparr>"

text \<open>
  C34: A client is told what the session did: for every reachable live session and every request,
  when the JSON encodings of the request and of its response can be read back, the daemon answers, the
  session has moved by steps of its step relation, and the client returns exactly the data the
  session replied with, or the session's error.
\<close>

theorem client_told_the_reply:
  assumes "audit_ok (aa_state acc)" and "initialize cx config sink acc arrivals w = Inr s0"
    and "live_steps cx (live_start now s0) l"
    and "read_request (write_request request) = Inr request"
    and "\<forall>result l'. dispatch cx request l = Some (result, l') \<longrightarrow>
      read_response (write_response (respond show_error result)) = Inr (respond show_error result)"
  shows "\<exists>result l'. dispatch cx request l = Some (result, l') \<and> live_steps cx (live_start now s0) l'
    \<and> client_exchange (wire cx show_error write_request read_request write_response read_response) path request
        (l, line) = ((case result of Inl e \<Rightarrow> Inl (show_error e) | Inr data \<Rightarrow> Inr (Some data)), l', write_request request)"
proof -
  obtain baseline where b: "reachable cx s0 [start_event cx config baseline]"
    by (rule initialize_reachable [OF assms(1,2)])
  have "coord_ok (lv_core l)"
    using live_steps_timer [OF assms(3) reachable_inv(1) [OF b]] by simp
  then obtain r l' where r: "request_reply cx request l = Some (r, l')"
    using request_reply_total by (metis surj_pair)
  then have s: "live_steps cx (live_start now s0) l'"
    using assms(3) request_reply_steps rtranclp_trans by metis
  have d: "dispatch cx request l = Some (reply_data r, l')" using r by (simp add: dispatch_def)
  then have h: "handle_connection cx show_error read_request (write_request request) l
      = Some (Inr (respond show_error (reply_data r)), l')"
    by (simp add: handle_connection_def assms(4))
  have "client_result (respond show_error (reply_data r))
      = (case reply_data r of Inl e \<Rightarrow> Inl (show_error e) | Inr data \<Rightarrow> Inr (Some data))"
    by (simp add: client_result_def respond_def split: sum.splits)
  then show ?thesis using d s h assms(5) [rule_format, OF d] by (simp add: client_exchange_def wire_def)
qed

text \<open>
  A flush of the demo session; the encodings know this request and this response.
\<close>

definition demo_response :: response where
  "demo_response = respond (\<lambda>e. ''error'') (fst (the (dispatch demo_cx Req_flush demo_armed)))"

definition demo_wire :: "((bool list \<times> event list, nat, nat) live \<times> string) client_env" where
  "demo_wire = wire demo_cx (\<lambda>e. ''error'') (\<lambda>r. ''flush'') (\<lambda>s. Inr Req_flush) (\<lambda>r. ''done'')
     (\<lambda>s. Inr demo_response)"

lemma demo_flush_succeeds:
  "case dispatch demo_cx Req_flush demo_armed of Some (Inr (Data_status st), l) \<Rightarrow> \<not> st_pending_snapshot st | _ \<Rightarrow> False"
  by code_simp

theorem client_told_the_reply_witness:
  "\<exists>st l' line. client_exchange demo_wire ''/tmp/rrjj.sock'' Req_flush (demo_armed, [])
      = (Inr (Some (Data_status st)), l', line)
    \<and> live_steps demo_cx (live_start 0 (demo_start [])) l'"
proof -
  obtain st l1 where d: "dispatch demo_cx Req_flush demo_armed = Some (Inr (Data_status st), l1)"
    using demo_flush_succeeds by (auto split: option.split_asm sum.split_asm response_data.split_asm)
      (metis response_data.exhaust)
  have read: "\<forall>result l'. dispatch demo_cx Req_flush demo_armed = Some (result, l') \<longrightarrow>
      Inr demo_response = Inr (respond (\<lambda>e. ''error'') result)"
    by (auto simp: demo_response_def)
  note told = client_told_the_reply [where request = Req_flush and show_error = "\<lambda>e. ''error''"
      and write_request = "\<lambda>r. ''flush''" and read_request = "\<lambda>s. Inr Req_flush"
      and write_response = "\<lambda>r. ''done''" and read_response = "\<lambda>s. Inr demo_response"
      and path = "''/tmp/rrjj.sock''" and line = "[]",
      OF demo_accumulator demo_init demo_armed_steps refl, OF read]
  show ?thesis using told d by (auto simp: demo_wire_def)
qed

end
