(* ===== verification/Wire_Format.thy ===== *)
theory Wire_Format
  imports Schema_Json Reader Control_Cli
begin

text \<open>
  The documents that leave the program: the lines of an event stream and the requests on the control
  socket (\<open>Request\<close> of \<open>crates/rrjj/src/main.rs\<close>). What is left to \<open>serde_json\<close> is the text:
  \<open>show_json\<close> and \<open>parse_json\<close>, of which \<open>json_text_ok\<close> states what is relied on for a document. The
  theories of the sinks and of the reader are about an arbitrary encoding of events; here it is the
  schema's.
\<close>

section \<open>Lines of events\<close>

text \<open>
  The compact text of an object is UTF-8 without line breaks, starts with an opening and ends with
  a closing brace, and is parsed to the document it is the text of.
\<close>

definition json_text_ok :: "(bytes \<Rightarrow> string + json_value) \<Rightarrow> bytes \<Rightarrow> json_value \<Rightarrow> bool" where
  "json_text_ok parse_json text j \<longleftrightarrow>
     utf8_valid text \<and> newline \<notin> set text \<and> text \<noteq> [] \<and> hd text = CHR 0x7B \<and> last text = CHR 0x7D
     \<and> parse_json text = Inr j"

text \<open>\<open>serde_json::to_vec\<close> of an event and \<open>serde_json::from_slice\<close> to one.\<close>

definition event_to_vec :: "(json_value \<Rightarrow> bytes) \<Rightarrow> event \<Rightarrow> string + bytes" where
  "event_to_vec show_json e = Inr (show_json (event_json e))"

definition event_from_slice :: "(bytes \<Rightarrow> string + json_value) \<Rightarrow> bytes \<Rightarrow> string + event" where
  "event_from_slice parse_json bs =
     (case parse_json bs of
        Inl m \<Rightarrow> Inl m
      | Inr j \<Rightarrow> (case event_of_json j of None \<Rightarrow> Inl ''invalid event'' | Some e \<Rightarrow> Inr e))"

lemma json_text_codec:
  assumes "json_text_ok parse_json (text_of e) j" and "says j e" and "body_ok (ev_body e)"
  shows "text_codec_ok (\<lambda>e. Inr (text_of e)) (event_from_slice parse_json) e"
  using assms
  by (simp add: text_codec_ok_def codec_ok_def event_from_slice_def json_text_ok_def says_read)

text \<open>
  The encoding of the sinks and of the reader in the rest of the development, for the schema's.
\<close>

lemma event_codec:
  assumes "json_text_ok parse_json (show_json (event_json e)) (event_json e)" and "body_ok (ev_body e)"
  shows "text_codec_ok (event_to_vec show_json) (event_from_slice parse_json) e"
  using json_text_codec [of parse_json "\<lambda>e. show_json (event_json e)" e] assms
  by (simp add: event_to_vec_def [abs_def])

text \<open>
  C38: An event stream is read back: where each line has a document that says of its event what the
  schema writes of it, among fields that the schema does not know, the reader and the journal's own
  parser read exactly the events, relying on \<open>serde_json\<close> for the texts alone. The lines that the
  journal writes are of this kind, and so are those of a later producer that added fields.
\<close>

theorem json_stream_read_back:
  assumes "\<forall>e \<in> set es. json_text_ok parse_json (text_of e) (document_of e) \<and> says (document_of e) e
      \<and> body_ok (ev_body e)"
    and "stream_ok sid SCHEMA_VERSION es"
  shows "timeline_read (event_from_slice parse_json)
           \<lparr>fc_bytes = event_lines (\<lambda>e. Inr (text_of e)) es, fc_error = None\<rparr> = Inr es
    \<and> parse_event_spool (event_from_slice parse_json) (event_lines (\<lambda>e. Inr (text_of e)) es) path sid
        SCHEMA_VERSION name = Inr es"
proof -
  have "list_all (text_codec_ok (\<lambda>e. Inr (text_of e)) (event_from_slice parse_json)) es"
    using assms(1) json_text_codec by (auto simp: list_all_iff)
  then show ?thesis
    using timeline_read_written [OF _ assms(2)] parse_event_spool_lines [OF text_codec_list assms(2)] by blast
qed

text \<open>An event with a field in its envelope and one in its data that the schema does not know.\<close>

definition future_document :: "event \<Rightarrow> json_value" where
  "future_document e =
     (case body_data (ev_body e) of
        Json_object ds \<Rightarrow>
          Json_object ((''future_envelope'', Json_bool True)
            # event_fields e (Json_object (ds @ [(''future'', Json_bool True)])))
      | j \<Rightarrow> j)"

theorem json_stream_read_back_witness:
  "timeline_read (event_from_slice (\<lambda>text. Inr (future_document (demo_event 0))))
      \<lparr>fc_bytes = event_lines (\<lambda>e. Inr demo_line) [demo_event 0], fc_error = None\<rparr> = Inr [demo_event 0]
    \<and> parse_event_spool (event_from_slice (\<lambda>text. Inr (future_document (demo_event 0))))
        (event_lines (\<lambda>e. Inr demo_line) [demo_event 0]) ''/s'' ''s'' SCHEMA_VERSION ''x'' = Inr [demo_event 0]"
proof (rule json_stream_read_back)
  have "says (future_document (demo_event 0)) (demo_event 0)" by code_simp
  then show "\<forall>e \<in> set [demo_event 0].
      json_text_ok (\<lambda>text. Inr (future_document (demo_event 0))) demo_line (future_document e)
      \<and> says (future_document e) e \<and> body_ok (ev_body e)"
    using demo_line_valid by (simp add: json_text_ok_def demo_line_def demo_event_def meta_ok_def map_from_def)
  show "stream_ok ''s'' SCHEMA_VERSION [demo_event 0]" by (rule demo_event_stream)
qed

text \<open>
  The version of an event is looked at after its fields: a line of another version whose event is
  of a type the schema does not have is refused as invalid, not for its version.
\<close>

lemma unknown_type_refused:
  assumes "body_of_json name data = None" and "field ''type'' fs = Some (Some (Json_string name))"
    and "field ''data'' fs = Some (Some data)"
  shows "event_of_json (Json_object fs) = None"
  using assms by (auto simp: event_of_json_def required_def)

section \<open>Control requests\<close>

text \<open>\<open>#[serde(tag = "command", rename_all = "snake_case")]\<close>.\<close>

fun request_json :: "request \<Rightarrow> json_value" where
  "request_json Req_status = Json_object [(''command'', Json_string ''status'')]"
| "request_json Req_snap = Json_object [(''command'', Json_string ''snap'')]"
| "request_json (Req_mark label meta) = Json_object
     [(''command'', Json_string ''mark''), (''label'', Json_string label), (''meta'', Json_object meta)]"
| "request_json Req_flush = Json_object [(''command'', Json_string ''flush'')]"
| "request_json Req_pause = Json_object [(''command'', Json_string ''pause'')]"
| "request_json Req_resume = Json_object [(''command'', Json_string ''resume'')]"

definition request_of_json :: "json_value \<Rightarrow> request option" where
  "request_of_json j = do {
     fs \<leftarrow> fields_of j;
     name \<leftarrow> required string_of ''command'' fs;
     (if name = ''status'' then Some Req_status
      else if name = ''snap'' then Some Req_snap
      else if name = ''mark'' then do {
        label \<leftarrow> required string_of ''label'' fs;
        meta \<leftarrow> required map_of_json ''meta'' fs;
        Some (Req_mark label meta) }
      else if name = ''flush'' then Some Req_flush
      else if name = ''pause'' then Some Req_pause
      else if name = ''resume'' then Some Req_resume
      else None) }"

fun request_ok :: "request \<Rightarrow> bool" where
  "request_ok (Req_mark label meta) = meta_ok meta"
| "request_ok _ = True"

theorem request_read: "request_ok r \<Longrightarrow> request_of_json (request_json r) = Some r"
  by (cases r) (simp_all add: request_of_json_def required_def map_of_json_def meta_ok_def del: canonical.simps)

end
