(* ===== verification/Harness_Fs.thy ===== *)
theory Harness_Fs
  imports Sink_Util
begin

text \<open>
  The file system calls of the scale harness (\<open>bench/jj-scale/src/main.rs\<close>): a tree of files
  below a root directory, the calls of \<open>std::fs\<close> on it, and the two walks over it,
  \<open>count_files\<close> and \<open>directory_size\<close>. Every call consumes one entry of a fault script, as the
  writers of the sinks do.
\<close>

section \<open>Trees of files\<close>

datatype tree_node =
    Node_file bytes
  | Node_dir "(string \<times> tree_node) list"
  | Node_other u64

text \<open>A path is the list of its names below the root.\<close>

fun node_in :: "tree_node \<Rightarrow> string list \<Rightarrow> tree_node option" where
  "node_in t [] = Some t"
| "node_in (Node_dir es) (n # ns) = (case map_of es n of None \<Rightarrow> None | Some t \<Rightarrow> node_in t ns)"
| "node_in t (n # ns) = None"

definition file_in :: "tree_node \<Rightarrow> string list \<Rightarrow> bytes option" where
  "file_in t p = (case node_in t p of Some (Node_file b) \<Rightarrow> Some b | _ \<Rightarrow> None)"

text \<open>
  ENOENT, ENOTDIR, EISDIR and EEXIST (Linux), and EINVAL for what the harness never does with an
  entry that is no regular file.
\<close>

definition enoent :: io_error where "enoent = Os_error 2"
definition enotdir :: io_error where "enotdir = Os_error 20"
definition eisdir :: io_error where "eisdir = Os_error 21"
definition eexist :: io_error where "eexist = Os_error 17"
definition einval :: io_error where "einval = Os_error 22"

text \<open>A change of the entry at a path: the directory above it must exist.\<close>

fun change_at ::
  "(tree_node option \<Rightarrow> io_error + tree_node option) \<Rightarrow> string list \<Rightarrow> tree_node \<Rightarrow> io_error + tree_node" where
  "change_at f [] t = Inl eisdir"
| "change_at f [n] (Node_dir es) =
     (case f (map_of es n) of
        Inl e \<Rightarrow> Inl e
      | Inr None \<Rightarrow> Inr (Node_dir (drop_entry n es))
      | Inr (Some t) \<Rightarrow> Inr (Node_dir (put_entry n t es)))"
| "change_at f (n # m # ns) (Node_dir es) =
     (case map_of es n of
        None \<Rightarrow> Inl enoent
      | Some t \<Rightarrow>
          (case change_at f (m # ns) t of
             Inl e \<Rightarrow> Inl e
           | Inr t \<Rightarrow> Inr (Node_dir (put_entry n t es))))"
| "change_at f (n # ns) t = Inl enotdir"

definition put_file :: "bytes \<Rightarrow> tree_node option \<Rightarrow> io_error + tree_node option" where
  "put_file b entry = (case entry of Some (Node_dir es) \<Rightarrow> Inl eisdir | _ \<Rightarrow> Inr (Some (Node_file b)))"

definition unlink :: "tree_node option \<Rightarrow> io_error + tree_node option" where
  "unlink entry = (case entry of None \<Rightarrow> Inl enoent | Some (Node_dir es) \<Rightarrow> Inl eisdir | Some t \<Rightarrow> Inr None)"

definition make_dir :: "tree_node option \<Rightarrow> io_error + tree_node option" where
  "make_dir entry = (case entry of None \<Rightarrow> Inr (Some (Node_dir [])) | Some t \<Rightarrow> Inl eexist)"

text \<open>A directory that is there is no error for \<open>create_dir_all\<close>.\<close>

definition ensure_dir :: "tree_node option \<Rightarrow> io_error + tree_node option" where
  "ensure_dir entry =
     (case entry of
        None \<Rightarrow> Inr (Some (Node_dir []))
      | Some (Node_dir es) \<Rightarrow> Inr entry
      | Some t \<Rightarrow> Inl eexist)"

section \<open>Calls\<close>

record harness_disk =
  hd_tree :: tree_node
  hd_faults :: "io_fault list"

type_synonym 'a harness_call = "(harness_disk, io_error, 'a) op"

definition fs_fault :: "harness_disk \<Rightarrow> io_fault \<times> harness_disk" where
  "fs_fault d = (case hd_faults d of [] \<Rightarrow> (None, d) | f # fs \<Rightarrow> (f, d\<lparr>hd_faults := fs\<rparr>))"

definition fs_change :: "(tree_node \<Rightarrow> io_error + tree_node) \<Rightarrow> unit harness_call" where
  "fs_change f d0 =
     (case fs_fault d0 of
        (Some (e, n), d) \<Rightarrow> (Inl e, d)
      | (None, d) \<Rightarrow>
          (case f (hd_tree d) of Inl e \<Rightarrow> (Inl e, d) | Inr t \<Rightarrow> (Inr (), d\<lparr>hd_tree := t\<rparr>)))"

text \<open>\<open>fs::write\<close>: the file is created or truncated, then written; a fault leaves a part of it.\<close>

definition fs_fill :: "string list \<Rightarrow> bytes \<Rightarrow> unit harness_call" where
  "fs_fill p b d0 =
     (case fs_fault d0 of
        (Some (e, n), d) \<Rightarrow>
          (Inl e, d\<lparr>hd_tree := (case change_at (put_file (take n b)) p (hd_tree d) of
             Inl _ \<Rightarrow> hd_tree d | Inr t \<Rightarrow> t)\<rparr>)
      | (None, d) \<Rightarrow>
          (case change_at (put_file b) p (hd_tree d) of
             Inl e \<Rightarrow> (Inl e, d) | Inr t \<Rightarrow> (Inr (), d\<lparr>hd_tree := t\<rparr>)))"

definition fs_write :: "string list \<Rightarrow> bytes \<Rightarrow> unit harness_call" where
  "fs_write p b = bindE (fs_change (change_at (put_file []) p)) (\<lambda>_. fs_fill p b)"

definition fs_remove_file :: "string list \<Rightarrow> unit harness_call" where
  "fs_remove_file p = fs_change (change_at unlink p)"

text \<open>\<open>fs::create_dir\<close> and \<open>fs::create_dir_all\<close>.\<close>

definition fs_create_dir :: "string list \<Rightarrow> unit harness_call" where
  "fs_create_dir p = fs_change (change_at make_dir p)"

fun ensure_dirs :: "string list \<Rightarrow> string list \<Rightarrow> tree_node \<Rightarrow> io_error + tree_node" where
  "ensure_dirs done [] t = Inr t"
| "ensure_dirs done (n # ns) t =
     (case change_at ensure_dir (done @ [n]) t of
        Inl e \<Rightarrow> Inl e
      | Inr t \<Rightarrow> ensure_dirs (done @ [n]) ns t)"

definition fs_create_dir_all :: "string list \<Rightarrow> unit harness_call" where
  "fs_create_dir_all p = fs_change (ensure_dirs [] p)"

text \<open>\<open>fs::rename\<close> of a regular file (the harness renames nothing else).\<close>

definition rename_file :: "string list \<Rightarrow> string list \<Rightarrow> tree_node \<Rightarrow> io_error + tree_node" where
  "rename_file source destination t =
     (case file_in t source of
        None \<Rightarrow> Inl enoent
      | Some b \<Rightarrow>
          (case change_at (put_file b) destination t of
             Inl e \<Rightarrow> Inl e
           | Inr t' \<Rightarrow> if source = destination then Inr t' else change_at unlink source t'))"

definition fs_rename :: "string list \<Rightarrow> string list \<Rightarrow> unit harness_call" where
  "fs_rename source destination = fs_change (rename_file source destination)"

definition fs_read :: "string list \<Rightarrow> bytes harness_call" where
  "fs_read p d0 =
     (case fs_fault d0 of
        (Some (e, n), d) \<Rightarrow> (Inl e, d)
      | (None, d) \<Rightarrow>
          (case node_in (hd_tree d) p of
             None \<Rightarrow> (Inl enoent, d)
           | Some (Node_file b) \<Rightarrow> (Inr b, d)
           | Some (Node_dir es) \<Rightarrow> (Inl eisdir, d)
           | Some (Node_other n) \<Rightarrow> (Inl einval, d)))"
section \<open>The entries a call changes\<close>

text \<open>What stands at a path, without what is below it.\<close>

datatype node_kind = Is_file bytes | Is_dir | Is_other u64

primrec kind_of :: "tree_node \<Rightarrow> node_kind" where
  "kind_of (Node_file b) = Is_file b"
| "kind_of (Node_dir es) = Is_dir"
| "kind_of (Node_other n) = Is_other n"

definition entries :: "tree_node \<Rightarrow> string list \<Rightarrow> node_kind option" where
  "entries t p = map_option kind_of (node_in t p)"

lemma entries_Nil [simp]: "entries t [] = Some (kind_of t)"
  by (simp add: entries_def)

lemma entries_Cons:
  "entries t (n # ns) =
     (case t of Node_dir es \<Rightarrow> (case map_of es n of None \<Rightarrow> None | Some t \<Rightarrow> entries t ns) | _ \<Rightarrow> None)"
  by (cases t) (simp_all add: entries_def split: option.splits)

lemma file_in_entries: "file_in t p = (case entries t p of Some (Is_file b) \<Rightarrow> Some b | _ \<Rightarrow> None)"
  by (auto simp: file_in_def entries_def split: option.splits tree_node.splits)

lemma node_in_append: "node_in t (p @ q) = (case node_in t p of None \<Rightarrow> None | Some n \<Rightarrow> node_in n q)"
  by (induction t p rule: node_in.induct) (auto split: option.splits)

lemma entries_append: "entries t (p @ q) = (case node_in t p of None \<Rightarrow> None | Some n \<Rightarrow> entries n q)"
  by (simp add: entries_def node_in_append split: option.splits)

lemma entries_below:
  assumes "entries t p \<noteq> Some Is_dir" and "q \<noteq> []"
  shows "entries t (p @ q) = None"
proof (cases "node_in t p")
  case (Some n)
  then have "kind_of n \<noteq> Is_dir" using assms(1) by (simp add: entries_def)
  then show ?thesis using Some assms(2) by (cases q; cases n) (simp_all add: entries_append entries_Cons)
qed (simp add: entries_append)

lemma entries_parent: "entries t (p @ [n]) = Some x \<Longrightarrow> entries t p = Some Is_dir"
  using entries_below [of t p "[n]"] by (cases "entries t p = Some Is_dir") simp_all

text \<open>The entries after a change, below the path and elsewhere.\<close>

definition replaced :: "string list \<Rightarrow> tree_node option \<Rightarrow> tree_node \<Rightarrow> string list \<Rightarrow> node_kind option" where
  "replaced p x t q =
     (if prefix p q then (case x of None \<Rightarrow> None | Some n \<Rightarrow> entries n (drop (length p) q)) else entries t q)"

lemma change_at_entries:
  assumes "change_at f p t = Inr t'"
  shows "\<exists>x. f (node_in t p) = Inr x \<and> p \<noteq> [] \<and> entries t' = replaced p x t"
  using assms
proof (induction f p t arbitrary: t' rule: change_at.induct)
  case (2 f n es)
  then obtain x where x: "f (map_of es n) = Inr x" by (auto split: sum.splits)
  have "entries t' q = replaced [n] x (Node_dir es) q" for q
    using 2 x by (cases q; cases x) (auto simp: replaced_def entries_Cons)
  then show ?case using x by (auto split: option.splits)
next
  case (3 f n m ns es)
  then obtain t1 t2 where t: "map_of es n = Some t1" "change_at f (m # ns) t1 = Inr t2"
    "t' = Node_dir (put_entry n t2 es)"
    by (auto split: option.splits sum.splits)
  from "3.IH" [OF t(1,2)] obtain x where x: "f (node_in t1 (m # ns)) = Inr x"
    "entries t2 = replaced (m # ns) x t1" by blast
  have "entries t' q = replaced (n # m # ns) x (Node_dir es) q" for q
    using t x(2) by (cases q; cases x) (auto simp: replaced_def entries_Cons)
  then show ?case using x(1) t(1) by auto
qed simp_all

lemma change_at_succeeds:
  assumes "entries t p = Some Is_dir" and "f (node_in t (p @ [n])) = Inr x"
  shows "\<exists>t'. change_at f (p @ [n]) t = Inr t'"
  using assms
proof (induction p arbitrary: t)
  case Nil
  then show ?case by (cases t; cases x) (simp_all split: option.splits)
next
  case (Cons m p)
  then obtain es t1 where t: "t = Node_dir es" "map_of es m = Some t1" "entries t1 p = Some Is_dir"
    by (auto simp: entries_Cons split: tree_node.splits option.splits)
  then obtain t2 where "change_at f (p @ [n]) t1 = Inr t2" using Cons by auto
  then show ?case using t by (cases p) simp_all
qed
text \<open>The calls of the harness as updates of the entries.\<close>

lemma leaf_below [simp]:
  "r \<noteq> [] \<Longrightarrow> entries (Node_file b) r = None"
  "r \<noteq> [] \<Longrightarrow> entries (Node_dir []) r = None"
  by (cases r; simp add: entries_Cons)+

lemma replaced_leaf:
  assumes "entries t p \<noteq> Some Is_dir" and "\<forall>r. r \<noteq> [] \<longrightarrow> entries n r = None"
  shows "replaced p (Some n) t = (entries t)(p \<mapsto> kind_of n)"
proof
  fix q
  show "replaced p (Some n) t q = ((entries t)(p \<mapsto> kind_of n)) q"
  proof (cases "prefix p q")
    case True
    then obtain r where r: "q = p @ r" by (auto simp: prefix_def)
    then show ?thesis using assms entries_below [OF assms(1)] by (cases "r = []") (simp_all add: replaced_def)
  qed (auto simp: replaced_def)
qed

lemma replaced_none:
  assumes "entries t p \<noteq> Some Is_dir"
  shows "replaced p None t = (entries t)(p := None)"
proof
  fix q
  show "replaced p None t q = ((entries t)(p := None)) q"
  proof (cases "prefix p q")
    case True
    then obtain r where r: "q = p @ r" by (auto simp: prefix_def)
    then show ?thesis using entries_below [OF assms] by (cases "r = []") (simp_all add: replaced_def)
  qed (auto simp: replaced_def)
qed

lemma replaced_same: "node_in t p = Some n \<Longrightarrow> replaced p (Some n) t = entries t"
  by (auto simp: replaced_def prefix_def fun_eq_iff entries_append)

lemma put_file_entries:
  assumes "change_at (put_file b) p t = Inr t'"
  shows "p \<noteq> [] \<and> entries t p \<noteq> Some Is_dir \<and> entries t' = (entries t)(p \<mapsto> Is_file b)"
proof -
  from change_at_entries [OF assms] obtain x where
    x: "put_file b (node_in t p) = Inr x" "p \<noteq> []" "entries t' = replaced p x t" by blast
  then have "x = Some (Node_file b)" "entries t p \<noteq> Some Is_dir"
    by (auto simp: put_file_def entries_def split: option.splits tree_node.splits)
  then show ?thesis using x replaced_leaf [of t p "Node_file b"] by simp
qed

lemma unlink_entries:
  assumes "change_at unlink p t = Inr t'"
  shows "entries t p \<noteq> Some Is_dir \<and> entries t p \<noteq> None \<and> entries t' = (entries t)(p := None)"
proof -
  from change_at_entries [OF assms] obtain x where
    x: "unlink (node_in t p) = Inr x" "entries t' = replaced p x t" by blast
  then have "x = None" "entries t p \<noteq> Some Is_dir" "entries t p \<noteq> None"
    by (auto simp: unlink_def entries_def split: option.splits tree_node.splits)
  then show ?thesis using x replaced_none by simp
qed

lemma make_dir_entries:
  assumes "change_at make_dir p t = Inr t'"
  shows "entries t p = None \<and> entries t' = (entries t)(p \<mapsto> Is_dir)"
proof -
  from change_at_entries [OF assms] obtain x where
    x: "make_dir (node_in t p) = Inr x" "entries t' = replaced p x t" by blast
  then have "x = Some (Node_dir [])" "entries t p = None"
    by (auto simp: make_dir_def entries_def split: option.splits)
  then show ?thesis using x replaced_leaf [of t p "Node_dir []"] by simp
qed

lemma ensure_dir_entries:
  assumes "change_at ensure_dir p t = Inr t'"
  shows "(entries t p = None \<or> entries t p = Some Is_dir) \<and> entries t' = (entries t)(p \<mapsto> Is_dir)"
proof -
  from change_at_entries [OF assms] obtain x where
    x: "ensure_dir (node_in t p) = Inr x" "entries t' = replaced p x t" by blast
  show ?thesis
  proof (cases "node_in t p")
    case None
    then show ?thesis
      using x replaced_leaf [of t p "Node_dir []"]
      by (auto simp: ensure_dir_def entries_def [of t p])
  next
    case (Some n)
    then obtain es where n: "n = Node_dir es" "x = Some n"
      using x(1) by (auto simp: ensure_dir_def split: tree_node.splits)
    then have "entries t p = Some Is_dir" using Some by (simp add: entries_def)
    then show ?thesis using x(2) n(2) replaced_same [OF Some] by (simp add: fun_upd_idem)
  qed
qed

lemma put_file_succeeds:
  "entries t p = Some Is_dir \<Longrightarrow> entries t (p @ [n]) \<noteq> Some Is_dir \<Longrightarrow>
     \<exists>t'. change_at (put_file b) (p @ [n]) t = Inr t'"
  by (rule change_at_succeeds)
    (auto simp: put_file_def entries_def split: option.splits tree_node.splits)

lemma unlink_succeeds:
  assumes "entries t (p @ [n]) = Some (Is_file b)"
  shows "\<exists>t'. change_at unlink (p @ [n]) t = Inr t'"
proof (rule change_at_succeeds)
  show "entries t p = Some Is_dir" by (rule entries_parent [OF assms])
  from assms obtain z where "node_in t (p @ [n]) = Some z" "kind_of z = Is_file b"
    by (auto simp: entries_def)
  then show "unlink (node_in t (p @ [n])) = Inr None" by (cases z) (simp_all add: unlink_def)
qed

lemma ensure_dir_succeeds:
  "entries t p = Some Is_dir \<Longrightarrow> entries t (p @ [n]) \<in> {None, Some Is_dir} \<Longrightarrow>
     \<exists>t'. change_at ensure_dir (p @ [n]) t = Inr t'"
  by (cases "node_in t (p @ [n])"; rule change_at_succeeds)
    (auto simp: ensure_dir_def entries_def split: option.splits tree_node.splits)
lemma strict_Nil_iff: "strict_prefix [] q \<longleftrightarrow> q \<noteq> []"
  by (cases q) simp_all

lemma ensure_dirs_entries:
  assumes "ensure_dirs done ns t = Inr t'"
  shows "entries t' = (\<lambda>q. if strict_prefix done q \<and> prefix q (done @ ns) then Some Is_dir else entries t q)
    \<and> (\<forall>q. strict_prefix done q \<and> prefix q (done @ ns) \<longrightarrow> entries t q \<in> {None, Some Is_dir})"
  using assms
proof (induction "done" ns t rule: ensure_dirs.induct)
  case (1 "done" t)
  then show ?case by (auto simp: fun_eq_iff)
next
  case (2 "done" n ns t)
  then obtain t1 where t1: "change_at ensure_dir (done @ [n]) t = Inr t1"
    "ensure_dirs (done @ [n]) ns t1 = Inr t'"
    by (auto split: sum.splits)
  note c = ensure_dir_entries [OF t1(1)]
  have step: "strict_prefix done q \<and> prefix q (done @ n # ns) \<longleftrightarrow>
      q = done @ [n] \<or> strict_prefix (done @ [n]) q \<and> prefix q ((done @ [n]) @ ns)" for q
    by (auto simp: strict_prefix_def prefix_def Cons_eq_append_conv)
  note ih = "2.IH" [OF t1]
  have "entries t q \<in> {None, Some Is_dir}"
    if "q = done @ [n] \<or> strict_prefix (done @ [n]) q \<and> prefix q ((done @ [n]) @ ns)" for q
  proof (cases "q = done @ [n]")
    case False
    then have "entries t1 q \<in> {None, Some Is_dir}" "entries t1 q = entries t q" using that ih c by auto
    then show ?thesis by simp
  qed (use c in auto)
  then show ?case using ih c unfolding step by (auto simp: fun_eq_iff)
qed

lemma ensure_dirs_succeeds:
  assumes "entries t done = Some Is_dir"
    and "\<forall>q. strict_prefix done q \<and> prefix q (done @ ns) \<longrightarrow> entries t q \<in> {None, Some Is_dir}"
  shows "\<exists>t'. ensure_dirs done ns t = Inr t'"
  using assms
proof (induction "done" ns t rule: ensure_dirs.induct)
  case (2 "done" n ns t)
  have "entries t (done @ [n]) \<in> {None, Some Is_dir}"
    using "2.prems"(2) by (simp add: strict_prefix_def)
  then obtain t1 where t1: "change_at ensure_dir (done @ [n]) t = Inr t1"
    using ensure_dir_succeeds [OF "2.prems"(1)] by blast
  note c = ensure_dir_entries [OF t1]
  have "entries t1 q \<in> {None, Some Is_dir}"
    if "strict_prefix (done @ [n]) q" "prefix q ((done @ [n]) @ ns)" for q
  proof -
    from that have "strict_prefix done q" "prefix q (done @ n # ns)"
      by (auto simp: strict_prefix_def prefix_def)
    then show ?thesis using "2.prems"(2) c by auto
  qed
  then obtain t' where "ensure_dirs (done @ [n]) ns t1 = Inr t'" using "2.IH" [OF t1] c by auto
  then show ?case using t1 by simp
qed simp

section \<open>Calls that succeed, and calls that must\<close>

lemma fs_change_ok:
  "fs_change f d = (Inr u, d') \<Longrightarrow> f (hd_tree d) = Inr (hd_tree d') \<and> (hd_faults d = [] \<longrightarrow> hd_faults d' = [])"
  by (auto simp: fs_change_def fs_fault_def split: list.splits option.splits sum.splits)

lemma fs_change_succeeds:
  "hd_faults d = [] \<Longrightarrow> f (hd_tree d) = Inr t \<Longrightarrow> fs_change f d = (Inr (), d\<lparr>hd_tree := t\<rparr>)"
  by (simp add: fs_change_def fs_fault_def)

lemma fs_write_ok:
  assumes "fs_write p b d = (Inr u, d')"
  shows "p \<noteq> [] \<and> entries (hd_tree d) p \<noteq> Some Is_dir
    \<and> entries (hd_tree d') = (entries (hd_tree d))(p \<mapsto> Is_file b)"
proof -
  from assms obtain v d1 where d1: "fs_change (change_at (put_file []) p) d = (Inr v, d1)"
    "fs_fill p b d1 = (Inr u, d')"
    unfolding fs_write_def by (rule bindE_InrE)
  have e1: "change_at (put_file []) p (hd_tree d) = Inr (hd_tree d1)" using fs_change_ok [OF d1(1)] by blast
  have e2: "change_at (put_file b) p (hd_tree d1) = Inr (hd_tree d')"
    using d1(2) by (auto simp: fs_fill_def fs_fault_def split: list.splits option.splits sum.splits)
  show ?thesis using put_file_entries [OF e1] put_file_entries [OF e2] by simp
qed

lemma fs_write_succeeds:
  assumes "hd_faults d = []" and "entries (hd_tree d) p = Some Is_dir"
    and "entries (hd_tree d) (p @ [n]) \<noteq> Some Is_dir"
  shows "\<exists>d'. fs_write (p @ [n]) b d = (Inr (), d') \<and> hd_faults d' = []"
proof -
  obtain t1 where t1: "change_at (put_file []) (p @ [n]) (hd_tree d) = Inr t1"
    using put_file_succeeds [OF assms(2,3)] by blast
  note e1 = put_file_entries [OF t1]
  then obtain t2 where t2: "change_at (put_file b) (p @ [n]) t1 = Inr t2"
    using put_file_succeeds [of t1 p n b] assms(2) by auto
  then show ?thesis
    using assms(1) fs_change_succeeds [where f = "change_at (put_file []) (p @ [n])", OF assms(1) t1]
    by (simp add: fs_write_def bindE_def fs_fill_def fs_fault_def)
qed

lemma fs_remove_file_ok:
  "fs_remove_file p d = (Inr u, d') \<Longrightarrow>
     entries (hd_tree d) p \<noteq> Some Is_dir \<and> entries (hd_tree d') = (entries (hd_tree d))(p := None)"
  unfolding fs_remove_file_def using fs_change_ok unlink_entries by blast

lemma fs_remove_file_succeeds:
  assumes "hd_faults d = []" and "entries (hd_tree d) (p @ [n]) = Some (Is_file b)"
  shows "\<exists>d'. fs_remove_file (p @ [n]) d = (Inr (), d') \<and> hd_faults d' = []"
  using unlink_succeeds [OF assms(2)] fs_change_succeeds [OF assms(1)] assms(1)
  by (fastforce simp: fs_remove_file_def)

lemma fs_create_dir_all_ok:
  assumes "fs_create_dir_all p d = (Inr u, d')"
  shows "entries (hd_tree d') = (\<lambda>q. if q \<noteq> [] \<and> prefix q p then Some Is_dir else entries (hd_tree d) q)
    \<and> (\<forall>q. q \<noteq> [] \<and> prefix q p \<longrightarrow> entries (hd_tree d) q \<in> {None, Some Is_dir})"
proof -
  have "ensure_dirs [] p (hd_tree d) = Inr (hd_tree d')"
    using fs_change_ok assms unfolding fs_create_dir_all_def by blast
  from ensure_dirs_entries [OF this] show ?thesis unfolding strict_Nil_iff append_Nil by blast
qed

lemma fs_create_dir_all_succeeds:
  assumes "hd_faults d = []" and "entries (hd_tree d) [] = Some Is_dir"
    and "\<forall>q. q \<noteq> [] \<and> prefix q p \<longrightarrow> entries (hd_tree d) q \<in> {None, Some Is_dir}"
  shows "\<exists>d'. fs_create_dir_all p d = (Inr (), d') \<and> hd_faults d' = []"
proof -
  obtain t' where "ensure_dirs [] p (hd_tree d) = Inr t'"
    using ensure_dirs_succeeds [OF assms(2), of p] assms(3) unfolding strict_Nil_iff append_Nil by blast
  then show ?thesis using fs_change_succeeds [OF assms(1)] assms(1) by (fastforce simp: fs_create_dir_all_def)
qed

lemma fs_rename_ok:
  assumes "fs_rename p q d = (Inr u, d')" and "p \<noteq> q"
  shows "\<exists>b. file_in (hd_tree d) p = Some b \<and> entries (hd_tree d) q \<noteq> Some Is_dir
    \<and> entries (hd_tree d') = (entries (hd_tree d))(q \<mapsto> Is_file b, p := None)"
proof -
  have "rename_file p q (hd_tree d) = Inr (hd_tree d')"
    using fs_change_ok assms(1) unfolding fs_rename_def by blast
  then obtain b t1 where t: "file_in (hd_tree d) p = Some b"
    "change_at (put_file b) q (hd_tree d) = Inr t1" "change_at unlink p t1 = Inr (hd_tree d')"
    using assms(2) by (auto simp: rename_file_def split: option.splits sum.splits)
  then show ?thesis using put_file_entries [OF t(2)] unlink_entries [OF t(3)] by auto
qed

lemma fs_rename_succeeds:
  assumes "hd_faults d = []" and "entries (hd_tree d) (p @ [n]) = Some (Is_file b)"
    and "entries (hd_tree d) q = Some Is_dir" and "entries (hd_tree d) (q @ [m]) \<noteq> Some Is_dir"
    and "p @ [n] \<noteq> q @ [m]"
  shows "\<exists>d'. fs_rename (p @ [n]) (q @ [m]) d = (Inr (), d') \<and> hd_faults d' = []"
proof -
  have b: "file_in (hd_tree d) (p @ [n]) = Some b" using assms(2) by (simp add: file_in_entries)
  obtain t1 where t1: "change_at (put_file b) (q @ [m]) (hd_tree d) = Inr t1"
    using put_file_succeeds [OF assms(3,4)] by blast
  have "entries t1 (p @ [n]) = Some (Is_file b)"
    using put_file_entries [OF t1] assms(2) by simp
  then obtain t2 where "change_at unlink (p @ [n]) t1 = Inr t2" using unlink_succeeds by blast
  moreover have "(p @ [n] = q @ [m]) = False" using assms(5) by blast
  ultimately have "rename_file (p @ [n]) (q @ [m]) (hd_tree d) = Inr t2"
    by (simp only: rename_file_def b t1 option.case sum.case if_False)
  then show ?thesis using fs_change_succeeds [OF assms(1)] assms(1) by (fastforce simp: fs_rename_def)
qed

end
