(* ===== verification/Harness_Walk.thy ===== *)
theory Harness_Walk
  imports Harness_Fs Recorder
begin

text \<open>
  The walks of the scale harness over a directory: \<open>count_files\<close>, \<open>directory_size\<close> and
  \<open>verify_tree_matches_filesystem\<close>. A walk keeps the directories it has still to read on a
  stack; each is kept with the node its path leads to, since nothing changes the tree meanwhile.
\<close>

datatype harness_error =
    Io_failed io_error
  | In_context string io_error
  | Check_failed string

text \<open>\<open>?\<close> on a call, and \<open>with_context\<close>.\<close>

definition tried :: "'a harness_call \<Rightarrow> (harness_disk, harness_error, 'a) op" where
  "tried m d = (case m d of (Inl e, d) \<Rightarrow> (Inl (Io_failed e), d) | (Inr x, d) \<Rightarrow> (Inr x, d))"

definition in_context :: "string \<Rightarrow> 'a harness_call \<Rightarrow> (harness_disk, harness_error, 'a) op" where
  "in_context message m d =
     (case m d of (Inl e, d) \<Rightarrow> (Inl (In_context message e), d) | (Inr x, d) \<Rightarrow> (Inr x, d))"

text \<open>A call that only reads: it may fail, and changes nothing.\<close>

definition fs_look :: "(io_error + 'a) \<Rightarrow> 'a harness_call" where
  "fs_look r d0 = (case fs_fault d0 of (Some (e, n), d) \<Rightarrow> (Inl e, d) | (None, d) \<Rightarrow> (r, d))"

definition list_dir :: "tree_node \<Rightarrow> (string \<times> tree_node) list harness_call" where
  "list_dir t = fs_look (case t of Node_dir es \<Rightarrow> Inr es | _ \<Rightarrow> Inl enotdir)"

section \<open>Counting the files\<close>

fun scan_count ::
  "string list \<Rightarrow> (string \<times> tree_node) list \<Rightarrow> (string list \<times> tree_node) list \<Rightarrow> nat
     \<Rightarrow> (harness_disk, harness_error, (string list \<times> tree_node) list \<times> nat) op" where
  "scan_count dir [] pending count = Pair (Inr (pending, count))"
| "scan_count dir ((name, t) # es) pending count =
     bindE (tried (fs_look (Inr ()))) (\<lambda>_.
     bindE (tried (fs_look (Inr ()))) (\<lambda>_.
       case t of
         Node_dir _ \<Rightarrow> scan_count dir es ((dir @ [name], t) # pending) count
       | Node_file _ \<Rightarrow> scan_count dir es pending (count + 1)
       | Node_other _ \<Rightarrow>
           Pair (Inl (Check_failed (''unsupported filesystem entry '' @ join_with ''/'' (dir @ [name]))))))"

fun weight :: "tree_node \<Rightarrow> nat" where
  "weight (Node_dir es) = Suc (sum_list (map (\<lambda>(n, t). weight t) es))"
| "weight t = 1"

definition pending_weight :: "(string list \<times> tree_node) list \<Rightarrow> nat" where
  "pending_weight pending = sum_list (map (\<lambda>(p, t). weight t) pending)"

lemma tried_ok: "tried m d = (Inr x, d') \<longleftrightarrow> m d = (Inr x, d')"
  by (auto simp: tried_def split: prod.splits sum.splits)

lemma fs_look_ok:
  "fs_look r d = (Inr x, d') \<Longrightarrow> r = Inr x \<and> hd_tree d' = hd_tree d \<and> (hd_faults d = [] \<longrightarrow> d' = d)"
  by (auto simp: fs_look_def fs_fault_def split: list.splits option.splits)

lemma fs_look_no_faults: "hd_faults d = [] \<Longrightarrow> fs_look r d = (r, d)"
  by (simp add: fs_look_def fs_fault_def)

lemma list_dir_ok: "list_dir t d = (Inr es, d') \<Longrightarrow> t = Node_dir es \<and> hd_tree d' = hd_tree d"
  unfolding list_dir_def by (drule fs_look_ok) (auto split: tree_node.splits)

definition subdirs :: "string list \<Rightarrow> (string \<times> tree_node) list \<Rightarrow> (string list \<times> tree_node) list" where
  "subdirs dir es = map (\<lambda>(n, t). (dir @ [n], t)) (filter (\<lambda>(n, t). kind_of t = Is_dir) es)"

definition is_regular :: "tree_node \<Rightarrow> bool" where
  "is_regular t = (case t of Node_file b \<Rightarrow> True | _ \<Rightarrow> False)"

definition is_special :: "tree_node \<Rightarrow> bool" where
  "is_special t = (case t of Node_other n \<Rightarrow> True | _ \<Rightarrow> False)"

lemma scan_count_ok:
  assumes "scan_count dir es pending count d = (Inr (pending', count'), d')"
  shows "hd_tree d' = hd_tree d \<and> (\<forall>(n, t) \<in> set es. \<not> is_special t)
    \<and> count' = count + length (filter (\<lambda>(n, t). is_regular t) es)
    \<and> pending' = rev (subdirs dir es) @ pending"
  using assms
proof (induction es arbitrary: pending count d)
  case (Cons e es)
  obtain n t where e: "e = (n, t)" by (rule prod.exhaust)
  from Cons.prems obtain u d1 v d2 where
    d1: "fs_look (Inr ()) d = (Inr u, d1)" "fs_look (Inr ()) d1 = (Inr v, d2)"
    and rest: "(case t of
         Node_dir _ \<Rightarrow> scan_count dir es ((dir @ [n], t) # pending) count
       | Node_file _ \<Rightarrow> scan_count dir es pending (count + 1)
       | Node_other _ \<Rightarrow>
           Pair (Inl (Check_failed (''unsupported filesystem entry '' @ join_with ''/'' (dir @ [n])))))
       d2 = (Inr (pending', count'), d')"
    by (auto simp: e tried_ok elim!: bindE_InrE)
  have "hd_tree d2 = hd_tree d" using d1 by (auto dest!: fs_look_ok)
  then show ?case
    using rest
    by (cases t) (auto simp: e subdirs_def is_special_def is_regular_def dest!: Cons.IH)
qed (simp add: subdirs_def)

lemma subdirs_weight: "pending_weight (subdirs dir es) \<le> sum_list (map (\<lambda>(n, t). weight t) es)"
  by (induction es) (auto simp: pending_weight_def subdirs_def)

lemma pending_weight_append [simp]:
  "pending_weight (xs @ ys) = pending_weight xs + pending_weight ys"
  "pending_weight (rev xs) = pending_weight xs"
  by (simp_all add: pending_weight_def rev_map [symmetric])

function count_walk ::
  "(string list \<times> tree_node) list \<Rightarrow> nat \<Rightarrow> (harness_disk, harness_error, nat) op" where
  "count_walk [] count d = (Inr count, d)"
| "count_walk ((dir, t) # pending) count d =
     (case tried (list_dir t) d of
        (Inl e, d) \<Rightarrow> (Inl e, d)
      | (Inr es, d) \<Rightarrow>
          (case scan_count dir es pending count d of
             (Inl e, d) \<Rightarrow> (Inl e, d)
           | (Inr (pending, count), d) \<Rightarrow> count_walk pending count d))"
  by pat_completeness auto

lemma scan_smaller:
  assumes "tried (list_dir t) d = (Inr es, d1)" and "pending' = rev (subdirs dir es) @ pending"
  shows "pending_weight pending' < pending_weight ((p, t) # pending)"
proof -
  have "t = Node_dir es" using assms(1) list_dir_ok by (simp add: tried_ok)
  then show ?thesis using assms(2) subdirs_weight [of dir es] by (simp add: pending_weight_def [of "_ # _"])
      (simp add: pending_weight_def)
qed

termination count_walk
proof (relation "measure (\<lambda>(pending, count, d). pending_weight pending)")
  fix dir t pending count d r d1 es r2 d2 x pending' count'
  assume "(r, d1) = tried (list_dir t) d" "r = Inr es"
    and "(r2, d2) = scan_count dir es pending count d1" "r2 = Inr x" "(pending', count') = x"
  then show "((pending', count', d2), (dir, t) # pending, count, d)
      \<in> measure (\<lambda>(pending, count, d). pending_weight pending)"
    using scan_smaller [of t d es d1 pending' dir pending dir] scan_count_ok [of dir es pending count d1 pending' count' d2]
    by simp
qed simp

definition count_files :: "(harness_disk, harness_error, nat) op" where
  "count_files d = count_walk [([], hd_tree d)] 0 d"
section \<open>The files of a tree\<close>

fun file_paths :: "tree_node \<Rightarrow> string list list" where
  "file_paths (Node_file b) = [[]]"
| "file_paths (Node_dir es) = concat (map (\<lambda>(n, t). map ((#) n) (file_paths t)) es)"
| "file_paths (Node_other n) = []"

text \<open>Trees without special files, and trees in which the names of a directory differ.\<close>

fun plain_tree :: "tree_node \<Rightarrow> bool" where
  "plain_tree (Node_dir es) = list_all (\<lambda>(n, t). plain_tree t) es"
| "plain_tree t = (\<not> is_special t)"

fun wf_tree :: "tree_node \<Rightarrow> bool" where
  "wf_tree (Node_dir es) = (distinct (map fst es) \<and> list_all (\<lambda>(n, t). wf_tree t) es)"
| "wf_tree t = True"

lemma file_in_Nil: "file_in t [] = (case t of Node_file b \<Rightarrow> Some b | _ \<Rightarrow> None)"
  by (simp add: file_in_def)

lemma file_in_Cons: "file_in t (n # p) =
    (case t of Node_dir es \<Rightarrow> (case map_of es n of None \<Rightarrow> None | Some t \<Rightarrow> file_in t p) | _ \<Rightarrow> None)"
  by (cases t) (simp_all add: file_in_def split: option.splits)

lemma set_file_paths: "wf_tree t \<Longrightarrow> set (file_paths t) = {p. file_in t p \<noteq> None}"
proof (induction t rule: file_paths.induct)
  case (1 b)
  have "file_in (Node_file b) p \<noteq> None \<longleftrightarrow> p = []" for p
    by (cases p) (simp_all add: file_in_Nil file_in_Cons)
  then show ?case by auto
next
  case (2 es)
  have ih: "set (file_paths t) = {p. file_in t p \<noteq> None}" if "(n, t) \<in> set es" for n t
    using 2 that by (fastforce simp: list_all_iff)
  have "p \<in> set (file_paths (Node_dir es)) \<longleftrightarrow> file_in (Node_dir es) p \<noteq> None" for p
  proof (cases p)
    case Nil
    then show ?thesis by (auto simp: file_in_Nil)
  next
    case (Cons n q)
    have "p \<in> set (file_paths (Node_dir es)) \<longleftrightarrow> (\<exists>t. (n, t) \<in> set es \<and> q \<in> set (file_paths t))"
      using Cons by auto
    also have "\<dots> \<longleftrightarrow> (\<exists>t. map_of es n = Some t \<and> file_in t q \<noteq> None)"
      using ih 2(2) by (auto simp: map_of_eq_Some_iff)
    finally show ?thesis by (simp add: Cons file_in_Cons split: option.splits)
  qed
  then show ?case by blast
next
  case (3 n)
  have "file_in (Node_other n) p = None" for p by (cases p) (simp_all add: file_in_Nil file_in_Cons)
  then show ?case by simp
qed

lemma distinct_file_paths: "wf_tree t \<Longrightarrow> distinct (file_paths t)"
proof (induction t rule: file_paths.induct)
  case (2 es)
  have d: "distinct (file_paths t)" if "(n, t) \<in> set es" for n t
    using 2 that by (fastforce simp: list_all_iff)
  have "distinct (map fst es)" using 2(2) by simp
  then show ?case
    using d
  proof (induction es)
    case (Cons e es)
    obtain n t where e: "e = (n, t)" by (rule prod.exhaust)
    have "distinct (map ((#) n) (file_paths t))"
      using Cons.prems(2) [of n t] e by (simp add: distinct_map)
    moreover have "distinct (file_paths (Node_dir es))"
      by (rule Cons.IH) (use Cons.prems in auto)
    moreover have "n \<notin> fst ` set es" using Cons.prems(1) e by simp
    ultimately show ?case using e by (auto simp: image_iff)
  qed simp
qed simp_all

lemma length_file_paths_dir:
  "length (file_paths (Node_dir es)) =
     length (filter (\<lambda>(n, t). is_regular t) es)
       + sum_list (map (\<lambda>(p, t). length (file_paths t)) (subdirs dir es))"
proof (induction es)
  case (Cons e es)
  obtain n t where "e = (n, t)" by (rule prod.exhaust)
  then show ?case using Cons by (cases t) (simp_all add: subdirs_def is_regular_def del: file_paths.simps(2), simp_all)
qed (simp add: subdirs_def)

lemma plain_dir:
  "plain_tree (Node_dir es) \<longleftrightarrow>
     (\<forall>(n, t) \<in> set es. \<not> is_special t) \<and> (\<forall>(p, t) \<in> set (subdirs dir es). plain_tree t)"
proof -
  have "plain_tree t \<longleftrightarrow> \<not> is_special t \<and> (kind_of t = Is_dir \<longrightarrow> plain_tree t)" for t
    by (cases t) (simp_all add: is_special_def)
  then show ?thesis by (fastforce simp: list_all_iff subdirs_def)
qed
section \<open>The result of the walk\<close>

lemma count_walk_ok:
  assumes "count_walk pending count d = (Inr n, d')"
  shows "hd_tree d' = hd_tree d
    \<and> (\<forall>(p, t) \<in> set pending. kind_of t = Is_dir \<and> plain_tree t)
    \<and> n = count + sum_list (map (\<lambda>(p, t). length (file_paths t)) pending)"
  using assms
proof (induction pending count d rule: count_walk.induct)
  case (2 dir t pending count d)
  from "2.prems" obtain es d1 pending' count' d2 where
    l: "tried (list_dir t) d = (Inr es, d1)"
      "scan_count dir es pending count d1 = (Inr (pending', count'), d2)"
      "count_walk pending' count' d2 = (Inr n, d')"
    by (auto split: prod.splits sum.splits)
  have t: "t = Node_dir es" "hd_tree d1 = hd_tree d" using l(1) list_dir_ok by (auto simp: tried_ok)
  note s = scan_count_ok [OF l(2)]
  note ih = "2.IH" [OF l(1) [symmetric] refl l(2) [symmetric] refl refl l(3)]
  have "plain_tree (Node_dir es)"
    unfolding plain_dir [of es dir] using s ih by auto
  moreover have "n = count + sum_list (map (\<lambda>(p, t). length (file_paths t)) ((dir, Node_dir es) # pending))"
    using s ih unfolding list.map sum_list.Cons prod.case length_file_paths_dir [of es dir]
    by (simp add: rev_map [symmetric])
  moreover have "\<forall>(p, t) \<in> set pending. kind_of t = Is_dir \<and> plain_tree t"
    using s ih by simp
  ultimately show ?case using s ih t by simp
qed simp

lemma scan_count_no_faults:
  assumes "hd_faults d = []" and "\<forall>(n, t) \<in> set es. \<not> is_special t"
  shows "\<exists>x. scan_count dir es pending count d = (Inr x, d)"
  using assms(2)
proof (induction es arbitrary: pending count)
  case (Cons e es)
  obtain n t where "e = (n, t)" by (rule prod.exhaust)
  then show ?case
    using Cons
    by (cases t) (simp_all add: bindE_def tried_def is_special_def fs_look_no_faults [OF assms(1)])
qed simp

lemma count_walk_no_faults:
  assumes "hd_faults d = []" and "\<forall>(p, t) \<in> set pending. kind_of t = Is_dir \<and> plain_tree t"
  shows "\<exists>n. count_walk pending count d = (Inr n, d)"
  using assms
proof (induction pending count d rule: count_walk.induct)
  case (2 dir t pending count d)
  then obtain es where t: "t = Node_dir es" by (cases t) auto
  have l: "tried (list_dir t) d = (Inr es, d)"
    by (simp add: tried_def list_dir_def t fs_look_no_faults [OF "2.prems"(1)])
  have p: "\<forall>(n, t) \<in> set es. \<not> is_special t" "\<forall>(p, t) \<in> set (subdirs dir es). plain_tree t"
    using "2.prems"(2) t plain_dir [of es dir] by auto
  obtain pending' count' where s: "scan_count dir es pending count d = (Inr (pending', count'), d)"
    using scan_count_no_faults [OF "2.prems"(1) p(1)] by (metis surj_pair)
  have "\<forall>(p, t) \<in> set (subdirs dir es). kind_of t = Is_dir" by (auto simp: subdirs_def)
  then have "\<forall>(p, t) \<in> set pending'. kind_of t = Is_dir \<and> plain_tree t"
    using scan_count_ok [OF s] p(2) "2.prems"(2) by auto
  then show ?case
    using "2.IH" [OF l [symmetric] refl s [symmetric] refl refl "2.prems"(1)] l s by simp
qed simp

text \<open>
  C35: Counting files: for every tree of a directory whose names differ, the count of the walk is the
  number of paths that lead to a regular file; without I/O errors the walk ends with that number
  exactly when the tree holds nothing but directories and regular files, and with an error
  otherwise.
\<close>

theorem count_files_exact:
  assumes "wf_tree (hd_tree d)" and "count_files d = (r, d')"
  shows "(\<forall>n. r = Inr n \<longrightarrow> hd_tree d' = hd_tree d \<and> n = card {p. file_in (hd_tree d) p \<noteq> None})
    \<and> (hd_faults d = [] \<longrightarrow>
        (\<exists>n. r = Inr n) = (kind_of (hd_tree d) = Is_dir \<and> plain_tree (hd_tree d)))"
proof (intro conjI allI impI)
  fix n assume "r = Inr n"
  then have w: "count_walk [([], hd_tree d)] 0 d = (Inr n, d')" using assms(2) by (simp add: count_files_def)
  have "card {p. file_in (hd_tree d) p \<noteq> None} = length (file_paths (hd_tree d))"
    using set_file_paths [OF assms(1)] distinct_file_paths [OF assms(1)] distinct_card by metis
  then show "hd_tree d' = hd_tree d" "n = card {p. file_in (hd_tree d) p \<noteq> None}"
    using count_walk_ok [OF w] by simp_all
next
  assume nf: "hd_faults d = []"
  show "(\<exists>n. r = Inr n) = (kind_of (hd_tree d) = Is_dir \<and> plain_tree (hd_tree d))"
  proof
    assume "\<exists>n. r = Inr n"
    then obtain n where "count_walk [([], hd_tree d)] 0 d = (Inr n, d')"
      using assms(2) by (auto simp: count_files_def)
    from count_walk_ok [OF this] show "kind_of (hd_tree d) = Is_dir \<and> plain_tree (hd_tree d)" by simp
  next
    assume "kind_of (hd_tree d) = Is_dir \<and> plain_tree (hd_tree d)"
    then obtain n where "count_walk [([], hd_tree d)] 0 d = (Inr n, d)"
      using count_walk_no_faults [OF nf, of "[([], hd_tree d)]" 0] by auto
    then show "\<exists>n. r = Inr n" using assms(2) unfolding count_files_def by auto
  qed
qed
section \<open>The size of a directory\<close>

definition node_length :: "tree_node \<Rightarrow> u64" where
  "node_length t = (case t of Node_file b \<Rightarrow> word_of_nat (length b) | Node_dir es \<Rightarrow> 0 | Node_other n \<Rightarrow> n)"

fun scan_size ::
  "string list \<Rightarrow> (string \<times> tree_node) list \<Rightarrow> (string list \<times> tree_node) list \<Rightarrow> u64
     \<Rightarrow> (harness_disk, harness_error, (string list \<times> tree_node) list \<times> u64) op" where
  "scan_size dir [] pending bytes = Pair (Inr (pending, bytes))"
| "scan_size dir ((name, t) # es) pending bytes =
     bindE (tried (fs_look (Inr ()))) (\<lambda>_.
     bindE (tried (fs_look (Inr ()))) (\<lambda>_.
       if kind_of t = Is_dir then scan_size dir es ((dir @ [name], t) # pending) bytes
       else
         bindE (tried (fs_look (Inr (node_length t)))) (\<lambda>len.
           scan_size dir es pending (bytes + len))))"

lemma scan_size_ok:
  assumes "scan_size dir es pending bytes d = (Inr (pending', bytes'), d')"
  shows "hd_tree d' = hd_tree d
    \<and> bytes' = bytes + sum_list (map (\<lambda>(n, t). node_length t) es)
    \<and> pending' = rev (subdirs dir es) @ pending"
  using assms
proof (induction es arbitrary: pending bytes d)
  case (Cons e es)
  obtain n t where e: "e = (n, t)" by (rule prod.exhaust)
  from Cons.prems obtain u d1 v d2 where
    d1: "fs_look (Inr ()) d = (Inr u, d1)" "fs_look (Inr ()) d1 = (Inr v, d2)"
    and rest: "(if kind_of t = Is_dir then scan_size dir es ((dir @ [n], t) # pending) bytes
       else bindE (tried (fs_look (Inr (node_length t)))) (\<lambda>len. scan_size dir es pending (bytes + len)))
       d2 = (Inr (pending', bytes'), d')"
    by (auto simp: e tried_ok elim!: bindE_InrE)
  have d2: "hd_tree d2 = hd_tree d" using d1 by (auto dest!: fs_look_ok)
  show ?case
  proof (cases "kind_of t = Is_dir")
    case True
    then have "node_length t = 0" by (cases t) (simp_all add: node_length_def)
    then show ?thesis using True Cons.IH [of _ _ d2] rest d2 by (auto simp: e subdirs_def)
  next
    case False
    then obtain len d3 where "fs_look (Inr (node_length t)) d2 = (Inr len, d3)"
      "scan_size dir es pending (bytes + len) d3 = (Inr (pending', bytes'), d')"
      using rest by (auto simp: tried_ok elim!: bindE_InrE)
    then show ?thesis
      using False d2 Cons.IH fs_look_ok by (fastforce simp: e subdirs_def add.assoc)
  qed
qed (simp add: subdirs_def)

function size_walk ::
  "(string list \<times> tree_node) list \<Rightarrow> u64 \<Rightarrow> (harness_disk, harness_error, u64) op" where
  "size_walk [] bytes d = (Inr bytes, d)"
| "size_walk ((dir, t) # pending) bytes d =
     (case tried (list_dir t) d of
        (Inl e, d) \<Rightarrow> (Inl e, d)
      | (Inr es, d) \<Rightarrow>
          (case scan_size dir es pending bytes d of
             (Inl e, d) \<Rightarrow> (Inl e, d)
           | (Inr (pending, bytes), d) \<Rightarrow> size_walk pending bytes d))"
  by pat_completeness auto

termination size_walk
proof (relation "measure (\<lambda>(pending, bytes, d). pending_weight pending)")
  fix dir t pending bytes d r d1 es r2 d2 x pending' bytes'
  assume "(r, d1) = tried (list_dir t) d" "r = Inr es"
    and "(r2, d2) = scan_size dir es pending bytes d1" "r2 = Inr x" "(pending', bytes') = x"
  then show "((pending', bytes', d2), (dir, t) # pending, bytes, d)
      \<in> measure (\<lambda>(pending, bytes, d). pending_weight pending)"
    using scan_smaller [of t d es d1 pending' dir pending dir] scan_size_ok [of dir es pending bytes d1 pending' bytes' d2]
    by simp
qed simp

definition directory_size :: "(harness_disk, harness_error, u64) op" where
  "directory_size d = size_walk [([], hd_tree d)] 0 d"

section \<open>Verifying a tree against the files\<close>

text \<open>
  The entries of a jj tree: a path with its merged value (\<open>as_resolved\<close>), which may be an error. Reading a stored
  file is a call of the store; the disk is read by \<open>fs::read\<close>.
\<close>

definition verify_entry ::
  "(string list \<Rightarrow> string \<Rightarrow> string + bytes) \<Rightarrow> string list \<Rightarrow> string + merged_value
     \<Rightarrow> (harness_disk, harness_error, nat) op" where
  "verify_entry read_stored p value =
     (case value of
        Inl m \<Rightarrow> Pair (Inl (Check_failed m))
      | Inr None \<Rightarrow> Pair (Inl (Check_failed (''conflicted tree value at '' @ join_with ''/'' p)))
      | Inr (Some None) \<Rightarrow> Pair (Inl (Check_failed (''absent tree value emitted at '' @ join_with ''/'' p)))
      | Inr (Some (Some (File ident exec))) \<Rightarrow>
          bindE (in_context (''read '' @ join_with ''/'' p) (fs_read p)) (\<lambda>disk_bytes.
            (case read_stored p ident of
               Inl m \<Rightarrow> Pair (Inl (Check_failed m))
             | Inr stored \<Rightarrow>
                 if disk_bytes = stored then Pair (Inr (length disk_bytes))
                 else Pair (Inl (Check_failed (''content mismatch for '' @ join_with ''/'' p)))))
      | Inr (Some (Some v)) \<Rightarrow> Pair (Inl (Check_failed (''non-file tree value at '' @ join_with ''/'' p))))"

fun verify_entries ::
  "(string list \<Rightarrow> string \<Rightarrow> string + bytes) \<Rightarrow> (string list \<times> (string + merged_value)) list \<Rightarrow> nat \<Rightarrow> u64
     \<Rightarrow> (harness_disk, harness_error, nat \<times> u64) op" where
  "verify_entries read_stored [] count bytes = Pair (Inr (count, bytes))"
| "verify_entries read_stored ((p, value) # tree_entries) count bytes =
     bindE (verify_entry read_stored p value) (\<lambda>n.
       verify_entries read_stored tree_entries (count + 1) (bytes + word_of_nat n))"

definition verify_tree ::
  "(string list \<Rightarrow> string \<Rightarrow> string + bytes) \<Rightarrow> (string list \<times> (string + merged_value)) list
     \<Rightarrow> (harness_disk, harness_error, nat \<times> u64) op" where
  "verify_tree read_stored tree_entries =
     bindE count_files (\<lambda>filesystem_count.
     bindE (verify_entries read_stored tree_entries 0 0) (\<lambda>(tree_count, bytes).
       if tree_count = filesystem_count then Pair (Inr (tree_count, bytes))
       else Pair (Inl (Check_failed (''tree has '' @ show_nat tree_count @ '' files but filesystem has ''
         @ show_nat filesystem_count)))))"
lemma verify_entry_ok:
  assumes "verify_entry read_stored p value d = (Inr n, d')"
  shows "hd_tree d' = hd_tree d
    \<and> (\<exists>ident exec b. value = Inr (Some (Some (File ident exec))) \<and> read_stored p ident = Inr b
         \<and> file_in (hd_tree d) p = Some b \<and> n = length b)"
proof -
  from assms obtain ident exec where v: "value = Inr (Some (Some (File ident exec)))"
    by (auto simp: verify_entry_def split: sum.splits option.splits tree_value.splits)
  with assms obtain b d1 where b: "fs_read p d = (Inr b, d1)" "read_stored p ident = Inr b" "n = length b" "d' = d1"
    by (auto simp: verify_entry_def in_context_def bindE_def split: sum.splits prod.splits if_splits)
  then show ?thesis
    using v by (auto simp: fs_read_def fs_fault_def file_in_def
        split: list.splits option.splits tree_node.splits)
qed

definition stored_file ::
  "(string list \<Rightarrow> string \<Rightarrow> string + bytes) \<Rightarrow> string list \<times> (string + merged_value) \<Rightarrow> (string list \<times> bytes) option" where
  "stored_file read_stored entry =
     (case snd entry of
        Inr (Some (Some (File ident exec))) \<Rightarrow>
          (case read_stored (fst entry) ident of Inr b \<Rightarrow> Some (fst entry, b) | Inl m \<Rightarrow> None)
      | _ \<Rightarrow> None)"

lemma verify_entries_ok:
  assumes "verify_entries read_stored es count bytes d = (Inr (n, sum_bytes), d')"
  shows "hd_tree d' = hd_tree d \<and> n = count + length es
    \<and> (\<forall>e \<in> set es. \<exists>b. stored_file read_stored e = Some (fst e, b) \<and> file_in (hd_tree d) (fst e) = Some b)
    \<and> sum_bytes = bytes + sum_list (map (\<lambda>e. word_of_nat (length (the (file_in (hd_tree d) (fst e))))) es)"
  using assms
proof (induction es arbitrary: count bytes d)
  case (Cons e es)
  obtain p v where e: "e = (p, v)" by (rule prod.exhaust)
  from Cons.prems obtain k d1 where k: "verify_entry read_stored p v d = (Inr k, d1)"
    "verify_entries read_stored es (count + 1) (bytes + word_of_nat k) d1 = (Inr (n, sum_bytes), d')"
    by (auto simp: e elim!: bindE_InrE)
  note ok = verify_entry_ok [OF k(1)]
  show ?case using Cons.IH [OF k(2)] ok by (auto simp: e stored_file_def add.assoc)
qed simp

lemma verified_tree_kept:
  assumes "verify_tree read_stored tree_entries d = (Inr (n, sum_bytes), d')"
  shows "hd_tree d' = hd_tree d"
proof -
  from assms obtain k d1 where "count_files d = (Inr k, d1)"
    "verify_entries read_stored tree_entries 0 0 d1 = (Inr (n, sum_bytes), d')"
    unfolding verify_tree_def by (auto elim!: bindE_InrE split: if_splits)
  then show ?thesis using verify_entries_ok count_walk_ok unfolding count_files_def by metis
qed

text \<open>
  A verified tree is the directory: when the verification succeeds on a tree whose entries have
  distinct paths, those are exactly the paths of the regular files below the root, each stored with
  the contents it has on disk, and the two numbers it reports are the number of files and the sum
  of their lengths.
\<close>

lemma verified_tree_matches:
  assumes "verify_tree read_stored tree_entries d = (Inr (n, sum_bytes), d')" and "wf_tree (hd_tree d)"
    and "distinct (map fst tree_entries)"
  shows "fst ` set tree_entries = {p. file_in (hd_tree d) p \<noteq> None}
    \<and> (\<forall>e \<in> set tree_entries. \<exists>b. stored_file read_stored e = Some (fst e, b)
         \<and> file_in (hd_tree d) (fst e) = Some b)
    \<and> n = card {p. file_in (hd_tree d) p \<noteq> None}
    \<and> sum_bytes = sum_list (map (\<lambda>e. word_of_nat (length (the (file_in (hd_tree d) (fst e))))) tree_entries)"
proof -
  from assms(1) obtain d1 where c: "count_files d = (Inr n, d1)"
    "verify_entries read_stored tree_entries 0 0 d1 = (Inr (n, sum_bytes), d')"
    unfolding verify_tree_def by (auto elim!: bindE_InrE split: if_splits)
  have w: "count_walk [([], hd_tree d)] 0 d = (Inr n, d1)" using c(1) by (simp add: count_files_def)
  have t1: "hd_tree d1 = hd_tree d" and "n = length (file_paths (hd_tree d))"
    using count_walk_ok [OF w] by simp_all
  then have n: "n = card {p. file_in (hd_tree d) p \<noteq> None}" and fin: "finite {p. file_in (hd_tree d) p \<noteq> None}"
    using set_file_paths [OF assms(2)] distinct_file_paths [OF assms(2)] distinct_card by (metis, metis finite_set)
  note v = verify_entries_ok [OF c(2), unfolded t1]
  have "card (fst ` set tree_entries) = n"
    using assms(3) v distinct_card [OF assms(3)] by simp
  moreover have "fst ` set tree_entries \<subseteq> {p. file_in (hd_tree d) p \<noteq> None}" using v by fastforce
  ultimately have "fst ` set tree_entries = {p. file_in (hd_tree d) p \<noteq> None}"
    using n fin card_subset_eq by blast
  then show ?thesis using v n by simp
qed
section \<open>A small directory\<close>

definition scale_tree :: tree_node where
  "scale_tree = Node_dir [(''a'', Node_file ''x''), (''d'', Node_dir [(''b'', Node_file ''yz'')])]"

definition scale_disk :: harness_disk where
  "scale_disk = \<lparr>hd_tree = scale_tree, hd_faults = []\<rparr>"

lemma scale_disk_fields [simp]: "hd_tree scale_disk = scale_tree" "hd_faults scale_disk = []"
  by (simp_all add: scale_disk_def)

lemma scale_tree_wf: "wf_tree scale_tree" by code_simp

theorem count_files_exact_witness:
  "\<exists>d'. count_files scale_disk = (Inr 2, d') \<and> card {p. file_in scale_tree p \<noteq> None} = 2"
proof -
  have "fst (count_files scale_disk) = Inr 2" by code_simp
  then obtain d' where c: "count_files scale_disk = (Inr 2, d')" by (metis prod.collapse)
  have "2 = card {p. file_in scale_tree p \<noteq> None}"
    using count_files_exact [OF _ c] scale_tree_wf by simp
  then show ?thesis using c by auto
qed

end
