(* ===== verification/Scale_Harness.thy ===== *)
theory Scale_Harness
  imports Harness_Walk Fs_Path
begin

text \<open>
  The scale harness (\<open>bench/jj-scale/src/main.rs\<close>): it fills an empty directory with generated
  files, has jj snapshot it, changes a known number of files, and checks that the next snapshot
  reports exactly the changes that number announces and that the final tree is the directory.
\<close>

section \<open>Arguments\<close>

record harness_args =
  ha_files :: u64
  ha_file_bytes :: u64
  ha_add :: u64
  ha_modify :: u64
  ha_remove :: u64
  ha_move_like :: u64
  ha_full_rescan :: bool

definition validate_args :: "harness_args \<Rightarrow> string + unit" where
  "validate_args args =
     (if \<not> 0 < ha_files args then Inl ''--files must be greater than zero''
      else if \<not> 0 < ha_file_bytes args then Inl ''--file-bytes must be greater than zero''
      else if \<not> ha_modify args + ha_remove args + ha_move_like args \<le> ha_files args then
        Inl ''modify + remove + move-like must not exceed baseline file count''
      else Inr ())"

section \<open>Roots\<close>

text \<open>\<open>prepare_empty_root\<close>; the file system around the roots is a parameter.\<close>

record 'w roots_env =
  ro_temporary :: "string \<Rightarrow> ('w, string, string list) op"
  ro_make_dirs :: "string list \<Rightarrow> ('w, string, unit) op"
  ro_is_empty :: "string list \<Rightarrow> 'w \<Rightarrow> string + bool"
  ro_canonicalize :: "string list \<Rightarrow> 'w \<Rightarrow> string + string list"

definition prepare_empty_root :: "'w roots_env \<Rightarrow> string list \<Rightarrow> ('w, string, string list) op" where
  "prepare_empty_root env path =
     bindE (ro_make_dirs env path) (\<lambda>_ w.
       case ro_is_empty env path w of
         Inl m \<Rightarrow> (Inl m, w)
       | Inr False \<Rightarrow> (Inl (join_with ''/'' path @ '' must be empty''), w)
       | Inr True \<Rightarrow> (Inr path, w))"

definition prepare_root ::
  "'w roots_env \<Rightarrow> string list option \<Rightarrow> string list option \<Rightarrow> ('w, string, string list) op" where
  "prepare_root env given temporary =
     (case (given, temporary) of
        (Some path, _) \<Rightarrow> prepare_empty_root env path
      | (None, Some path) \<Rightarrow> Pair (Inr path)
      | (None, None) \<Rightarrow> Pair (Inl ''unreachable''))"

definition make_temporary ::
  "'w roots_env \<Rightarrow> string \<Rightarrow> string list option \<Rightarrow> ('w, string, string list option) op" where
  "make_temporary env name given =
     (if given = None then bindE (ro_temporary env name) (\<lambda>path. Pair (Inr (Some path)))
      else Pair (Inr None))"

definition separate_roots :: "string list \<Rightarrow> string list \<Rightarrow> string + string list \<times> string list" where
  "separate_roots watched shadow =
     (if watched = shadow then Inl ''watched and shadow roots must differ''
      else if path_starts_with shadow watched then Inl ''shadow root must not be inside watched root''
      else if path_starts_with watched shadow then Inl ''watched root must not be inside shadow root''
      else Inr (watched, shadow))"

definition prepare_roots ::
  "'w roots_env \<Rightarrow> string list option \<Rightarrow> string list option \<Rightarrow> ('w, string, string list \<times> string list) op" where
  "prepare_roots env watched_root shadow_root =
     bindE (make_temporary env ''rrjj-watched-'' watched_root) (\<lambda>watched_temp.
     bindE (make_temporary env ''rrjj-shadow-'' shadow_root) (\<lambda>shadow_temp.
     bindE (prepare_root env watched_root watched_temp) (\<lambda>watched.
     bindE (prepare_root env shadow_root shadow_temp) (\<lambda>shadow w.
       case ro_canonicalize env watched w of
         Inl m \<Rightarrow> (Inl m, w)
       | Inr watched \<Rightarrow>
           (case ro_canonicalize env shadow w of
              Inl m \<Rightarrow> (Inl m, w)
            | Inr shadow \<Rightarrow> (separate_roots watched shadow, w))))))"

section \<open>Generated files\<close>

definition FILES_PER_DIRECTORY :: nat where
  "FILES_PER_DIRECTORY = 1000"

definition file_label :: "nat \<Rightarrow> string" where
  "file_label index = ''f'' @ pad_zero 12 (show_nat index) @ ''.bin''"

definition baseline_dir :: "nat \<Rightarrow> string list" where
  "baseline_dir index = [''baseline'', ''d'' @ pad_zero 8 (show_nat (index div FILES_PER_DIRECTORY))]"

definition baseline_path :: "nat \<Rightarrow> string list" where
  "baseline_path index = baseline_dir index @ [file_label index]"

definition moved_path :: "nat \<Rightarrow> string list" where
  "moved_path index = [''moved''] @ [file_label index]"

definition added_path :: "nat \<Rightarrow> string list" where
  "added_path index = [''added''] @ [file_label index]"

text \<open>\<open>prefix.bytes().cycle().take(bytes)\<close>.\<close>

definition content :: "nat \<Rightarrow> nat \<Rightarrow> nat \<Rightarrow> bytes" where
  "content index generation bytes =
     (let p = pad_zero 12 (show_nat index) @ '':'' @ show_nat generation @ '':''
      in map (\<lambda>i. p ! (i mod length p)) [0..<bytes])"

text \<open>A loop over a range of indices, stopped by the first error.\<close>

fun for_each :: "('a \<Rightarrow> ('s, 'e, unit) op) \<Rightarrow> 'a list \<Rightarrow> ('s, 'e, unit) op" where
  "for_each f [] = Pair (Inr ())"
| "for_each f (x # xs) = bindE (f x) (\<lambda>_. for_each f xs)"

definition display_path :: "string list \<Rightarrow> string" where
  "display_path p = join_with ''/'' p"

definition baseline_file :: "nat \<Rightarrow> nat \<Rightarrow> (harness_disk, harness_error, unit) op" where
  "baseline_file file_bytes index =
     bindE (if index mod FILES_PER_DIRECTORY = 0 then tried (fs_create_dir_all (baseline_dir index))
            else Pair (Inr ())) (\<lambda>_.
     in_context (''write '' @ display_path (baseline_path index))
       (fs_write (baseline_path index) (content index 0 file_bytes)))"

definition generate_baseline :: "nat \<Rightarrow> nat \<Rightarrow> (harness_disk, harness_error, unit) op" where
  "generate_baseline count file_bytes = for_each (baseline_file file_bytes) [0..<count]"

section \<open>Churn\<close>

definition modify_file :: "nat \<Rightarrow> nat \<Rightarrow> (harness_disk, harness_error, unit) op" where
  "modify_file file_bytes index =
     in_context (''modify '' @ display_path (baseline_path index))
       (fs_write (baseline_path index) (content index 1 file_bytes @ [newline]))"

definition remove_file :: "nat \<Rightarrow> (harness_disk, harness_error, unit) op" where
  "remove_file index =
     in_context (''remove '' @ display_path (baseline_path index)) (fs_remove_file (baseline_path index))"

definition move_file :: "nat \<Rightarrow> (harness_disk, harness_error, unit) op" where
  "move_file index =
     bindE (tried (fs_create_dir_all [''moved''])) (\<lambda>_.
     in_context (''move '' @ display_path (baseline_path index) @ '' to '' @ display_path (moved_path index))
       (fs_rename (baseline_path index) (moved_path index)))"

definition add_file :: "nat \<Rightarrow> nat \<Rightarrow> (harness_disk, harness_error, unit) op" where
  "add_file file_bytes index =
     bindE (if index = 0 then tried (fs_create_dir_all [''added'']) else Pair (Inr ())) (\<lambda>_.
     in_context (''add '' @ display_path (added_path index))
       (fs_write (added_path index) (content index 2 file_bytes)))"

definition apply_churn :: "harness_args \<Rightarrow> (harness_disk, harness_error, unit) op" where
  "apply_churn args =
     (let bytes = unat (ha_file_bytes args);
          removes = ha_modify args;
          moves = removes + ha_remove args in
      bindE (for_each (modify_file bytes) [0..<unat (ha_modify args)]) (\<lambda>_.
      bindE (for_each remove_file [unat removes..<unat (removes + ha_remove args)]) (\<lambda>_.
      bindE (for_each move_file [unat moves..<unat (moves + ha_move_like args)]) (\<lambda>_.
      for_each (add_file bytes) [0..<unat (ha_add args)]))))"
section \<open>The paths differ\<close>

lemma file_label_eq [simp]: "file_label i = file_label j \<longleftrightarrow> i = j"
  by (simp add: file_label_def pad_zero_show_inj)

lemma baseline_path_eq [simp]: "baseline_path i = baseline_path j \<longleftrightarrow> i = j"
  by (auto simp: baseline_path_def)

lemma moved_added_eq [simp]: "moved_path i = moved_path j \<longleftrightarrow> i = j" "added_path i = added_path j \<longleftrightarrow> i = j"
  by (auto simp: moved_path_def added_path_def)

lemma paths_differ [simp]:
  "baseline_path i \<noteq> moved_path j" "moved_path j \<noteq> baseline_path i"
  "baseline_path i \<noteq> added_path j" "added_path j \<noteq> baseline_path i"
  "moved_path i \<noteq> added_path j" "added_path j \<noteq> moved_path i"
  by (simp_all add: baseline_path_def baseline_dir_def moved_path_def added_path_def)

lemma length_content [simp]: "length (content i g n) = n"
  by (simp add: content_def Let_def)

section \<open>What the steps do to the files\<close>

lemma in_context_ok [simp]: "in_context m f d = (Inr x, d') \<longleftrightarrow> f d = (Inr x, d')"
  by (auto simp: in_context_def split: prod.splits sum.splits)

lemma file_in_upd:
  "entries t' = (entries t)(p \<mapsto> Is_file b) \<Longrightarrow> file_in t' = (file_in t)(p \<mapsto> b)"
  "entries t' = (entries t)(p := None) \<Longrightarrow> file_in t' = (file_in t)(p := None)"
  by (auto simp: fun_eq_iff file_in_entries)

lemma create_dirs_files:
  assumes "fs_create_dir_all p d = (Inr u, d')"
  shows "file_in (hd_tree d') = file_in (hd_tree d)"
proof
  fix q
  show "file_in (hd_tree d') q = file_in (hd_tree d) q"
    using fs_create_dir_all_ok [OF assms] by (cases "q \<noteq> [] \<and> prefix q p") (auto simp: file_in_entries)
qed

lemma write_files: "fs_write p b d = (Inr u, d') \<Longrightarrow> file_in (hd_tree d') = (file_in (hd_tree d))(p \<mapsto> b)"
  using fs_write_ok file_in_upd(1) by blast

lemma remove_files: "fs_remove_file p d = (Inr u, d') \<Longrightarrow> file_in (hd_tree d') = (file_in (hd_tree d))(p := None)"
  using fs_remove_file_ok file_in_upd(2) by blast

lemma rename_files:
  assumes "fs_rename p q d = (Inr u, d')" and "p \<noteq> q"
  shows "file_in (hd_tree d') = (file_in (hd_tree d))(q := file_in (hd_tree d) p, p := None)"
proof -
  obtain b where b: "file_in (hd_tree d) p = Some b"
    "entries (hd_tree d') = (entries (hd_tree d))(q \<mapsto> Is_file b, p := None)"
    using fs_rename_ok [OF assms] by blast
  then show ?thesis by (auto simp: fun_eq_iff file_in_entries)
qed

lemma step_files:
  "baseline_file n i d = (Inr u, d') \<Longrightarrow>
     file_in (hd_tree d') = (file_in (hd_tree d))(baseline_path i \<mapsto> content i 0 n)"
  "modify_file n i d = (Inr u, d') \<Longrightarrow>
     file_in (hd_tree d') = (file_in (hd_tree d))(baseline_path i \<mapsto> content i 1 n @ [newline])"
  "remove_file i d = (Inr u, d') \<Longrightarrow>
     file_in (hd_tree d') = (file_in (hd_tree d))(baseline_path i := None)"
  "move_file i d = (Inr u, d') \<Longrightarrow>
     file_in (hd_tree d') = (file_in (hd_tree d))
       (moved_path i := file_in (hd_tree d) (baseline_path i), baseline_path i := None)"
  "add_file n i d = (Inr u, d') \<Longrightarrow>
     file_in (hd_tree d') = (file_in (hd_tree d))(added_path i \<mapsto> content i 2 n)"
  by (auto simp: baseline_file_def modify_file_def remove_file_def move_file_def add_file_def tried_ok
      elim!: bindE_InrE split: if_splits dest!: create_dirs_files write_files remove_files rename_files)

lemma for_each_files:
  assumes "for_each f xs d = (Inr u, d')"
    and "\<And>x d v d'. f x d = (Inr v, d') \<Longrightarrow> file_in (hd_tree d') = g x (file_in (hd_tree d))"
  shows "file_in (hd_tree d') = fold g xs (file_in (hd_tree d))"
  using assms(1)
proof (induction xs arbitrary: d)
  case (Cons x xs)
  then obtain v d1 where "f x d = (Inr v, d1)" "for_each f xs d1 = (Inr u, d')" by (auto elim: bindE_InrE)
  then show ?case using Cons.IH assms(2) by fastforce
qed simp

text \<open>Folds of updates along paths that differ.\<close>

lemma fold_update:
  assumes "inj p"
  shows "fold (\<lambda>i m. m(p i := v i)) xs m (p j) = (if j \<in> set xs then v j else m (p j))"
    and "q \<notin> range p \<Longrightarrow> fold (\<lambda>i m. m(p i := v i)) xs m q = m q"
  using assms by (induction xs arbitrary: m) (auto simp: inj_eq)

lemma fold_move:
  assumes "inj p" and "inj r" and "\<And>i j. p i \<noteq> r j" and "distinct xs"
  shows "fold (\<lambda>i m. m(r i := m (p i), p i := None)) xs m (p j) = (if j \<in> set xs then None else m (p j))"
    and "fold (\<lambda>i m. m(r i := m (p i), p i := None)) xs m (r j) = (if j \<in> set xs then m (p j) else m (r j))"
    and "q \<notin> range p \<Longrightarrow> q \<notin> range r \<Longrightarrow> fold (\<lambda>i m. m(r i := m (p i), p i := None)) xs m q = m q"
  using assms(4)
proof (induction xs arbitrary: m)
  case (Cons x xs)
  have ne: "r j \<noteq> p i" for i j using assms(3) [of i j] by simp
  { case 1 then show ?case using Cons assms(1-3) ne by (auto simp: inj_eq)
  next case 2 then show ?case using Cons assms(1-3) ne by (auto simp: inj_eq)
  next case 3 then show ?case using Cons by auto }
qed simp_all
section \<open>What the churn changes\<close>

definition expected_diff_entries :: "harness_args \<Rightarrow> u64" where
  "expected_diff_entries args = ha_add args + ha_modify args + ha_remove args + 2 * ha_move_like args"

lemma generated_files:
  assumes "generate_baseline n k d = (Inr u, d')" and "\<forall>p. file_in (hd_tree d) p = None"
  shows "file_in (hd_tree d') (baseline_path j) = (if j < n then Some (content j 0 k) else None)"
    and "q \<notin> range baseline_path \<Longrightarrow> file_in (hd_tree d') q = None"
proof -
  have f: "file_in (hd_tree d')
      = fold (\<lambda>i m. m(baseline_path i := Some (content i 0 k))) [0..<n] (file_in (hd_tree d))"
    by (rule for_each_files [OF assms(1) [unfolded generate_baseline_def]]) (rule step_files)
  have "inj baseline_path" by (simp add: inj_def)
  note u = fold_update [OF this]
  show "file_in (hd_tree d') (baseline_path j) = (if j < n then Some (content j 0 k) else None)"
    unfolding f u(1) using assms(2) by simp
  show "q \<notin> range baseline_path \<Longrightarrow> file_in (hd_tree d') q = None"
    unfolding f using u(2) [where v = "\<lambda>i. Some (content i 0 k)"] assms(2) by simp
qed

text \<open>The files after the churn, by the kind of the path; \<open>m\<close>, \<open>r\<close>, \<open>v\<close> and \<open>a\<close> count the loops.\<close>

definition churned ::
  "nat \<Rightarrow> nat \<Rightarrow> nat \<Rightarrow> nat \<Rightarrow> nat \<Rightarrow> (string list \<Rightarrow> bytes option) \<Rightarrow> string list \<Rightarrow> bytes option" where
  "churned k m r v a f =
     fold (\<lambda>i g. g(added_path i := Some (content i 2 k))) [0..<a]
       (fold (\<lambda>i g. g(moved_path i := g (baseline_path i), baseline_path i := None)) [m + r..<m + r + v]
         (fold (\<lambda>i g. g(baseline_path i := None)) [m..<m + r]
           (fold (\<lambda>i g. g(baseline_path i := Some (content i 1 k @ [newline]))) [0..<m] f)))"

lemma churned_simps:
  "churned k m r v a f (baseline_path j) =
     (if j < m then Some (content j 1 k @ [newline]) else if j < m + r + v then None else f (baseline_path j))"
  "churned k m r v a f (moved_path j) =
     (if m + r \<le> j \<and> j < m + r + v then f (baseline_path j) else f (moved_path j))"
  "churned k m r v a f (added_path j) = (if j < a then Some (content j 2 k) else f (added_path j))"
  "q \<notin> range baseline_path \<Longrightarrow> q \<notin> range moved_path \<Longrightarrow> q \<notin> range added_path \<Longrightarrow> churned k m r v a f q = f q"
proof -
  have b: "inj baseline_path" and mv: "inj moved_path" and ad: "inj added_path" by (simp_all add: inj_def)
  have other: "baseline_path j \<notin> range added_path" "moved_path j \<notin> range added_path"
    "moved_path j \<notin> range baseline_path" "added_path j \<notin> range baseline_path" "added_path j \<notin> range moved_path" for j
    by auto
  note fm = fold_move [OF b mv _ distinct_upt]
  note s = fold_update [OF ad] fold_update [OF b] fm
  show "churned k m r v a f (baseline_path j) =
     (if j < m then Some (content j 1 k @ [newline]) else if j < m + r + v then None else f (baseline_path j))"
    unfolding churned_def by (simp add: s other)
  show "churned k m r v a f (moved_path j) =
     (if m + r \<le> j \<and> j < m + r + v then f (baseline_path j) else f (moved_path j))"
    unfolding churned_def by (simp add: s other)
  show "churned k m r v a f (added_path j) = (if j < a then Some (content j 2 k) else f (added_path j))"
    unfolding churned_def by (simp add: s other)
  show "q \<notin> range baseline_path \<Longrightarrow> q \<notin> range moved_path \<Longrightarrow> q \<notin> range added_path \<Longrightarrow> churned k m r v a f q = f q"
    unfolding churned_def by (simp add: s)
qed

lemma churn_files:
  assumes "apply_churn args d = (Inr u, d')"
    and "unat (ha_modify args) + unat (ha_remove args) + unat (ha_move_like args) < 2 ^ 64"
  shows "file_in (hd_tree d') = churned (unat (ha_file_bytes args)) (unat (ha_modify args))
     (unat (ha_remove args)) (unat (ha_move_like args)) (unat (ha_add args)) (file_in (hd_tree d))"
proof -
  have w: "unat (ha_modify args + ha_remove args) = unat (ha_modify args) + unat (ha_remove args)"
    "unat (ha_modify args + ha_remove args + ha_move_like args)
      = unat (ha_modify args) + unat (ha_remove args) + unat (ha_move_like args)"
    using assms(2) by (simp_all add: unat_word_ariths)
  from assms(1) obtain v1 d1 v2 d2 v3 d3 where l:
    "for_each (modify_file (unat (ha_file_bytes args))) [0..<unat (ha_modify args)] d = (Inr v1, d1)"
    "for_each remove_file [unat (ha_modify args)..<unat (ha_modify args) + unat (ha_remove args)] d1 = (Inr v2, d2)"
    "for_each move_file [unat (ha_modify args) + unat (ha_remove args)..<
        unat (ha_modify args) + unat (ha_remove args) + unat (ha_move_like args)] d2 = (Inr v3, d3)"
    "for_each (add_file (unat (ha_file_bytes args))) [0..<unat (ha_add args)] d3 = (Inr u, d')"
    unfolding apply_churn_def Let_def w by (auto elim!: bindE_InrE)
  let ?k = "unat (ha_file_bytes args)" and ?m = "unat (ha_modify args)" and ?r = "unat (ha_remove args)"
  have "file_in (hd_tree d1)
      = fold (\<lambda>i g. g(baseline_path i := Some (content i 1 ?k @ [newline]))) [0..<?m] (file_in (hd_tree d))"
    by (rule for_each_files [OF l(1)]) (rule step_files)
  moreover have "file_in (hd_tree d2)
      = fold (\<lambda>i g. g(baseline_path i := None)) [?m..<?m + ?r] (file_in (hd_tree d1))"
    by (rule for_each_files [OF l(2)]) (rule step_files)
  moreover have "file_in (hd_tree d3)
      = fold (\<lambda>i g. g(moved_path i := g (baseline_path i), baseline_path i := None))
          [?m + ?r..<?m + ?r + unat (ha_move_like args)] (file_in (hd_tree d2))"
    by (rule for_each_files [OF l(3)]) (rule step_files)
  moreover have "file_in (hd_tree d')
      = fold (\<lambda>i g. g(added_path i := Some (content i 2 ?k))) [0..<unat (ha_add args)] (file_in (hd_tree d3))"
    by (rule for_each_files [OF l(4)]) (rule step_files)
  ultimately show ?thesis unfolding churned_def by simp
qed

text \<open>
  The announced number of changes is the number of changed paths: when the arguments are valid, and
  the counts do not overflow, the baseline generated in a root without files and the churn applied
  to it differ at exactly \<open>add + modify + remove + 2 * move_like\<close> paths, the number the harness
  compares the diff of the snapshots with.
\<close>

lemma churn_expected:
  assumes "validate_args args = Inr ()"
    and "unat (ha_modify args) + unat (ha_remove args) + unat (ha_move_like args) < 2 ^ 64"
    and "\<forall>p. file_in (hd_tree d) p = None"
    and "generate_baseline (unat (ha_files args)) (unat (ha_file_bytes args)) d = (Inr u, d1)"
    and "apply_churn args d1 = (Inr v, d2)"
  shows "card {p. file_in (hd_tree d1) p \<noteq> file_in (hd_tree d2) p}
      = unat (ha_add args) + unat (ha_modify args) + unat (ha_remove args) + 2 * unat (ha_move_like args)
    \<and> expected_diff_entries args = word_of_nat (card {p. file_in (hd_tree d1) p \<noteq> file_in (hd_tree d2) p})"
proof -
  define m r v a where "m = unat (ha_modify args)" and "r = unat (ha_remove args)"
    and "v = unat (ha_move_like args)" and "a = unat (ha_add args)"
  let ?n = "unat (ha_files args)" and ?f = "file_in (hd_tree d1)" and ?g = "file_in (hd_tree d2)"
  have "unat (ha_modify args + ha_remove args + ha_move_like args) = m + r + v"
    using assms(2) by (simp add: unat_word_ariths m_def r_def v_def)
  then have le: "m + r + v \<le> ?n"
    using assms(1) by (auto simp: validate_args_def word_le_nat_alt not_le split: if_splits)
  note f = generated_files [OF assms(4,3)]
  have g: "?g = churned (unat (ha_file_bytes args)) m r v a ?f"
    using churn_files [OF assms(5,2)] by (simp add: m_def r_def v_def a_def)
  have new: "?f (moved_path j) = None" "?f (added_path j) = None" for j
    by (intro f(2); auto)+
  have long: "content j 1 k @ [newline] \<noteq> content j 0 k" for j k
    by (metis length_append_singleton length_content n_not_Suc_n)
  have "?f p \<noteq> ?g p \<longleftrightarrow> p \<in> baseline_path ` {0..<m + r + v} \<union> moved_path ` {m + r..<m + r + v} \<union> added_path ` {0..<a}"
    for p
  proof -
    consider (b) j where "p = baseline_path j" | (mv) j where "p = moved_path j" | (ad) j where "p = added_path j"
      | (other) "p \<notin> range baseline_path" "p \<notin> range moved_path" "p \<notin> range added_path"
      by blast
    then show ?thesis
    proof cases
      case (b j)
      then show ?thesis using le long [of j] long [of j, THEN not_sym] by (auto simp: g churned_simps f(1))
    next
      case (mv j)
      then show ?thesis using le by (auto simp: g churned_simps f(1) new)
    next
      case (ad j)
      then show ?thesis by (auto simp: g churned_simps new)
    next
      case other
      then show ?thesis by (auto simp: g churned_simps)
    qed
  qed
  then have "{p. ?f p \<noteq> ?g p}
      = baseline_path ` {0..<m + r + v} \<union> moved_path ` {m + r..<m + r + v} \<union> added_path ` {0..<a}" by blast
  also have "card \<dots> = (m + r + v) + v + a"
    by (subst card_Un_disjoint; (subst card_Un_disjoint)?) (auto simp: card_image inj_on_def)
  finally have "card {p. ?f p \<noteq> ?g p} = a + m + r + 2 * v" by simp
  then show ?thesis by (simp add: m_def r_def v_def a_def expected_diff_entries_def)
qed
section \<open>The layout of the watched root\<close>

definition harness_dirs :: "string list set" where
  "harness_dirs = {[], [''baseline''], [''moved''], [''added'']} \<union> range baseline_dir"

definition harness_files :: "string list set" where
  "harness_files = range baseline_path \<union> range moved_path \<union> range added_path"

definition laid_out :: "harness_disk \<Rightarrow> bool" where
  "laid_out d \<longleftrightarrow>
     hd_faults d = [] \<and> entries (hd_tree d) [] = Some Is_dir
     \<and> (\<forall>q. entries (hd_tree d) q \<noteq> None \<longrightarrow>
          entries (hd_tree d) q = Some Is_dir \<and> q \<in> harness_dirs
          \<or> (\<exists>b. entries (hd_tree d) q = Some (Is_file b)) \<and> q \<in> harness_files)"

abbreviation dir_at :: "harness_disk \<Rightarrow> string list \<Rightarrow> bool" where
  "dir_at d p \<equiv> entries (hd_tree d) p = Some Is_dir"

abbreviation file_at :: "harness_disk \<Rightarrow> string list \<Rightarrow> bool" where
  "file_at d p \<equiv> \<exists>b. entries (hd_tree d) p = Some (Is_file b)"

lemma files_not_dirs: "p \<in> harness_files \<Longrightarrow> p \<notin> harness_dirs"
  by (auto simp: harness_files_def harness_dirs_def baseline_path_def baseline_dir_def moved_path_def added_path_def)

lemma laid_out_nf: "laid_out d \<Longrightarrow> hd_faults d = []"
  by (simp add: laid_out_def)

lemma laid_out_file: "laid_out d \<Longrightarrow> p \<in> harness_files \<Longrightarrow> \<not> dir_at d p"
  using files_not_dirs by (fastforce simp: laid_out_def)

lemma laid_out_dir: "laid_out d \<Longrightarrow> p \<in> harness_dirs \<Longrightarrow> entries (hd_tree d) p \<in> {None, Some Is_dir}"
  using files_not_dirs by (fastforce simp: laid_out_def)

lemma laid_out_write:
  assumes "laid_out d" and "p @ [n] \<in> harness_files" and "dir_at d p"
  shows "\<exists>d'. fs_write (p @ [n]) b d = (Inr (), d') \<and> laid_out d'
    \<and> entries (hd_tree d') = (entries (hd_tree d))(p @ [n] \<mapsto> Is_file b)"
proof -
  obtain d' where d': "fs_write (p @ [n]) b d = (Inr (), d')" "hd_faults d' = []"
    using fs_write_succeeds [OF laid_out_nf [OF assms(1)] assms(3) laid_out_file [OF assms(1,2)]] by blast
  then have e: "entries (hd_tree d') = (entries (hd_tree d))(p @ [n] \<mapsto> Is_file b)" using fs_write_ok by blast
  have "laid_out d'" using d'(2) e assms(1,2) unfolding laid_out_def by (simp del: entries_Nil)
  then show ?thesis using d' e by blast
qed

lemma laid_out_create:
  assumes "laid_out d" and "\<forall>q. q \<noteq> [] \<and> prefix q p \<longrightarrow> q \<in> harness_dirs"
  shows "\<exists>d'. fs_create_dir_all p d = (Inr (), d') \<and> laid_out d' \<and> dir_at d' p
    \<and> (\<forall>q. dir_at d q \<longrightarrow> dir_at d' q) \<and> (\<forall>q. file_at d q \<longrightarrow> file_at d' q)"
proof -
  have "\<forall>q. q \<noteq> [] \<and> prefix q p \<longrightarrow> entries (hd_tree d) q \<in> {None, Some Is_dir}"
    using assms laid_out_dir by blast
  then obtain d' where d': "fs_create_dir_all p d = (Inr (), d')" "hd_faults d' = []"
    using fs_create_dir_all_succeeds [of d p] assms(1) by (auto simp: laid_out_def)
  note e = fs_create_dir_all_ok [OF d'(1)]
  have root: "dir_at d []" using assms(1) by (simp add: laid_out_def)
  have "laid_out d'"
    using assms d'(2) e by (auto simp: laid_out_def)
  moreover have "dir_at d' p" using e root by (cases "p = []") auto
  moreover have "file_at d' q" if "file_at d q" for q using e that by auto
  ultimately show ?thesis using d'(1) e by auto
qed

lemma laid_out_remove:
  assumes "laid_out d" and "file_at d (p @ [n])"
  shows "\<exists>d'. fs_remove_file (p @ [n]) d = (Inr (), d') \<and> laid_out d'
    \<and> entries (hd_tree d') = (entries (hd_tree d))(p @ [n] := None)"
proof -
  obtain d' where d': "fs_remove_file (p @ [n]) d = (Inr (), d')" "hd_faults d' = []"
    using fs_remove_file_succeeds [OF laid_out_nf [OF assms(1)]] assms(2) by blast
  then have e: "entries (hd_tree d') = (entries (hd_tree d))(p @ [n] := None)" using fs_remove_file_ok by blast
  have "laid_out d'" using d'(2) e assms(1) unfolding laid_out_def by (simp del: entries_Nil)
  then show ?thesis using d' e by blast
qed

lemma laid_out_rename:
  assumes "laid_out d" and "file_at d (p @ [n])" and "q @ [k] \<in> harness_files" and "dir_at d q"
    and "p @ [n] \<noteq> q @ [k]"
  shows "\<exists>d' b. fs_rename (p @ [n]) (q @ [k]) d = (Inr (), d') \<and> laid_out d'
    \<and> entries (hd_tree d') = (entries (hd_tree d))(q @ [k] \<mapsto> Is_file b, p @ [n] := None)"
proof -
  obtain d' where d': "fs_rename (p @ [n]) (q @ [k]) d = (Inr (), d')" "hd_faults d' = []"
    using fs_rename_succeeds [OF laid_out_nf [OF assms(1)] _ assms(4) laid_out_file [OF assms(1,3)] assms(5)] assms(2)
    by blast
  obtain b where e: "entries (hd_tree d') = (entries (hd_tree d))(q @ [k] \<mapsto> Is_file b, p @ [n] := None)"
    using fs_rename_ok [OF d'(1) assms(5)] by blast
  have "laid_out d'" using d'(2) e assms(1,3) unfolding laid_out_def by (simp del: entries_Nil)
  then show ?thesis using d' e by blast
qed

lemma for_each_succeeds:
  assumes "\<And>i d. a \<le> i \<Longrightarrow> i < b \<Longrightarrow> I i d \<Longrightarrow> \<exists>d'. f i d = (Inr (), d') \<and> I (Suc i) d'"
    and "I a d" and "a \<le> b"
  shows "\<exists>d'. for_each f [a..<b] d = (Inr (), d') \<and> I b d'"
  using assms
proof (induction "b - a" arbitrary: a d)
  case (Suc n)
  then have ab: "a < b" "[a..<b] = a # [Suc a..<b]" by (simp_all add: upt_rec)
  obtain d1 where d1: "f a d = (Inr (), d1)" "I (Suc a) d1" using Suc.prems ab(1) by blast
  have "\<exists>d'. for_each f [Suc a..<b] d1 = (Inr (), d') \<and> I b d'"
    by (rule Suc.hyps(1)) (use Suc.hyps(2) Suc.prems(1) d1(2) ab(1) in auto)
  then show ?case using d1(1) ab(2) by (simp add: bindE_def)
qed simp

section \<open>The steps succeed\<close>

lemma unat64_less: "unat (x :: u64) < 2 ^ 64"
  by (rule order_less_le_trans [OF unsigned_less]) simp

lemma upd_file_at: "entries (hd_tree d') = (entries (hd_tree d))(p \<mapsto> Is_file b) \<Longrightarrow> file_at d q \<Longrightarrow> file_at d' q"
  by simp

lemma baseline_file_parts:
  "baseline_path i = baseline_dir i @ [file_label i]" "baseline_path i \<in> harness_files"
  "q \<noteq> [] \<Longrightarrow> prefix q (baseline_dir i) \<Longrightarrow> q \<in> harness_dirs"
  by (auto simp: baseline_path_def harness_files_def harness_dirs_def baseline_dir_def prefix_Cons)

definition generated :: "nat \<Rightarrow> harness_disk \<Rightarrow> bool" where
  "generated i d \<longleftrightarrow> laid_out d \<and> (\<forall>j<i. file_at d (baseline_path j))
     \<and> (i mod FILES_PER_DIRECTORY \<noteq> 0 \<longrightarrow> dir_at d (baseline_dir i))"

lemma baseline_file_step:
  assumes "generated i d"
  shows "\<exists>d'. baseline_file n i d = (Inr (), d') \<and> generated (Suc i) d'"
proof -
  let ?mk = "if i mod FILES_PER_DIRECTORY = 0 then tried (fs_create_dir_all (baseline_dir i)) else Pair (Inr ())"
  have "\<exists>d1. ?mk d = (Inr (), d1) \<and> laid_out d1 \<and> dir_at d1 (baseline_dir i) \<and> (\<forall>j<i. file_at d1 (baseline_path j))"
  proof (cases "i mod FILES_PER_DIRECTORY = 0")
    case True
    then show ?thesis
      using laid_out_create [of d "baseline_dir i"] assms baseline_file_parts(3)
      by (fastforce simp: generated_def tried_ok)
  qed (use assms in \<open>simp add: generated_def\<close>)
  then obtain d1 where d1: "?mk d = (Inr (), d1)" "laid_out d1" "dir_at d1 (baseline_dir i)"
    "\<forall>j<i. file_at d1 (baseline_path j)" by blast
  obtain d2 where d2: "fs_write (baseline_path i) (content i 0 n) d1 = (Inr (), d2)" "laid_out d2"
    and e: "entries (hd_tree d2) = (entries (hd_tree d1))(baseline_path i \<mapsto> Is_file (content i 0 n))"
    using laid_out_write [OF d1(2) _ d1(3), of "file_label i"] baseline_file_parts by metis
  have "Suc i div FILES_PER_DIRECTORY = i div FILES_PER_DIRECTORY" if "Suc i mod FILES_PER_DIRECTORY \<noteq> 0"
    using that by (simp add: FILES_PER_DIRECTORY_def div_Suc)
  then have "baseline_dir (Suc i) = baseline_dir i" if "Suc i mod FILES_PER_DIRECTORY \<noteq> 0"
    using that by (simp add: baseline_dir_def)
  moreover have "dir_at d2 (baseline_dir i)" unfolding e using d1(3) by (simp add: baseline_path_def)
  ultimately have "generated (Suc i) d2"
    unfolding generated_def using d2(2) d1(4) e by (auto simp: less_Suc_eq)
  moreover have "baseline_file n i d = (Inr (), d2)"
    unfolding baseline_file_def using d1(1) d2(1) by (simp add: bindE_def)
  ultimately show ?thesis by blast
qed

lemma generate_succeeds:
  assumes "hd_tree d = Node_dir []" and "hd_faults d = []"
  shows "\<exists>d'. generate_baseline n k d = (Inr (), d') \<and> laid_out d' \<and> (\<forall>j<n. file_at d' (baseline_path j))"
proof -
  have "entries (Node_dir []) q = (if q = [] then Some Is_dir else None)" for q
    by (cases q) (simp_all add: entries_Cons)
  then have "laid_out d" using assms by (simp add: laid_out_def harness_dirs_def del: entries_Nil)
  then have g: "generated 0 d" by (simp add: generated_def)
  have "\<exists>d'. for_each (baseline_file k) [0..<n] d = (Inr (), d') \<and> generated n d'"
    by (rule for_each_succeeds [where I = generated]) (use baseline_file_step g in auto)
  then show ?thesis unfolding generate_baseline_def generated_def by blast
qed

definition files_from :: "nat \<Rightarrow> nat \<Rightarrow> harness_disk \<Rightarrow> bool" where
  "files_from n i d \<longleftrightarrow> laid_out d \<and> (\<forall>j. i \<le> j \<and> j < n \<longrightarrow> file_at d (baseline_path j))"

lemma baseline_parent: "file_at d (baseline_path i) \<Longrightarrow> dir_at d (baseline_dir i)"
  unfolding baseline_path_def using entries_parent by blast

lemma modify_file_step:
  assumes "i < n" and "files_from n 0 d"
  shows "\<exists>d'. modify_file k i d = (Inr (), d') \<and> files_from n 0 d'"
proof -
  have "laid_out d" "dir_at d (baseline_dir i)" using assms baseline_parent by (auto simp: files_from_def)
  then obtain d' where "fs_write (baseline_path i) (content i 1 k @ [newline]) d = (Inr (), d')" "laid_out d'"
    "entries (hd_tree d') = (entries (hd_tree d))(baseline_path i \<mapsto> Is_file (content i 1 k @ [newline]))"
    using laid_out_write baseline_file_parts by metis
  then show ?thesis using assms(2) by (simp add: modify_file_def files_from_def)
qed

lemma remove_file_step:
  assumes "i < n" and "files_from n i d"
  shows "\<exists>d'. remove_file i d = (Inr (), d') \<and> files_from n (Suc i) d'"
proof -
  have "laid_out d" "file_at d (baseline_path i)" using assms by (auto simp: files_from_def)
  then obtain d' where "fs_remove_file (baseline_path i) d = (Inr (), d')" "laid_out d'"
    "entries (hd_tree d') = (entries (hd_tree d))(baseline_path i := None)"
    using laid_out_remove baseline_file_parts(1) by metis
  then show ?thesis using assms(2) by (auto simp: remove_file_def files_from_def)
qed

lemma move_file_step:
  assumes "i < n" and "files_from n i d"
  shows "\<exists>d'. move_file i d = (Inr (), d') \<and> files_from n (Suc i) d'"
proof -
  have d: "laid_out d" "\<forall>j. i \<le> j \<and> j < n \<longrightarrow> file_at d (baseline_path j)" using assms by (auto simp: files_from_def)
  have "\<forall>q. q \<noteq> [] \<and> prefix q [''moved''] \<longrightarrow> q \<in> harness_dirs" by (auto simp: prefix_Cons harness_dirs_def)
  from laid_out_create [OF d(1) this] obtain d1 where
    d1: "fs_create_dir_all [''moved''] d = (Inr (), d1)" "laid_out d1" "dir_at d1 [''moved'']"
      "\<forall>q. file_at d q \<longrightarrow> file_at d1 q" by blast
  have f: "file_at d1 (baseline_path i)" using d(2) d1(4) assms(1) by simp
  have "[''moved''] @ [file_label i] \<in> harness_files" by (simp add: harness_files_def moved_path_def)
  from laid_out_rename [OF d1(2) f [unfolded baseline_path_def] this d1(3)] obtain d2 b where
    d2: "fs_rename (baseline_path i) (moved_path i) d1 = (Inr (), d2)" "laid_out d2"
      "entries (hd_tree d2) = (entries (hd_tree d1))(moved_path i \<mapsto> Is_file b, baseline_path i := None)"
    unfolding baseline_path_def moved_path_def by (auto simp: baseline_dir_def)
  have "files_from n (Suc i) d2" using d2(2,3) d(2) d1(4) by (auto simp: files_from_def)
  then show ?thesis using d1(1) d2(1) by (simp add: move_file_def bindE_def tried_ok tried_def)
qed

definition added_from :: "nat \<Rightarrow> harness_disk \<Rightarrow> bool" where
  "added_from i d \<longleftrightarrow> laid_out d \<and> (0 < i \<longrightarrow> dir_at d [''added''])"

lemma add_file_step:
  assumes "added_from i d"
  shows "\<exists>d'. add_file k i d = (Inr (), d') \<and> added_from (Suc i) d'"
proof -
  let ?mk = "if i = 0 then tried (fs_create_dir_all [''added'']) else Pair (Inr ())"
  have "\<forall>q. q \<noteq> [] \<and> prefix q [''added''] \<longrightarrow> q \<in> harness_dirs" by (auto simp: prefix_Cons harness_dirs_def)
  then obtain d1 where d1: "?mk d = (Inr (), d1)" "laid_out d1" "dir_at d1 [''added'']"
    using laid_out_create [of d "[''added'']"] assms by (cases "i = 0") (auto simp: added_from_def tried_ok)
  have "[''added''] @ [file_label i] \<in> harness_files" by (simp add: harness_files_def added_path_def)
  then obtain d2 where "fs_write (added_path i) (content i 2 k) d1 = (Inr (), d2)" "laid_out d2"
    "entries (hd_tree d2) = (entries (hd_tree d1))(added_path i \<mapsto> Is_file (content i 2 k))"
    using laid_out_write [OF d1(2) _ d1(3)] unfolding added_path_def by metis
  then show ?thesis using d1 by (auto simp: add_file_def bindE_def added_from_def added_path_def)
qed

lemma churn_succeeds:
  assumes "laid_out d" and "\<forall>j<n. file_at d (baseline_path j)"
    and "unat (ha_modify args) + unat (ha_remove args) + unat (ha_move_like args) \<le> n" and "n < 2 ^ 64"
  shows "\<exists>d'. apply_churn args d = (Inr (), d') \<and> laid_out d'"
proof -
  define m r v where "m = unat (ha_modify args)" and "r = unat (ha_remove args)" and "v = unat (ha_move_like args)"
  have w: "unat (ha_modify args + ha_remove args) = m + r"
    "unat (ha_modify args + ha_remove args + ha_move_like args) = m + r + v"
    using assms(3,4) by (simp_all add: unat_word_ariths m_def r_def v_def)
  have le: "m + r + v \<le> n" using assms(3) by (simp add: m_def r_def v_def)
  let ?k = "unat (ha_file_bytes args)"
  have "\<exists>d1. for_each (modify_file ?k) [0..<m] d = (Inr (), d1) \<and> files_from n 0 d1"
    by (rule for_each_succeeds [where I = "\<lambda>i. files_from n 0"])
      (use modify_file_step le assms(1,2) in \<open>auto simp: files_from_def [of n 0 d]\<close>)
  then obtain d1 where d1: "for_each (modify_file ?k) [0..<m] d = (Inr (), d1)" "files_from n m d1"
    by (auto simp: files_from_def)
  obtain d2 where d2: "for_each remove_file [m..<m + r] d1 = (Inr (), d2)" "files_from n (m + r) d2"
    using for_each_succeeds [where f = remove_file and I = "files_from n", OF remove_file_step d1(2), of "m + r"] le by auto
  obtain d3 where d3: "for_each move_file [m + r..<m + r + v] d2 = (Inr (), d3)" "files_from n (m + r + v) d3"
    using for_each_succeeds [where f = move_file and I = "files_from n", OF move_file_step d2(2), of "m + r + v"] le by auto
  have "added_from 0 d3" using d3(2) by (simp add: added_from_def files_from_def)
  then obtain d4 where d4: "for_each (add_file ?k) [0..<unat (ha_add args)] d3 = (Inr (), d4)"
    "added_from (unat (ha_add args)) d4"
    using for_each_succeeds [where f = "add_file ?k" and I = added_from, OF add_file_step] by blast
  have "apply_churn args d = (Inr (), d4)"
    unfolding apply_churn_def Let_def w m_def [symmetric] using d1(1) d2(1) d3(1) d4(1) by (simp add: bindE_def)
  then show ?thesis using d4(2) by (auto simp: added_from_def)
qed

text \<open>
  C36: The announced churn. For valid arguments whose counts do not overflow: on an empty watched root
  without I/O errors both the baseline and the churn are written to the end; and on any root without
  files, whenever both are, they differ at exactly \<open>add + modify + remove + 2 * move_like\<close> paths,
  which is the number the harness compares the diff of the snapshots with.
\<close>

theorem churn_as_announced:
  assumes "validate_args args = Inr ()"
    and "unat (ha_modify args) + unat (ha_remove args) + unat (ha_move_like args) < 2 ^ 64"
    and "\<forall>p. file_in (hd_tree d) p = None"
  shows "(hd_tree d = Node_dir [] \<and> hd_faults d = [] \<longrightarrow>
      (\<exists>d1 d2. generate_baseline (unat (ha_files args)) (unat (ha_file_bytes args)) d = (Inr (), d1)
        \<and> apply_churn args d1 = (Inr (), d2)))
    \<and> (\<forall>u d1 v d2. generate_baseline (unat (ha_files args)) (unat (ha_file_bytes args)) d = (Inr u, d1)
        \<and> apply_churn args d1 = (Inr v, d2) \<longrightarrow>
          card {p. file_in (hd_tree d1) p \<noteq> file_in (hd_tree d2) p}
            = unat (ha_add args) + unat (ha_modify args) + unat (ha_remove args) + 2 * unat (ha_move_like args)
          \<and> expected_diff_entries args = word_of_nat (card {p. file_in (hd_tree d1) p \<noteq> file_in (hd_tree d2) p}))"
proof (intro conjI impI allI)
  assume d: "hd_tree d = Node_dir [] \<and> hd_faults d = []"
  have "unat (ha_modify args) + unat (ha_remove args) + unat (ha_move_like args) \<le> unat (ha_files args)"
    using assms(1,2) by (auto simp: validate_args_def word_le_nat_alt unat_word_ariths split: if_splits)
  moreover obtain d1 where "generate_baseline (unat (ha_files args)) (unat (ha_file_bytes args)) d = (Inr (), d1)"
    "laid_out d1" "\<forall>j<unat (ha_files args). file_at d1 (baseline_path j)"
    using generate_succeeds d by blast
  ultimately show "\<exists>d1 d2. generate_baseline (unat (ha_files args)) (unat (ha_file_bytes args)) d = (Inr (), d1)
      \<and> apply_churn args d1 = (Inr (), d2)"
    using churn_succeeds [OF _ _ _ unat64_less] by blast
qed (use churn_expected [OF assms] in blast)+

definition scale_args :: harness_args where
  "scale_args = \<lparr>ha_files = 4, ha_file_bytes = 3, ha_add = 1, ha_modify = 1, ha_remove = 1, ha_move_like = 1,
     ha_full_rescan = False\<rparr>"

definition scale_root :: harness_disk where
  "scale_root = \<lparr>hd_tree = Node_dir [], hd_faults = []\<rparr>"

lemma scale_root_empty: "file_in (hd_tree scale_root) p = None"
  by (cases p) (simp_all add: scale_root_def file_in_def)

theorem churn_as_announced_witness:
  "\<exists>d1 d2. generate_baseline 4 3 scale_root = (Inr (), d1) \<and> apply_churn scale_args d1 = (Inr (), d2)
    \<and> card {p. file_in (hd_tree d1) p \<noteq> file_in (hd_tree d2) p} = 5"
proof -
  have a: "validate_args scale_args = Inr ()"
    "unat (ha_modify scale_args) + unat (ha_remove scale_args) + unat (ha_move_like scale_args) < 2 ^ 64"
    "unat (ha_files scale_args) = 4" "unat (ha_file_bytes scale_args) = 3"
    "unat (ha_add scale_args) + unat (ha_modify scale_args) + unat (ha_remove scale_args)
       + 2 * unat (ha_move_like scale_args) = 5"
    by (simp_all add: validate_args_def scale_args_def)
  have r: "hd_tree scale_root = Node_dir [] \<and> hd_faults scale_root = []" by (simp add: scale_root_def)
  note c = churn_as_announced [OF a(1,2), of scale_root, unfolded a(3-5), simplified scale_root_empty simp_thms]
  obtain d1 d2 where "generate_baseline 4 3 scale_root = (Inr (), d1)" "apply_churn scale_args d1 = (Inr (), d2)"
    using c r by blast
  then show ?thesis using c by blast
qed

end
