(* ===== verification/Harness_Run.thy ===== *)
theory Harness_Run
  imports Scale_Harness
begin

text \<open>
  A whole run of the scale harness: \<open>Harness::init\<close>, the three measured snapshots with the churn
  before the third, and the verification of the last tree. What jj is asked to do is a parameter.
\<close>

section \<open>The harness\<close>

text \<open>
  jj, and the shadow root it keeps its state in. \<open>bj_diff\<close> is the stream of the entries of a diff,
  each with the result of \<open>entry.values\<close>.
\<close>

record ('t, 'j) harness_jj =
  bj_init :: "('j, string, unit) op"
  bj_new_working_copy :: "string \<Rightarrow> ('j, string, unit) op"
  bj_snapshot :: "tree_node \<Rightarrow> ('j, string, 't \<times> nat) op"
  bj_empty_tree :: 't
  bj_diff :: "'t \<Rightarrow> 't \<Rightarrow> (string + unit) list"
  bj_entries :: "'t \<Rightarrow> (string list \<times> (string + merged_value)) list"
  bj_read_file :: "'t \<Rightarrow> string list \<Rightarrow> string \<Rightarrow> string + bytes"
  bj_shadow :: "'j \<Rightarrow> harness_disk"

text \<open>What the harness prints; the times and the peak memory of a phase are left out.\<close>

datatype harness_output =
    Config_line harness_args
  | Phase_line string nat nat nat u64 u64
  | Verification_line nat u64 u64 nat

record 'j harness_run =
  hr_disk :: harness_disk
  hr_jj :: 'j
  hr_generation :: nat
  hr_output :: "harness_output list"

type_synonym ('j, 'a) run_op = "('j harness_run, harness_error, 'a) op"

definition on_disk :: "(harness_disk, harness_error, 'a) op \<Rightarrow> ('j, 'a) run_op" where
  "on_disk m s = (case m (hr_disk s) of (r, d) \<Rightarrow> (r, s\<lparr>hr_disk := d\<rparr>))"

definition on_jj :: "('j, string, 'a) op \<Rightarrow> ('j, 'a) run_op" where
  "on_jj m s =
     (case m (hr_jj s) of
        (Inl e, j) \<Rightarrow> (Inl (Check_failed e), s\<lparr>hr_jj := j\<rparr>)
      | (Inr x, j) \<Rightarrow> (Inr x, s\<lparr>hr_jj := j\<rparr>))"

definition emit_line :: "harness_output \<Rightarrow> ('j, unit) run_op" where
  "emit_line line s = (Inr (), s\<lparr>hr_output := hr_output s @ [line]\<rparr>)"

definition ensure :: "bool \<Rightarrow> string \<Rightarrow> ('j, unit) run_op" where
  "ensure ok message s = (if ok then Inr () else Inl (Check_failed message), s)"

definition store_size :: "('t, 'j) harness_jj \<Rightarrow> ('j, u64) run_op" where
  "store_size jj s = (fst (directory_size (bj_shadow jj (hr_jj s))), s)"

definition working_copy_name :: "nat \<Rightarrow> string" where
  "working_copy_name generation = ''working-copy-'' @ pad_zero 3 (show_nat generation)"

definition harness_init :: "('t, 'j) harness_jj \<Rightarrow> ('j, unit) run_op" where
  "harness_init jj =
     bindE (on_jj (bj_init jj)) (\<lambda>_.
     bindE (on_jj (bj_new_working_copy jj (working_copy_name 0))) (\<lambda>_ s.
       (Inr (), s\<lparr>hr_generation := 0\<rparr>)))"

definition harness_snapshot :: "('t, 'j) harness_jj \<Rightarrow> bool \<Rightarrow> ('j, 't \<times> nat) run_op" where
  "harness_snapshot jj full_rescan =
     bindE (if full_rescan then
              (\<lambda>s. on_jj (bj_new_working_copy jj (working_copy_name (hr_generation s + 1)))
                     (s\<lparr>hr_generation := hr_generation s + 1\<rparr>))
            else Pair (Inr ())) (\<lambda>_ s.
       on_jj (bj_snapshot jj (hd_tree (hr_disk s))) s)"

fun timed_diff :: "(string + unit) list \<Rightarrow> nat \<Rightarrow> string + nat" where
  "timed_diff [] count = Inr count"
| "timed_diff (Inl m # stream) count = Inl m"
| "timed_diff (Inr _ # stream) count = timed_diff stream (count + 1)"

fun count_tree_entries :: "(string list \<times> (string + merged_value)) list \<Rightarrow> nat \<Rightarrow> string + nat" where
  "count_tree_entries [] count = Inr count"
| "count_tree_entries ((p, Inl m) # es) count = Inl m"
| "count_tree_entries ((p, Inr v) # es) count = count_tree_entries es (count + 1)"

definition checked :: "string + 'a \<Rightarrow> ('j, 'a) run_op" where
  "checked r s = (case r of Inl m \<Rightarrow> Inl (Check_failed m) | Inr x \<Rightarrow> Inr x, s)"

text \<open>
  A phase: a snapshot, its diff to the tree before, a test of the number of changes, and the
  metrics; the result is the new tree, the number of changes and the size of the store.
\<close>

definition measured_phase ::
  "('t, 'j) harness_jj \<Rightarrow> bool \<Rightarrow> string \<Rightarrow> 't \<Rightarrow> u64 \<Rightarrow> (nat \<Rightarrow> bool \<times> string) \<Rightarrow> ('j, 't \<times> nat \<times> u64) run_op" where
  "measured_phase jj full_rescan phase before previous_store_bytes test =
     bindE (harness_snapshot jj full_rescan) (\<lambda>(tree, untracked).
     bindE (checked (timed_diff (bj_diff jj before tree) 0)) (\<lambda>changes.
     bindE (case test changes of (ok, message) \<Rightarrow> ensure ok message) (\<lambda>_.
     bindE (checked (count_tree_entries (bj_entries jj tree) 0)) (\<lambda>entries.
     bindE (store_size jj) (\<lambda>store_bytes.
     bindE (emit_line (Phase_line phase changes entries untracked store_bytes
              (saturating_sub store_bytes previous_store_bytes))) (\<lambda>_.
       Pair (Inr (tree, changes, store_bytes))))))))"

text \<open>\<open>main\<close> in its two halves: up to the snapshot without a change, and from the churn on.\<close>

definition cold_and_no_op :: "('t, 'j) harness_jj \<Rightarrow> harness_args \<Rightarrow> ('j, 't \<times> u64) run_op" where
  "cold_and_no_op jj args =
     bindE (on_disk (generate_baseline (unat (ha_files args)) (unat (ha_file_bytes args)))) (\<lambda>_.
     bindE (harness_init jj) (\<lambda>_.
     bindE (store_size jj) (\<lambda>bytes0.
     bindE (measured_phase jj (ha_full_rescan args) ''cold_baseline'' (bj_empty_tree jj) bytes0
              (\<lambda>n. (True, []))) (\<lambda>(baseline, _, bytes1).
     bindE (measured_phase jj (ha_full_rescan args) ''no_op'' baseline bytes1
              (\<lambda>n. (n = 0, ''no-op snapshot changed '' @ show_nat n @ '' tree entries''))) (\<lambda>(no_op, _, bytes2).
       Pair (Inr (no_op, bytes2)))))))"

definition churn_and_verify ::
  "('t, 'j) harness_jj \<Rightarrow> harness_args \<Rightarrow> 't \<Rightarrow> u64 \<Rightarrow> ('j, unit) run_op" where
  "churn_and_verify jj args no_op bytes2 =
     bindE (on_disk (apply_churn args)) (\<lambda>_.
     bindE (measured_phase jj (ha_full_rescan args) ''incremental'' no_op bytes2
              (\<lambda>n. (True, []))) (\<lambda>(incremental, changes, _).
     bindE (ensure (word_of_nat changes = expected_diff_entries args)
              (''incremental tree diff had '' @ show_nat changes @ '' entries; expected ''
                 @ show_u64 (expected_diff_entries args))) (\<lambda>_.
     bindE (on_disk (verify_tree (bj_read_file jj incremental) (bj_entries jj incremental))) (\<lambda>(files, bytes).
     bindE (emit_line (Verification_line files bytes (expected_diff_entries args) changes)) (\<lambda>_ s.
       ensure (node_in (hd_tree (hr_disk s)) [''.jj''] = None) ''jj metadata leaked into watched root'' s)))))"

definition run_harness :: "('t, 'j) harness_jj \<Rightarrow> harness_args \<Rightarrow> ('j, unit) run_op" where
  "run_harness jj args =
     bindE (checked (validate_args args)) (\<lambda>_.
     bindE (emit_line (Config_line args)) (\<lambda>_.
     bindE (cold_and_no_op jj args) (\<lambda>(no_op, bytes2).
       churn_and_verify jj args no_op bytes2)))"

section \<open>The names of a directory stay distinct\<close>

lemma put_entry_wf:
  "distinct (map fst es) \<and> list_all (\<lambda>(n, t). wf_tree t) es \<Longrightarrow> wf_tree t \<Longrightarrow> wf_tree (Node_dir (put_entry n t es))"
proof (induction n t es rule: put_entry.induct)
  case (2 k v k' v' d)
  have "fst ` set (put_entry k v d) = insert k (fst ` set d)"
    by (induction k v d rule: put_entry.induct) auto
  then show ?case using 2 by (auto simp: image_iff)
qed simp

lemma drop_entry_wf: "wf_tree (Node_dir es) \<Longrightarrow> wf_tree (Node_dir (drop_entry n es))"
  by (auto simp: drop_entry_def list_all_iff distinct_map_filter)

lemma change_at_wf:
  assumes "change_at f p t = Inr t'" and "wf_tree t"
    and "\<And>x y. f x = Inr (Some y) \<Longrightarrow> pred_option wf_tree x \<Longrightarrow> wf_tree y"
  shows "wf_tree t'"
  using assms
proof (induction f p t arbitrary: t' rule: change_at.induct)
  case (2 f n es)
  have "pred_option wf_tree (map_of es n)"
    using "2.prems"(2) by (auto simp: option.pred_set list_all_iff dest!: map_of_SomeD)
  then show ?case
    using 2 put_entry_wf drop_entry_wf by (fastforce split: sum.splits option.splits)
next
  case (3 f n m ns es)
  then obtain t1 t2 where t: "map_of es n = Some t1" "change_at f (m # ns) t1 = Inr t2"
    "t' = Node_dir (put_entry n t2 es)"
    by (auto split: option.splits sum.splits)
  have "wf_tree t1" using t(1) "3.prems"(2) by (auto simp: list_all_iff dest!: map_of_SomeD)
  then have "wf_tree t2" using "3.IH" t "3.prems"(3) by blast
  then show ?case using put_entry_wf t(3) "3.prems"(2) by simp
qed simp_all

lemma entry_change_wf:
  "put_file b x = Inr (Some y) \<Longrightarrow> wf_tree y"
  "unlink x = Inr (Some y) \<Longrightarrow> wf_tree y"
  "ensure_dir x = Inr (Some y) \<Longrightarrow> pred_option wf_tree x \<Longrightarrow> wf_tree y"
  by (auto simp: put_file_def unlink_def ensure_dir_def split: option.splits tree_node.splits)

lemma ensure_dirs_wf: "ensure_dirs dir p t = Inr t' \<Longrightarrow> wf_tree t \<Longrightarrow> wf_tree t'"
proof (induction dir p t rule: ensure_dirs.induct)
  case (2 dir n ns t)
  then obtain t1 where "change_at ensure_dir (dir @ [n]) t = Inr t1" "ensure_dirs (dir @ [n]) ns t1 = Inr t'"
    by (auto split: sum.splits)
  then show ?case using 2 change_at_wf entry_change_wf(3) by blast
qed simp

lemma calls_wf:
  "fs_write p b d = (Inr u, d') \<Longrightarrow> wf_tree (hd_tree d) \<Longrightarrow> wf_tree (hd_tree d')"
  "fs_remove_file p d = (Inr u, d') \<Longrightarrow> wf_tree (hd_tree d) \<Longrightarrow> wf_tree (hd_tree d')"
  "fs_create_dir_all p d = (Inr u, d') \<Longrightarrow> wf_tree (hd_tree d) \<Longrightarrow> wf_tree (hd_tree d')"
  "fs_rename p q d = (Inr u, d') \<Longrightarrow> wf_tree (hd_tree d) \<Longrightarrow> wf_tree (hd_tree d')"
proof -
  show "wf_tree (hd_tree d')" if a: "fs_write p b d = (Inr u, d')" "wf_tree (hd_tree d)"
  proof -
    obtain v d1 where d1: "fs_change (change_at (put_file []) p) d = (Inr v, d1)" "fs_fill p b d1 = (Inr u, d')"
      using a(1) unfolding fs_write_def by (rule bindE_InrE)
    have "wf_tree (hd_tree d1)"
      using fs_change_ok [OF d1(1)] change_at_wf [OF _ a(2)] entry_change_wf(1) by blast
    moreover have "change_at (put_file b) p (hd_tree d1) = Inr (hd_tree d')"
      using d1(2) by (auto simp: fs_fill_def fs_fault_def split: list.splits option.splits sum.splits)
    ultimately show ?thesis using change_at_wf entry_change_wf(1) by blast
  qed
  show "wf_tree (hd_tree d')" if "fs_remove_file p d = (Inr u, d')" "wf_tree (hd_tree d)"
    using that fs_change_ok change_at_wf entry_change_wf(2) unfolding fs_remove_file_def by blast
  show "wf_tree (hd_tree d')" if "fs_create_dir_all p d = (Inr u, d')" "wf_tree (hd_tree d)"
    using that fs_change_ok ensure_dirs_wf unfolding fs_create_dir_all_def by blast
  show "wf_tree (hd_tree d')" if a: "fs_rename p q d = (Inr u, d')" "wf_tree (hd_tree d)"
  proof -
    have "rename_file p q (hd_tree d) = Inr (hd_tree d')" using a(1) fs_change_ok unfolding fs_rename_def by blast
    then obtain b t1 where "change_at (put_file b) q (hd_tree d) = Inr t1"
      "hd_tree d' = t1 \<or> change_at unlink p t1 = Inr (hd_tree d')"
      by (auto simp: rename_file_def split: option.splits sum.splits if_splits)
    then show ?thesis using a(2) change_at_wf entry_change_wf(1,2) by metis
  qed
qed

lemma for_each_wf:
  assumes "for_each f xs d = (Inr u, d')" and "wf_tree (hd_tree d)"
    and "\<And>x d v d'. f x d = (Inr v, d') \<Longrightarrow> wf_tree (hd_tree d) \<Longrightarrow> wf_tree (hd_tree d')"
  shows "wf_tree (hd_tree d')"
  using assms(1,2)
proof (induction xs arbitrary: d)
  case (Cons x xs)
  then obtain v d1 where "f x d = (Inr v, d1)" "for_each f xs d1 = (Inr u, d')" by (auto elim: bindE_InrE)
  then show ?case using Cons assms(3) by blast
qed simp

lemma guarded_wf:
  "(if c then tried (fs_create_dir_all p) else Pair (Inr ())) d = (Inr u, d') \<Longrightarrow> wf_tree (hd_tree d) \<Longrightarrow>
     wf_tree (hd_tree d')"
  by (cases c) (simp_all add: tried_ok calls_wf(3))

lemma steps_wf:
  "baseline_file n i d = (Inr u, d') \<Longrightarrow> wf_tree (hd_tree d) \<Longrightarrow> wf_tree (hd_tree d')"
  "modify_file n i d = (Inr u, d') \<Longrightarrow> wf_tree (hd_tree d) \<Longrightarrow> wf_tree (hd_tree d')"
  "remove_file i d = (Inr u, d') \<Longrightarrow> wf_tree (hd_tree d) \<Longrightarrow> wf_tree (hd_tree d')"
  "move_file i d = (Inr u, d') \<Longrightarrow> wf_tree (hd_tree d) \<Longrightarrow> wf_tree (hd_tree d')"
  "add_file n i d = (Inr u, d') \<Longrightarrow> wf_tree (hd_tree d) \<Longrightarrow> wf_tree (hd_tree d')"
  unfolding baseline_file_def modify_file_def remove_file_def move_file_def add_file_def
  by (erule bindE_InrE, drule (1) guarded_wf, simp add: calls_wf(1))
    (simp add: calls_wf(1), simp add: calls_wf(2),
      erule bindE_InrE, simp only: tried_ok, drule (1) calls_wf(3), simp add: calls_wf(4),
      erule bindE_InrE, drule (1) guarded_wf, simp add: calls_wf(1))

lemma loops_wf:
  "for_each (modify_file n) xs d = (Inr u, d') \<Longrightarrow> wf_tree (hd_tree d) \<Longrightarrow> wf_tree (hd_tree d')"
  "for_each (remove_file) xs d = (Inr u, d') \<Longrightarrow> wf_tree (hd_tree d) \<Longrightarrow> wf_tree (hd_tree d')"
  "for_each (move_file) xs d = (Inr u, d') \<Longrightarrow> wf_tree (hd_tree d) \<Longrightarrow> wf_tree (hd_tree d')"
  "for_each (add_file n) xs d = (Inr u, d') \<Longrightarrow> wf_tree (hd_tree d) \<Longrightarrow> wf_tree (hd_tree d')"
  by (erule (1) for_each_wf, erule (1) steps_wf)+

lemma generate_wf: "generate_baseline n k d = (Inr u, d') \<Longrightarrow> wf_tree (hd_tree d) \<Longrightarrow> wf_tree (hd_tree d')"
  unfolding generate_baseline_def by (rule for_each_wf) (auto intro: steps_wf)

lemma churn_wf: "apply_churn args d = (Inr u, d') \<Longrightarrow> wf_tree (hd_tree d) \<Longrightarrow> wf_tree (hd_tree d')"
  unfolding apply_churn_def Let_def
  by (elim bindE_InrE) (drule (1) loops_wf, drule (1) loops_wf, drule (1) loops_wf, drule (1) loops_wf)

section \<open>A run that succeeds\<close>

lemma timed_diff_ok: "timed_diff stream n = Inr k \<Longrightarrow> (\<forall>m. Inl m \<notin> set stream) \<and> k = n + length stream"
  by (induction stream n rule: timed_diff.induct) auto

lemma on_disk_ok: "on_disk m s = (Inr x, s') \<longleftrightarrow> (\<exists>d. m (hr_disk s) = (Inr x, d) \<and> s' = s\<lparr>hr_disk := d\<rparr>)"
  by (auto simp: on_disk_def split: prod.splits)

lemma ensure_ok: "ensure ok m s = (Inr u, s') \<longleftrightarrow> ok \<and> s' = s"
  by (auto simp: ensure_def)

lemma checked_ok: "checked r s = (Inr x, s') \<longleftrightarrow> r = Inr x \<and> s' = s"
  by (auto simp: checked_def split: sum.splits)

lemma emit_line_ok: "emit_line l s = (Inr u, s') \<longleftrightarrow> s' = s\<lparr>hr_output := hr_output s @ [l]\<rparr>"
  by (auto simp: emit_line_def)

lemma store_size_ok: "store_size jj s = (Inr n, s') \<Longrightarrow> s' = s"
  by (simp add: store_size_def)

lemma on_jj_ok: "on_jj m s = (Inr x, s') \<longleftrightarrow> (\<exists>j. m (hr_jj s) = (Inr x, j) \<and> s' = s\<lparr>hr_jj := j\<rparr>)"
  by (auto simp: on_jj_def split: prod.splits sum.splits)

text \<open>A state of jj is reached when the harness asks for a snapshot of the root as it stands.\<close>

lemma harness_snapshot_ok:
  assumes "harness_snapshot jj full s = (Inr (tree, n), s')"
  shows "hr_disk s' = hr_disk s \<and> (\<exists>j j'. bj_snapshot jj (hd_tree (hr_disk s)) j = (Inr (tree, n), j'))"
proof -
  from assms obtain v s1 where
    "(if full then (\<lambda>s. on_jj (bj_new_working_copy jj (working_copy_name (hr_generation s + 1)))
        (s\<lparr>hr_generation := hr_generation s + 1\<rparr>)) else Pair (Inr ())) s = (Inr v, s1)"
    "on_jj (bj_snapshot jj (hd_tree (hr_disk s1))) s1 = (Inr (tree, n), s')"
    unfolding harness_snapshot_def by (rule bindE_InrE)
  then have "hr_disk s1 = hr_disk s" "on_jj (bj_snapshot jj (hd_tree (hr_disk s1))) s1 = (Inr (tree, n), s')"
    by (auto simp: on_jj_ok split: if_splits)
  then show ?thesis by (auto simp: on_jj_ok)
qed

lemma measured_phase_ok:
  assumes "measured_phase jj full phase before prev test s = (Inr (tree, changes, store), s')"
  shows "hr_disk s' = hr_disk s
    \<and> (\<exists>n j j'. bj_snapshot jj (hd_tree (hr_disk s)) j = (Inr (tree, n), j'))
    \<and> (\<forall>m. Inl m \<notin> set (bj_diff jj before tree)) \<and> changes = length (bj_diff jj before tree)
    \<and> fst (test changes)"
proof -
  from assms obtain n s1 where
    1: "harness_snapshot jj full s = (Inr (tree, n), s1)"
    and 2: "timed_diff (bj_diff jj before tree) 0 = Inr changes" "fst (test changes)" "hr_disk s' = hr_disk s1"
    unfolding measured_phase_def
    by (auto elim!: bindE_InrE dest!: store_size_ok simp: checked_ok ensure_ok emit_line_ok split: prod.splits)
  show ?thesis using harness_snapshot_ok [OF 1] timed_diff_ok [OF 2(1)] 2(2,3) by auto
qed

lemma harness_init_disk: "harness_init jj s = (Inr u, s') \<Longrightarrow> hr_disk s' = hr_disk s"
  by (auto simp: harness_init_def on_jj_ok elim!: bindE_InrE)

lemma cold_and_no_op_ok:
  assumes "cold_and_no_op jj args s = (Inr (before, bytes2), s')"
  shows "(\<exists>u. generate_baseline (unat (ha_files args)) (unat (ha_file_bytes args)) (hr_disk s) = (Inr u, hr_disk s'))
    \<and> (\<exists>base n m j j' k k'. bj_snapshot jj (hd_tree (hr_disk s')) j = (Inr (base, n), j')
         \<and> bj_snapshot jj (hd_tree (hr_disk s')) k = (Inr (before, m), k') \<and> bj_diff jj base before = [])"
proof -
  from assms obtain u d1 v s2 base b0 c1 b1 s3 c2 where
    gen: "generate_baseline (unat (ha_files args)) (unat (ha_file_bytes args)) (hr_disk s) = (Inr u, d1)"
    and init: "harness_init jj (s\<lparr>hr_disk := d1\<rparr>) = (Inr v, s2)"
    and p1: "measured_phase jj (ha_full_rescan args) ''cold_baseline'' (bj_empty_tree jj) b0 (\<lambda>n. (True, [])) s2
        = (Inr (base, c1, b1), s3)"
    and p2: "measured_phase jj (ha_full_rescan args) ''no_op'' base b1
        (\<lambda>n. (n = 0, ''no-op snapshot changed '' @ show_nat n @ '' tree entries'')) s3 = (Inr (before, c2, bytes2), s')"
    unfolding cold_and_no_op_def
    by (elim bindE_InrE) (auto dest!: store_size_ok simp: on_disk_ok elim!: bindE_InrE)
  have "hr_disk s2 = d1" using harness_init_disk [OF init] by simp
  then show ?thesis using gen measured_phase_ok [OF p1] measured_phase_ok [OF p2] by fastforce
qed

lemma churn_and_verify_ok:
  assumes "churn_and_verify jj args before bytes2 s = (Inr u, s')"
  shows "\<exists>v d n tree j j' files sum_bytes. apply_churn args (hr_disk s) = (Inr v, d)
    \<and> bj_snapshot jj (hd_tree d) j = (Inr (tree, n), j')
    \<and> word_of_nat (length (bj_diff jj before tree)) = expected_diff_entries args
    \<and> verify_tree (bj_read_file jj tree) (bj_entries jj tree) d = (Inr (files, sum_bytes), hr_disk s')
    \<and> node_in (hd_tree (hr_disk s')) [''.jj''] = None"
proof -
  from assms obtain v d tree changes b s1 files sum_bytes d' where
    churn: "apply_churn args (hr_disk s) = (Inr v, d)"
    and p: "measured_phase jj (ha_full_rescan args) ''incremental'' before bytes2 (\<lambda>n. (True, []))
        (s\<lparr>hr_disk := d\<rparr>) = (Inr (tree, changes, b), s1)"
    and rest: "word_of_nat changes = expected_diff_entries args"
      "verify_tree (bj_read_file jj tree) (bj_entries jj tree) (hr_disk s1) = (Inr (files, sum_bytes), d')"
      "hr_disk s' = d'" "node_in (hd_tree d') [''.jj''] = None"
    unfolding churn_and_verify_def
    by (elim bindE_InrE) (auto simp: on_disk_ok ensure_ok emit_line_ok elim!: bindE_InrE)
  then show ?thesis using measured_phase_ok [OF p] by fastforce
qed

text \<open>
  C37: A harness run that passes. When the harness returns success on a watched root without files whose
  directories have distinct names, and the trees jj returns have distinct paths: the last snapshot
  was taken of the directory as it is at the end, its entries are exactly the regular files there,
  each with its contents; the snapshot taken before the churn equals the one before it; the diff
  between the last two has as many entries as there are paths the churn changed (counted modulo
  2 ^ 64); and nothing named \<open>.jj\<close> is in the root.
\<close>

theorem harness_verifies:
  assumes run: "run_harness jj args s = (Inr u, s')"
    and root: "wf_tree (hd_tree (hr_disk s))" "\<forall>p. file_in (hd_tree (hr_disk s)) p = None"
    and small: "unat (ha_modify args) + unat (ha_remove args) + unat (ha_move_like args) < 2 ^ 64"
    and paths: "\<forall>t j tree n j'. wf_tree t \<and> bj_snapshot jj t j = (Inr (tree, n), j') \<longrightarrow>
      distinct (map fst (bj_entries jj tree))"
  shows "\<exists>t0 base before tree i i' j j' k k' l m n.
    bj_snapshot jj t0 i = (Inr (base, l), i') \<and> bj_snapshot jj t0 j = (Inr (before, m), j')
    \<and> bj_snapshot jj (hd_tree (hr_disk s')) k = (Inr (tree, n), k')
    \<and> bj_diff jj base before = []
    \<and> word_of_nat (length (bj_diff jj before tree))
        = (word_of_nat (card {p. file_in t0 p \<noteq> file_in (hd_tree (hr_disk s')) p}) :: u64)
    \<and> fst ` set (bj_entries jj tree) = {p. file_in (hd_tree (hr_disk s')) p \<noteq> None}
    \<and> (\<forall>e \<in> set (bj_entries jj tree). \<exists>b. stored_file (bj_read_file jj tree) e = Some (fst e, b)
         \<and> file_in (hd_tree (hr_disk s')) (fst e) = Some b)
    \<and> node_in (hd_tree (hr_disk s')) [''.jj''] = None"
proof -
  from run obtain before bytes2 s2 where v: "validate_args args = Inr ()"
    and first: "cold_and_no_op jj args (s\<lparr>hr_output := hr_output s @ [Config_line args]\<rparr>) = (Inr (before, bytes2), s2)"
    and second: "churn_and_verify jj args before bytes2 s2 = (Inr u, s')"
    unfolding run_harness_def
    by (elim bindE_InrE) (auto simp: checked_ok emit_line_ok elim!: bindE_InrE)
  from cold_and_no_op_ok [OF first] obtain w base l m i i' j j' where
    gen: "generate_baseline (unat (ha_files args)) (unat (ha_file_bytes args)) (hr_disk s) = (Inr w, hr_disk s2)"
    and snap: "bj_snapshot jj (hd_tree (hr_disk s2)) i = (Inr (base, l), i')"
      "bj_snapshot jj (hd_tree (hr_disk s2)) j = (Inr (before, m), j')" "bj_diff jj base before = []"
    by auto
  from churn_and_verify_ok [OF second] obtain x d n tree k k' files sum_bytes where
    churn: "apply_churn args (hr_disk s2) = (Inr x, d)"
    and last: "bj_snapshot jj (hd_tree d) k = (Inr (tree, n), k')"
      "word_of_nat (length (bj_diff jj before tree)) = expected_diff_entries args"
      "verify_tree (bj_read_file jj tree) (bj_entries jj tree) d = (Inr (files, sum_bytes), hr_disk s')"
      "node_in (hd_tree (hr_disk s')) [''.jj''] = None"
    by (elim exE conjE) (rule that)
  have wf: "wf_tree (hd_tree d)" using churn_wf [OF churn] generate_wf [OF gen root(1)] by blast
  have same: "hd_tree (hr_disk s') = hd_tree d"
    by (rule verified_tree_kept [OF last(3)])
  have "distinct (map fst (bj_entries jj tree))" using paths wf last(1) by blast
  note ver = verified_tree_matches [OF last(3) wf this]
  note cnt = churn_expected [OF v small root(2) gen churn]
  have diff: "word_of_nat (length (bj_diff jj before tree))
      = (word_of_nat (card {p. file_in (hd_tree (hr_disk s2)) p \<noteq> file_in (hd_tree d) p}) :: u64)"
    using last(2) cnt by simp
  show ?thesis
    unfolding same
    by (rule exI)+ (rule conjI [OF snap(1) conjI [OF snap(2) conjI [OF last(1) conjI [OF snap(3)
      conjI [OF diff conjI [OF ver [THEN conjunct1] conjI [OF ver [THEN conjunct2, THEN conjunct1]
        last(4) [unfolded same]]]]]]]])
qed

text \<open>A jj that keeps the tree of the directory as it is; its only state counts the snapshots.\<close>

definition scale_diff :: "tree_node \<Rightarrow> tree_node \<Rightarrow> (string + unit) list" where
  "scale_diff a b = map (\<lambda>p. Inr ()) (filter (\<lambda>p. file_in a p \<noteq> file_in b p) (remdups (file_paths a @ file_paths b)))"

definition scale_jj :: "(tree_node, nat) harness_jj" where
  "scale_jj =
     \<lparr>bj_init = Pair (Inr ()), bj_new_working_copy = (\<lambda>name. Pair (Inr ())),
      bj_snapshot = (\<lambda>t n. (Inr (t, 0), n + 1)), bj_empty_tree = Node_dir [], bj_diff = scale_diff,
      bj_entries = (\<lambda>t. map (\<lambda>p. (p, Inr (Some (Some (File (display_path p) False))))) (file_paths t)),
      bj_read_file = (\<lambda>t p ident. case file_in t p of Some b \<Rightarrow> Inr b | None \<Rightarrow> Inl ''no object''),
      bj_shadow = (\<lambda>n. scale_root)\<rparr>"

definition scale_start :: "nat harness_run" where
  "scale_start = \<lparr>hr_disk = scale_root, hr_jj = 0, hr_generation = 0, hr_output = []\<rparr>"

lemma scale_passes: "fst (run_harness scale_jj scale_args scale_start) = Inr ()"
  by code_simp

lemma scale_snapshot: "bj_snapshot scale_jj t j = (Inr (tree, n), j') \<Longrightarrow> tree = t"
  by (simp add: scale_jj_def)

lemma scale_paths: "wf_tree t \<Longrightarrow> distinct (map fst (bj_entries scale_jj t))"
  using distinct_file_paths by (simp add: scale_jj_def comp_def)

theorem harness_verifies_witness:
  "\<exists>s'. run_harness scale_jj scale_args scale_start = (Inr (), s')
    \<and> fst ` set (bj_entries scale_jj (hd_tree (hr_disk s'))) = {p. file_in (hd_tree (hr_disk s')) p \<noteq> None}"
proof -
  obtain s' where r: "run_harness scale_jj scale_args scale_start = (Inr (), s')"
    using scale_passes by (metis prod.collapse)
  have d: "hr_disk scale_start = scale_root" by (simp add: scale_start_def)
  have w: "wf_tree (hd_tree scale_root)" by (simp add: scale_root_def)
  have small: "unat (ha_modify scale_args) + unat (ha_remove scale_args) + unat (ha_move_like scale_args) < 2 ^ 64"
    by (simp add: scale_args_def)
  have paths: "\<forall>t j tree n j'. wf_tree t \<and> bj_snapshot scale_jj t j = (Inr (tree, n), j') \<longrightarrow>
      distinct (map fst (bj_entries scale_jj tree))"
    using scale_snapshot scale_paths by blast
  from harness_verifies [OF r, unfolded d, OF w _ small paths] scale_root_empty obtain tree k k' n where
    "bj_snapshot scale_jj (hd_tree (hr_disk s')) k = (Inr (tree, n), k')"
    "fst ` set (bj_entries scale_jj tree) = {p. file_in (hd_tree (hr_disk s')) p \<noteq> None}"
    by blast
  then show ?thesis using r scale_snapshot by blast
qed

end
