(* ===== verification/Outer_Tests.thy ===== *)
theory Outer_Tests
  imports Sink_Tests Wire_Format Harness_Run
begin

text \<open>
  Tests of the schema, the reader, the control socket and the scale harness (the modules \<open>tests\<close> of
  \<open>crates/rrjj-schema/src/lib.rs\<close>, \<open>crates/rrjj-reader/src/lib.rs\<close>, \<open>crates/rrjj/src/main.rs\<close> and
  \<open>bench/jj-scale/src/main.rs\<close>), run on the model, as in \<open>Sink_Tests\<close>. The three tests of \<open>main.rs\<close>
  about the HTTP listener are left out: their assertions are about the text of a message and the
  bodies of the embedded assets. The time of an event is its text.
\<close>

section \<open>The schema\<close>

text \<open>\<open>value["name"]\<close>, and the expected unsigned number.\<close>

definition index :: "json_value \<Rightarrow> string \<Rightarrow> json_value" where
  "index j name =
     (case j of Json_object m \<Rightarrow> (case map_of m name of Some v \<Rightarrow> v | None \<Rightarrow> Json_null) | _ \<Rightarrow> Json_null)"

definition unsigned_value :: "u64 \<Rightarrow> json_value" where
  "unsigned_value n = Json_number (Pos_int n)"

definition serializes_normative_envelope :: bool where
  "serializes_normative_envelope =
     (let event = event_at ''session'' 7 ''2026-07-10T12:30:00.000Z''
            (Mark \<lparr>mk_label = ''step'', mk_meta = [], mk_ref_op = ''op:abc''\<rparr>);
          j = canonical (event_json event) in
      index j ''v'' = unsigned_value 0 \<and> index j ''seq'' = unsigned_value 7
      \<and> index j ''type'' = Json_string ''mark''
      \<and> index (index j ''data'') ''ref_op'' = Json_string ''op:abc''
      \<and> index j ''ts'' = Json_string ''2026-07-10T12:30:00.000Z'')"

definition unknown_fields_are_ignored :: bool where
  "unknown_fields_are_ignored =
     (case event_of_json (canonical (Json_object [
        (''v'', unsigned_value 0), (''seq'', unsigned_value 0), (''session_id'', Json_string ''s''),
        (''ts'', Json_string ''now''), (''type'', Json_string ''overflow''),
        (''data'', Json_object [
          (''source'', Json_string ''inotify''), (''raw_events'', unsigned_value 3),
          (''recovery'', Json_string ''full_scan_snapshot''), (''future'', Json_bool True)]),
        (''future_envelope'', Json_bool True)])) of
        None \<Rightarrow> False
      | Some event \<Rightarrow> (case ev_body event of Overflow x \<Rightarrow> True | _ \<Rightarrow> False))"

definition manifest_format :: format_metadata where
  "manifest_format =
     \<lparr>fm_session_format = SESSION_FORMAT_VERSION, fm_schema_version = SCHEMA_VERSION,
      fm_rrjj_version = ''0.1.0'', fm_jj_lib_version = ''0.43.0'', fm_jj_store_version = ''jj-lib-0.43.0/git''\<rparr>"

definition manifest_tracks_observed_and_durable_watermarks_separately :: bool where
  "manifest_tracks_observed_and_durable_watermarks_separately =
     (let manifest =
       \<lparr>sm_session_id = ''s'', sm_format = manifest_format, sm_last_seq = 9, sm_last_op = ''op:new'',
        sm_events_object = Some ''events/00000000000000000009.ndjson'',
        sm_durable_seq = Some 7, sm_durable_op = Some ''op:old'',
        sm_storage = Some
          \<lparr>sp_provider = ''s3'', sp_session_uri = ''s3://recordings/rrjj/s'',
           sp_manifest_uri = ''s3://recordings/rrjj/s/manifest.json'',
           sp_repository_uri = ''s3://recordings/rrjj/s/store/'',
           sp_events_uri = Some ''s3://recordings/rrjj/s/events/00000000000000000009.ndjson''\<rparr>\<rparr>;
          j = canonical (manifest_json manifest) in
      is_compatible manifest \<and> index j ''last_seq'' = unsigned_value 9 \<and> index j ''durable_seq'' = unsigned_value 7
      \<and> index j ''last_op'' \<noteq> index j ''durable_op''
      \<and> index (index j ''storage'') ''manifest_uri'' = Json_string ''s3://recordings/rrjj/s/manifest.json'')"

definition old_manifest_without_storage_remains_compatible :: bool where
  "old_manifest_without_storage_remains_compatible =
     (case manifest_of_json (canonical (Json_object [
        (''session_id'', Json_string ''s''),
        (''format'', Json_object [
          (''session_format'', number SESSION_FORMAT_VERSION), (''schema_version'', number SCHEMA_VERSION),
          (''rrjj_version'', Json_string ''0.1.0''), (''jj_lib_version'', Json_string ''0.43.0''),
          (''jj_store_version'', Json_string ''jj-lib-0.43.0/git'')]),
        (''last_seq'', unsigned_value 0), (''last_op'', Json_string ''op:a'')])) of
        None \<Rightarrow> False
      | Some manifest \<Rightarrow> sm_storage manifest = None \<and> is_compatible manifest)"

section \<open>The reader\<close>

text \<open>The lines of the tests: a mark for each sequence number, on a line with its label.\<close>

definition mark_at :: "u64 \<Rightarrow> string \<Rightarrow> string \<Rightarrow> event" where
  "mark_at seq label op = event_at ''s'' seq ''x'' (Mark \<lparr>mk_label = label, mk_meta = [], mk_ref_op = op\<rparr>)"

definition two_lines :: file_content where
  "two_lines = \<lparr>fc_bytes = ''a'' @ [newline] @ ''b'' @ [newline], fc_error = None\<rparr>"

definition parse_marks :: "event \<Rightarrow> event \<Rightarrow> bytes \<Rightarrow> string + event" where
  "parse_marks a b line =
     (if line = ''a'' then Inr a else if line = ''b'' then Inr b else Inl ''expected value'')"

definition rejects_sequence_gaps :: bool where
  "rejects_sequence_gaps =
     (case timeline_read (parse_marks (mark_at 0 ''a'' ''op:a'') (mark_at 2 ''b'' ''op:b'')) two_lines of
        Inl (Sequence line expected actual) \<Rightarrow> expected = 1 \<and> actual = 2
      | _ \<Rightarrow> False)"

text \<open>\<open>write_manifest\<close>: a session directory with this manifest and this events object.\<close>

definition test_manifest :: "u32 \<Rightarrow> u64 \<Rightarrow> session_manifest" where
  "test_manifest session_format seq =
     \<lparr>sm_session_id = ''s'', sm_format = test_format\<lparr>fm_session_format := session_format\<rparr>,
      sm_last_seq = seq, sm_last_op = ''op:a'', sm_events_object = None,
      sm_durable_seq = Some 0, sm_durable_op = Some ''op:a'', sm_storage = None\<rparr>"

definition write_manifest :: "session_manifest \<Rightarrow> file_content option \<Rightarrow> (bytes \<Rightarrow> string + event) \<Rightarrow> reader_env" where
  "write_manifest manifest events from_str =
     \<lparr>re_read_manifest = (\<lambda>root. Inr []), re_parse_manifest = (\<lambda>bs. Inr manifest),
      re_open = (\<lambda>root path. if path = ''events/000000.ndjson'' then (case events of Some f \<Rightarrow> Inr f | None \<Rightarrow> Inl (Os_error 2)) else Inl (Os_error 2)),
      re_from_str = from_str\<rparr>"

definition refuses_incompatible_session_format :: bool where
  "refuses_incompatible_session_format =
     (case session_open (write_manifest (test_manifest (SESSION_FORMAT_VERSION + 1) 0) None (\<lambda>l. Inl [])) [''session''] of
        Inl (Incompatible session_format schema_version) \<Rightarrow> True
      | _ \<Rightarrow> False)"

definition refuses_events_beyond_durable_watermark :: bool where
  "refuses_events_beyond_durable_watermark =
     (case session_open (write_manifest (test_manifest SESSION_FORMAT_VERSION 1) (Some two_lines)
             (parse_marks (mark_at 0 ''a'' ''op:a'') (mark_at 1 ''b'' ''op:a''))) [''session''] of
        Inl (Beyond_watermark requested durable) \<Rightarrow> requested = 1 \<and> durable = 0
      | _ \<Rightarrow> False)"

section \<open>The daemon\<close>

text \<open>A socket: whether its path exists, and whether somebody listens there.\<close>

definition bound_socket :: "(bool \<times> bool) socket_env" where
  "bound_socket =
     \<lparr>se_is_socket = (\<lambda>(exists, listening). if exists then Inr True else Inl (Os_error 2)),
      se_connect = (\<lambda>(exists, listening). (if listening then Inr () else Inl (Os_error 111), exists, listening)),
      se_remove = (\<lambda>(exists, listening). (Inr (), False, listening))\<rparr>"

definition refuses_to_remove_an_active_control_socket :: bool where
  "refuses_to_remove_an_active_control_socket =
     unwrap_err (remove_stale_socket bound_socket (\<lambda>e. []) ''/tmp/active.sock'' (True, True))
       (\<lambda>error (exists, listening). contains error ''is active'' \<and> exists)"

definition removes_a_stale_control_socket :: bool where
  "removes_a_stale_control_socket =
     unwrap_op (remove_stale_socket bound_socket (\<lambda>e. []) ''/tmp/stale.sock'' (True, False))
       (\<lambda>_ (exists, listening). \<not> exists)"

section \<open>The scale harness\<close>

definition generated_content_has_requested_length_and_generation :: bool where
  "generated_content_has_requested_length_and_generation =
     (let first = content 7 0 128; changed = content 7 1 128 in
      length first = 128 \<and> length changed = 128 \<and> first \<noteq> changed)"

definition baseline_layout_shards_large_file_sets :: bool where
  "baseline_layout_shards_large_file_sets =
     (baseline_path 999 = [''baseline'', ''d00000000'', ''f000000000999.bin'']
      \<and> baseline_path 1000 = [''baseline'', ''d00000001'', ''f000000001000.bin''])"

section \<open>The tests pass\<close>

theorem schema_tests_pass:
  "serializes_normative_envelope" "unknown_fields_are_ignored"
  "manifest_tracks_observed_and_durable_watermarks_separately"
  "old_manifest_without_storage_remains_compatible"
  by code_simp+

theorem reader_tests_pass:
  "rejects_sequence_gaps \<and> refuses_incompatible_session_format \<and> refuses_events_beyond_durable_watermark"
  by code_simp

theorem socket_tests_pass:
  "refuses_to_remove_an_active_control_socket \<and> removes_a_stale_control_socket"
  by code_simp

theorem harness_tests_pass:
  "generated_content_has_requested_length_and_generation \<and> baseline_layout_shards_large_file_sets"
  by code_simp

end
