(* ===== verification/Daemon_Args.thy ===== *)
theory Daemon_Args
  imports Remote_Daemon
begin

text \<open>
  From the command line to the daemon's options (\<open>CliCommand::Daemon\<close> and \<open>main\<close> of
  \<open>crates/rrjj/src/main.rs\<close>): the arguments with a default, the two that the environment may give,
  and the session id that is made up when there is none. The address of the HTTP listener is in
  \<open>daemon_env\<close>.
\<close>

text \<open>What was given on the command line; an argument with a default may be missing.\<close>

record daemon_args =
  ag_root :: string
  ag_shadow :: string
  ag_events :: string
  ag_session_dir :: "string option"
  ag_max_spool_bytes :: "u64 option"
  ag_socket :: "string option"
  ag_session_id :: "string option"
  ag_max_changes :: "nat option"
  ag_quiescence_ms :: "nat option"
  ag_max_delay_ms :: "nat option"
  ag_ignore :: "string list"
  ag_checkpoint_backend :: "checkpoint_backend option"
  ag_event_backend :: "event_backend option"
  ag_git_remote_url :: "string option"
  ag_git_ref_prefix :: "string option"
  ag_event_http_url :: "string option"
  ag_event_max_batch_events :: "nat option"
  ag_event_max_batch_bytes :: "nat option"
  ag_cors_origin :: "string option"

definition or_default :: "'a \<Rightarrow> 'a option \<Rightarrow> 'a" where
  "or_default d v = (case v of None \<Rightarrow> d | Some x \<Rightarrow> x)"

text \<open>\<open>#[arg(env = ...)]\<close>: the argument, or else the variable.\<close>

definition or_variable :: "(string \<Rightarrow> string option) \<Rightarrow> string \<Rightarrow> string option \<Rightarrow> string option" where
  "or_variable environment name v = (case v of Some x \<Rightarrow> Some x | None \<Rightarrow> environment name)"

definition daemon_options_of :: "(string \<Rightarrow> string option) \<Rightarrow> string \<Rightarrow> daemon_args \<Rightarrow> daemon_options" where
  "daemon_options_of environment uuid args =
     \<lparr>op_root = ag_root args, op_shadow = ag_shadow args, op_events = ag_events args,
      op_session_dir = ag_session_dir args, op_socket = or_default ''/tmp/rrjj.sock'' (ag_socket args),
      op_session_id = or_default uuid (ag_session_id args),
      op_max_changes = or_default 5000 (ag_max_changes args),
      op_max_spool_bytes = or_default 1073741824 (ag_max_spool_bytes args),
      op_quiescence_ms = or_default 1500 (ag_quiescence_ms args),
      op_max_delay_ms = or_default 10000 (ag_max_delay_ms args), op_ignore = ag_ignore args,
      op_checkpoint_backend = ag_checkpoint_backend args, op_event_backend = ag_event_backend args,
      op_git_remote_url = or_variable environment ''RRJJ_GIT_REMOTE_URL'' (ag_git_remote_url args),
      op_git_ref_prefix = or_default ''refs/rrjj/sessions'' (ag_git_ref_prefix args),
      op_event_http_url = or_variable environment ''RRJJ_EVENT_HTTP_URL'' (ag_event_http_url args),
      op_event_max_batch_events = or_default 100 (ag_event_max_batch_events args),
      op_event_max_batch_bytes = or_default 1048576 (ag_event_max_batch_bytes args),
      op_cors_origin = ag_cors_origin args\<rparr>"

text \<open>The arguments of a daemon of which nothing but the three paths is given.\<close>

definition bare_args :: "string \<Rightarrow> string \<Rightarrow> string \<Rightarrow> daemon_args" where
  "bare_args root shadow events =
     \<lparr>ag_root = root, ag_shadow = shadow, ag_events = events, ag_session_dir = None, ag_max_spool_bytes = None,
      ag_socket = None, ag_session_id = None, ag_max_changes = None, ag_quiescence_ms = None,
      ag_max_delay_ms = None, ag_ignore = [], ag_checkpoint_backend = None, ag_event_backend = None,
      ag_git_remote_url = None, ag_git_ref_prefix = None, ag_event_http_url = None,
      ag_event_max_batch_events = None, ag_event_max_batch_bytes = None, ag_cors_origin = None\<rparr>"

lemmas args_defs = daemon_options_of_def bare_args_def or_default_def or_variable_def

text \<open>
  The defaults are accepted: whatever else is given, arguments without limits pass the checks of
  the limits, and their prefix of recorder refs is one under which checkpoints are not lost.
\<close>

theorem defaults_accepted:
  assumes "ag_max_changes args = None" and "ag_quiescence_ms args = None" and "ag_max_delay_ms args = None"
    and "ag_event_max_batch_events args = None" and "ag_event_max_batch_bytes args = None"
    and "ag_git_ref_prefix args = None"
  shows "check_limits (daemon_options_of environment uuid args) = Inr ()
    \<and> validate_ref_prefix (op_git_ref_prefix (daemon_options_of environment uuid args)) = Inr ()
    \<and> op_git_ref_prefix (daemon_options_of environment uuid args) \<noteq> ''refs/rrjj/remote-cache''"
proof -
  have "validate_ref_prefix ''refs/rrjj/sessions'' = Inr ()" by code_simp
  then show ?thesis using assms by (simp add: args_defs check_limits_def)
qed

text \<open>
  Which durable sink the arguments select: the session directory before the remotes, the two
  remotes only together, and the spool when nothing is given, also by the environment. A single
  remote given by its variable makes the spool-only daemon refuse to start.
\<close>

theorem arguments_select_sink:
  assumes "args = bare_args root shadow events\<lparr>ag_session_dir := dir, ag_git_remote_url := git, ag_event_http_url := http\<rparr>"
    and "options = daemon_options_of environment uuid args"
    and "g = or_variable environment ''RRJJ_GIT_REMOTE_URL'' git"
    and "h = or_variable environment ''RRJJ_EVENT_HTTP_URL'' http"
  shows "validate_options options =
    (case dir of
       Some d \<Rightarrow> Inr (Some Checkpoint_local, Some Event_local)
     | None \<Rightarrow>
         if g \<noteq> None \<and> h \<noteq> None then Inr (Some Checkpoint_git, Some Event_http)
         else if g = None \<and> h = None then Inr (None, Some Event_none)
         else Inl ''supported durable modes are: local (--session-dir), git+http, or spool-only'')"
  using assms
  by (auto simp: args_defs validate_options_def check_limits_def resolved_checkpoint_def resolved_events_def
      check_backends_def split: option.splits)

theorem arguments_select_sink_witness:
  "validate_options (daemon_options_of (\<lambda>n. if n = ''RRJJ_GIT_REMOTE_URL'' then Some ''u'' else None) ''id''
     (bare_args ''/w'' ''/s'' ''/e'')) =
   Inl ''supported durable modes are: local (--session-dir), git+http, or spool-only''"
proof -
  let ?a = "bare_args ''/w'' ''/s'' ''/e''\<lparr>ag_session_dir := None, ag_git_remote_url := None, ag_event_http_url := None\<rparr>"
  let ?e = "\<lambda>n. if n = ''RRJJ_GIT_REMOTE_URL'' then Some ''u'' else None"
  have "?a = bare_args ''/w'' ''/s'' ''/e''" by (simp add: bare_args_def)
  then show ?thesis
    using arguments_select_sink [of ?a, OF refl refl refl refl, of ?e "''id''"] by (simp add: or_variable_def)
qed

end
