(* ===== verification/Spec2Isabelle.thy ===== *)
theory Spec2Isabelle
  imports Session_Tests Outer_Tests Daemon_Args
begin

text \<open>
  A verification library of rrjj, a recorder that keeps the history of a directory: it watches the
  directory, snapshots it with jj into a private shadow repository, and writes a numbered log of
  events to a sink; a session recorded that way can be opened, compared and checked out later.

  \<^bold>\<open>The program and its parts.\<close> Paths are under \<open>src/crates\<close> unless they start with \<open>bench\<close>.

  \<^item> \<open>rrjj-schema/src/lib.rs\<close>: the events and the manifest. Theory \<open>Schema\<close>.
  \<^item> \<open>rrjj-core/src/lib.rs\<close>: notifications collect in the audit accumulator (\<open>Audit_Accumulator\<close>);
    \<open>JjRecorder\<close> takes snapshots and projects diffs (\<open>Recorder\<close>); the coordinator turns commands and
    drained observations into events (\<open>Coordinator\<close>, its invariants \<open>Coordinator_Inv\<close>, its step
    relation \<open>Coordinator_Steps\<close>, its log \<open>Coordinator_Log\<close>, its properties \<open>Coordinator_Props\<close> and a
    small session for witnesses \<open>Session_Example\<close>); \<open>start\<close>, the filter of notifications, the timer
    task and \<open>CoordinatorHandle\<close> are in \<open>Watcher\<close>, \<open>Daemon\<close> (\<open>handle_status\<close> and the like) and
    \<open>Daemon_Run\<close> (\<open>handle_shutdown\<close>, \<open>handle_touched\<close>, \<open>handle_overflow\<close>).
  \<^item> \<open>rrjj-sinks/src\<close>: \<open>traits.rs\<close> and \<open>error.rs\<close> (\<open>Sink_Types\<close>), \<open>util.rs\<close> (\<open>Sink_Util\<close>,
    \<open>Cursor_File\<close>), \<open>journal.rs\<close> (\<open>Journal\<close>), \<open>broadcast.rs\<close> (\<open>Broadcast_Sink\<close>), \<open>durable.rs\<close>
    (\<open>Durable_Sink\<close>), \<open>local.rs\<close> (\<open>Directory_Sink\<close> and its copy of the repository \<open>Repository_Sync\<close>),
    \<open>http.rs\<close> (\<open>Http_Sink\<close>), \<open>git.rs\<close> (\<open>Git_Sink\<close>).
  \<^item> \<open>rrjj-reader/src/lib.rs\<close>: timelines, sessions, inspection, diffs and materialisation. Theory
    \<open>Reader\<close>; \<open>Fs_Path\<close> has the path functions of the standard library.
  \<^item> \<open>rrjj/src/main.rs\<close>: the daemon and its clients. \<open>Daemon\<close> has the checks of the options, the choice
    of the sinks, the control requests and the stale socket; \<open>Control_Cli\<close> the command line, the HTTP
    handlers and both ends of the socket; \<open>Daemon_Run\<close> the life of a daemon, \<open>run_daemon\<close>.
  \<^item> \<open>bench/jj-scale/src/main.rs\<close>: the scale harness. \<open>Harness_Fs\<close> (calls on a tree of files),
    \<open>Harness_Walk\<close> (its walks and the verification), \<open>Scale_Harness\<close> (arguments, files and churn),
    \<open>Harness_Run\<close> (the run).

  \<^bold>\<open>How they interact.\<close> The daemon opens a durable sink, wraps it in the broadcast sink, and starts the
  coordinator on it. The coordinator calls the sink through the record \<open>sink_ops\<close>; the locale
  \<open>sink_contract\<close> (\<open>Sink_Types\<close>) states what a sink promises of the list of accepted events, and is
  interpreted for the journal, the durable sink, the directory sink, the broadcast sink over each of
  them, and a scripted sink. The watcher's task and the clients act on the coordinator as steps of
  \<open>live_step\<close> (\<open>Watcher\<close>), which refine the steps \<open>cstep\<close> of the coordinator (\<open>live_steps_csteps\<close>).
  \<open>Published_Session\<close> composes coordinator, broadcast sink, directory sink and reader;
  \<open>daemon_session_complete\<close> below adds the daemon around them.

  \<^bold>\<open>State and errors.\<close> A struct is a record whose fields have a prefix of the component (\<open>co_\<close> the
  coordinator, \<open>as_\<close> and \<open>aa_\<close> the accumulator, \<open>di_\<close> the directory sink, \<open>nj_\<close> the journal, \<open>lv_\<close> a
  live session, \<open>op_\<close> the daemon's options, \<open>ha_\<close> the harness's arguments). A fallible operation has
  the type \<open>op\<close> of \<open>Rrjj_Prelude\<close>: it returns a sum, with the error on the left, and the state it
  leaves, also when it fails; \<open>bindE\<close> is the \<open>?\<close> operator. Sequence numbers, sizes and counters of
  64 bits are words, with saturating or wrapping arithmetic as in the source. B-tree maps and sets are
  sorted association lists and lists (\<open>bt_insert\<close>, \<open>bs_insert\<close>, locale \<open>ordered_map\<close>). Files are
  written through a script of faults, one for each call: every call may fail, and may leave part of
  the data; theorems hold for every script.

  \<^bold>\<open>What the lemmas show.\<close> Of the accumulator: size bounds and exactness of a drain. Of the
  coordinator: the well-formedness invariant, the numbering of the log, the order of marks, flushes and
  the end, the completeness of the reports, retries, and that the settle loop returns. Of the sinks:
  the accepted stream, reopening, the order and the limits of deliveries, outages, leases, redaction,
  and that the session directory never claims more than it holds, at every point where a
  publication may be interrupted. Of the reader: it reads what the sinks write, and checks out only
  where it may. Of the watcher: the timer is never lost, roots are separate, live states are
  well formed. Of the daemon: a client is told what the session replied, and a daemon that
  returns success leaves a complete session. Of the harness: its walk counts the files, its churn
  makes the announced number of changes, a run that passes has compared every file.
  Some theorems state behaviour the code should not have (\<open>refused_snap_wedges\<close>,
  \<open>failed_sync_duplicates\<close>, \<open>failed_resume_stalls\<close>, \<open>retry_spins\<close>, \<open>late_failure_abandons\<close>,
  \<open>cursor_files_observed\<close>, \<open>stale_events_republished\<close>, \<open>durability_claimed_unasked\<close>,
  \<open>dotted_destination_passes\<close>, \<open>aliased_exclusion_observed\<close>, \<open>own_path_limit_forces_no_scan\<close>).

  \<^bold>\<open>Bounds and termination.\<close> There is no fuel. The settle loop of the coordinator is a partial function
  in the option monad, since a round ends with whatever notifications have arrived meanwhile;
  \<open>coordinator_returns\<close> proves that it returns when finitely many batches are still to arrive. The retries
  of the HTTP sink recurse on the number left; the walks of the harness have the number of nodes on
  the stack as their measure; \<open>serve\<close> is given the finite list of what it waits for, and \<open>None\<close> is a
  daemon that still serves. The limits of the program (\<open>MAX_AUDIT_PATHS\<close>, \<open>MAX_OVERFLOW_REPORTS\<close>,
  \<open>FILES_PER_DIRECTORY\<close>, the chunk size of the comparison of files) have their values.

  \<^bold>\<open>Parameters.\<close> What is not in the repository is an argument of the definitions: jj_lib (\<open>jj_ops\<close>,
  \<open>reader_jj\<close>, \<open>harness_jj\<close>), libgit2 (\<open>git_env\<close>), the HTTP client, notify and globset (\<open>glob_ops\<close>),
  serde_json (encoders and decoders, with round trips as hypotheses where a property needs them),
  the wall clock, and the file system around the parts that model their own files (\<open>root_env\<close>,
  \<open>materialize_env\<close>, \<open>daemon_env\<close>, \<open>roots_env\<close>). The hypotheses about them are in the theorems that
  use them, and every theorem with a hypothesis has a witness.

  \<^bold>\<open>Not modelled.\<close> The two functions \<open>settings()\<close> and the third of the harness are configuration text
  for jj_lib. Argument parsing is clap's. The sockets, the HTTP server, the tasks and channels of
  tokio are its; a request and its reply are one step, a subscriber's stream is what its receiver
  yields (a slow one misses events, and is told so). The times and the peak memory that the harness
  prints are left out. The assets of the scrubber are opaque strings, and its JavaScript is not part
  of the implementation. Test modules have no operations of their own.
\<close>

section \<open>A daemon and its session\<close>

text \<open>
  C26: A daemon that exits successfully leaves a complete session. Take a daemon in local mode on a
  fresh session directory, let clients, watcher and notifications do anything while it serves, and
  let it be terminated: when it returns success, the session directory opens in the reader, and
  its timeline is exactly the events the live subscribers were sent; it ends with \<open>session_end\<close>
  for the reason \<open>terminated\<close> and a flush, and every path observed before the shutdown is
  reported in it.
\<close>

theorem daemon_session_complete:
  assumes run: "run_daemon env ga ha globs watch cx arrivals jw now options session signal events w
      = Some (Inr (), Ended l, w')"
    and open_sink: "opens_local (de_open_sink env) fs faults disk dir session_id"
    and fresh: "df_spool fs = []" "sd_events disk = None" "sd_manifest disk = None"
    and sink: "cx_sink cx = broadcast_ops (directory_ops disp tv shadow)"
    and live: "\<forall>l0. live_steps cx l0 (session l0)"
    and small: "length (bs_sent (co_sink (lv_core l))) < 2 ^ 64"
    and codec: "list_all (text_codec_ok tv (re_from_str renv)) (bs_sent (co_sink (lv_core l)))"
    and reader: "reads_disk renv root (di_disk (bs_durable (co_sink (lv_core l))))"
  shows "\<exists>es e1 e2 v fl m. bs_sent (co_sink (lv_core l)) = es @ [e1, e2]
    \<and> ev_body e1 = Session_end v \<and> se_reason v = ''terminated'' \<and> ev_body e2 = Flush fl
    \<and> session_open renv root = Inr \<lparr>rs_root = root, rs_manifest = m, rs_timeline = es @ [e1, e2]\<rparr>
    \<and> (\<exists>w0 sink l0 ws. start (de_roots env w0) (de_disp env) globs watch cx (daemon_config options)
           (fst (broadcast_new sink 1024)) arrivals jw now = Inr (l0, ws)
         \<and> (\<forall>p. tracked p (lv_core (session l0)) (bs_sent (co_sink (lv_core (session l0)))) \<longrightarrow>
              reported p es))"
proof (rule ended_cases [OF run])
  fix checkpoint event d w1 w2 l0 ws reply
  assume opened: "de_open_sink env (durable_sink_mode (cx_version cx) ga ha options checkpoint event) w1 = (Inr d, w2)"
    and started: "start (de_roots env w2) (de_disp env) globs watch cx (daemon_config options)
       (fst (broadcast_new d 1024)) arrivals jw now = Inr (l0, ws)"
    and stop: "send cx (Shutdown ''terminated'') (session l0) = Some (R_unit reply, l)"
    and "Inr () = (Inr () :: string + unit) \<Longrightarrow> reply = Inr ()"
  then have fin: "finish cx ''terminated'' (lv_core (session l0)) = Some (Inr (), lv_core l)"
    by (intro send_shutdown) simp
  from opened open_sink obtain spool max_bytes where
    "directory_create fs faults disk spool dir session_id (daemon_format (cx_version cx)) max_bytes = Inr d"
    unfolding opens_local_def using local_format by metis
  then obtain e where e: "reachable cx (lv_core l0) [e]" "recorded tv (bs_durable (co_sink (lv_core l0))) [e]"
    "bs_sent (co_sink (lv_core l0)) = [e]"
    by (rule started_recorded [OF started _ fresh sink])
  obtain es1 fs e1 e2 v fl k r where log: "bs_sent (co_sink (lv_core (session l0))) = es1"
    "recorded tv (bs_durable (co_sink (lv_core l))) ((es1 @ fs) @ [e1, e2])"
    "bs_sent (co_sink (lv_core l)) = (es1 @ fs) @ [e1, e2]"
    "so_flush_session (broadcast_ops (directory_ops disp tv shadow)) r k = (Inr (), co_sink (lv_core l))"
    "ev_body e1 = Session_end v" "se_reason v = ''terminated''" "ev_body e2 = Flush fl"
    "session_inv cx (lv_core l) ((es1 @ fs) @ [e1, e2])"
    "\<forall>p. tracked p (lv_core (session l0)) es1 \<longrightarrow> reported p (es1 @ fs)"
    by (rule live_recorder.session_terminates [OF e(1) conjI [OF e(2,3)] sink live [rule_format, of l0] fin]) blast
  have "stream_ok (cf_session_id (co_config (lv_core l))) SCHEMA_VERSION ((es1 @ fs) @ [e1, e2])"
    using log(8) by (simp add: session_inv_def numbered_def)
  then obtain m where "session_open renv root
      = Inr \<lparr>rs_root = root, rs_manifest = m, rs_timeline = (es1 @ fs) @ [e1, e2]\<rparr>"
    using flushed_opens [OF log(4,2)] small codec reader unfolding log(3) by blast
  then show ?thesis using log started by blast
qed

theorem daemon_session_complete_witness:
  "\<exists>l es e1 e2 v m. dm_run = Some (Inr (), Ended l, ()) \<and> dm_log l = es @ [e1, e2] \<and> length es = 1
    \<and> ev_body e1 = Session_end v \<and> se_reason v = ''terminated''
    \<and> session_open (directory_reader (pub_decode (dm_log l)) (di_disk (bs_durable (co_sink (lv_core l)))))
        [''s'', ''session'']
      = Inr \<lparr>rs_root = [''s'', ''session''], rs_manifest = m, rs_timeline = es @ [e1, e2]\<rparr>"
proof -
  obtain l where l: "dm_run = Some (Inr (), Ended l, ())" "length (dm_log l) = 3"
    "list_all (text_codec_ok pub_encode (pub_decode (dm_log l))) (dm_log l)"
    using dm_ran by blast
  let ?r = "directory_reader (pub_decode (dm_log l)) (di_disk (bs_durable (co_sink (lv_core l))))"
  have f: "df_spool pub_fs = []" "sd_events pub_disk = None" "sd_manifest pub_disk = None"
    "cx_sink pub_cx = broadcast_ops (directory_ops (\<lambda>e. []) pub_encode (\<lambda>p. []))"
    by (simp_all add: pub_fs_def pub_disk_def pub_cx_def)
  have live: "\<forall>l0. live_steps pub_cx l0 (dm_session l0)"
    unfolding dm_session_def using live_client [OF pause_flag] by blast
  have small: "length (bs_sent (co_sink (lv_core l))) < 2 ^ 64" using l(2) by (simp add: dm_log_def)
  have codec: "list_all (text_codec_ok pub_encode (re_from_str ?r)) (bs_sent (co_sink (lv_core l)))"
    using l(3) by (simp add: directory_reader_def dm_log_def)
  from daemon_session_complete [OF l(1) [unfolded dm_run_def] dm_opens f live small codec directory_reader_reads,
      of "[''s'', ''session'']"]
  obtain es e1 e2 v m where r: "bs_sent (co_sink (lv_core l)) = es @ [e1, e2]" "ev_body e1 = Session_end v"
    "se_reason v = ''terminated''"
    "session_open ?r [''s'', ''session''] = Inr \<lparr>rs_root = [''s'', ''session''], rs_manifest = m, rs_timeline = es @ [e1, e2]\<rparr>"
    by blast
  then have "dm_log l = es @ [e1, e2]" "length es = 1" using l(2) by (simp_all add: dm_log_def)
  then show ?thesis using l(1) r by blast
qed

end
